(* ===== verification/Rdma_Prelude.thy ===== *)
theory Rdma_Prelude
  imports Main "HOL-Library.Word" "HOL-Library.List_Lexorder" "HOL-Library.Char_ord"
begin

text \<open>
  Shared vocabulary of the development: the part of the C++ standard library the
  sources use, as executable functions, and the lemmas on them that the component
  theories share.

  \<^item> \<open>std::string\<close> searching and slicing (\<open>find\<close>, \<open>rfind\<close> used as a prefix test,
    \<open>substr\<close>), \<open>std::getline\<close> over a string stream, \<open>std::to_string\<close>;
  \<^item> \<open>std::map\<close> as an association list sorted by key (its iteration order is
    observable), \<open>std::unordered_map\<close> as a map;
  \<^item> \<open>std::condition_variable::wait_for\<close> with a predicate;
  \<^item> the abstract machine: the heap of \<open>shared_ptr\<close> buffers, the clock, and the one
    implementation choice the sources leave open (the evaluation order of
    constructor arguments).
\<close>

named_theorems cxx_str \<open>facts on the modelled string operations\<close>
named_theorems cxx_mem \<open>facts on the modelled heap\<close>

section \<open>Strings\<close>

abbreviation NL :: char where "NL \<equiv> CHR 0x0A"
abbreviation CR :: char where "CR \<equiv> CHR 0x0D"
abbreviation QUOTE :: char where "QUOTE \<equiv> CHR 0x22"
abbreviation BSLASH :: char where "BSLASH \<equiv> CHR 0x5C"
abbreviation TAB :: char where "TAB \<equiv> CHR 0x09"

text \<open>\<open>s.find(c)\<close>; \<open>npos\<close> is \<open>None\<close>.\<close>

fun find_char :: "char \<Rightarrow> string \<Rightarrow> nat option" where
  "find_char c [] = None"
| "find_char c (x # xs) = (if x = c then Some 0 else map_option Suc (find_char c xs))"

text \<open>\<open>s.rfind(p, 0) == 0\<close>, the sources' idiom for "starts with \<open>p\<close>".\<close>

definition starts_with :: "string \<Rightarrow> string \<Rightarrow> bool" where
  "starts_with p s \<longleftrightarrow> take (length p) s = p"

text \<open>\<open>s.substr(pos, n)\<close> and \<open>s.substr(pos)\<close> for an in-range \<open>pos\<close>.\<close>

definition substr :: "string \<Rightarrow> nat \<Rightarrow> nat \<Rightarrow> string" where
  "substr s pos n = take n (drop pos s)"

definition substr_from :: "string \<Rightarrow> nat \<Rightarrow> string" where
  "substr_from s pos = drop pos s"

lemma find_char_None [cxx_str]: "find_char c s = None \<longleftrightarrow> c \<notin> set s"
  by (induction s) auto

lemma find_char_Some_lt: "find_char c s = Some p \<Longrightarrow> p < length s"
  by (induction s arbitrary: p) (auto split: if_splits)

lemma find_char_split:
  "find_char c s = Some p \<Longrightarrow> s = take p s @ c # drop (Suc p) s \<and> c \<notin> set (take p s)"
  by (induction s arbitrary: p) (auto split: if_splits)

lemma find_char_append [cxx_str]: "c \<notin> set xs \<Longrightarrow> find_char c (xs @ c # ys) = Some (length xs)"
  by (induction xs) auto

lemma find_char_SomeD:
  assumes "find_char c s = Some p"
  obtains xs ys where "s = xs @ c # ys" "c \<notin> set xs" "p = length xs"
proof -
  have "s = take p s @ c # drop (Suc p) s" "c \<notin> set (take p s)"
    using find_char_split [OF assms] by blast+
  moreover have "p = length (take p s)"
    using find_char_Some_lt [OF assms] by simp
  ultimately show thesis by (rule that)
qed

lemma starts_with_append [simp]: "starts_with p (p @ s)"
  by (simp add: starts_with_def)

lemma starts_with_conv: "starts_with p s \<longleftrightarrow> (\<exists>t. s = p @ t)"
  by (metis append_eq_conv_conj append_take_drop_id starts_with_def)

subsection \<open>\<open>std::getline\<close>\<close>

text \<open>
  The lines \<open>while (std::getline(stream, line))\<close> sees on a string stream: the text
  between newlines; a last line that has no newline is still delivered, but an empty
  rest after a final newline is not.
\<close>

function getlines :: "string \<Rightarrow> string list" where
  "getlines s =
     (if s = [] then []
      else case find_char NL s of
             None \<Rightarrow> [s]
           | Some p \<Rightarrow> take p s # getlines (drop (Suc p) s))"
  by pat_completeness auto
termination
  by (relation "measure length") auto

declare getlines.simps [simp del]

lemma getlines_Nil [simp]: "getlines [] = []"
  by (simp add: getlines.simps)

lemma getlines_line [cxx_str]:
  assumes "NL \<notin> set l"
  shows "getlines (l @ NL # rest) = l # getlines rest"
  using assms by (simp add: getlines.simps [of "l @ NL # rest"] find_char_append)

lemma getlines_concat:
  assumes "\<forall>l \<in> set ls. NL \<notin> set l"
  shows "getlines (concat (map (\<lambda>l. l @ [NL]) ls)) = ls"
  using assms by (induction ls) (auto simp: getlines_line)

lemma getlines_no_NL: "l \<in> set (getlines s) \<Longrightarrow> NL \<notin> set l"
proof (induction s rule: getlines.induct)
  case (1 s)
  show ?case
  proof (cases "s = [] \<or> find_char NL s = None")
    case True
    with "1.prems" show ?thesis
      by (auto simp: getlines.simps [of s] find_char_None [symmetric] split: if_splits)
  next
    case False
    then obtain p where p: "s \<noteq> []" "find_char NL s = Some p" by auto
    with "1.prems" have "l = take p s \<or> l \<in> set (getlines (drop (Suc p) s))"
      by (simp add: getlines.simps [of s])
    then show ?thesis
      using "1.IH" p find_char_split [OF p(2)] by blast
  qed
qed

subsection \<open>\<open>std::to_string\<close> and the decimal value of a string\<close>

definition digit_char :: "nat \<Rightarrow> char" where
  "digit_char d = char_of (48 + d)"

definition is_digit :: "char \<Rightarrow> bool" where
  "is_digit c \<longleftrightarrow> 48 \<le> (of_char c :: nat) \<and> (of_char c :: nat) \<le> 57"

definition digit_val :: "char \<Rightarrow> nat" where
  "digit_val c = of_char c - 48"

fun to_string :: "nat \<Rightarrow> string" where
  "to_string n =
     (if n < 10 then [digit_char n] else to_string (n div 10) @ [digit_char (n mod 10)])"

declare to_string.simps [simp del]

definition dec_value :: "string \<Rightarrow> nat" where
  "dec_value s = foldl (\<lambda>a c. 10 * a + digit_val c) 0 s"

lemma digit_val_char [simp]: "d < 10 \<Longrightarrow> digit_val (digit_char d) = d"
  by (simp add: digit_val_def digit_char_def)

lemma is_digit_char [simp]: "d < 10 \<Longrightarrow> is_digit (digit_char d)"
  by (simp add: is_digit_def digit_char_def)

lemma digit_chars:
  "digit_char 0 = CHR ''0''" "digit_char 1 = CHR ''1''" "digit_char (Suc 0) = CHR ''1''" "digit_char 2 = CHR ''2''"
  "digit_char 3 = CHR ''3''" "digit_char 4 = CHR ''4''" "digit_char 5 = CHR ''5''" "digit_char 6 = CHR ''6''"
  "digit_char 7 = CHR ''7''" "digit_char 8 = CHR ''8''" "digit_char 9 = CHR ''9''"
  by (simp_all add: digit_char_def char_of_def bit_0)

lemma to_string_digits: "\<forall>c \<in> set (to_string n). is_digit c"
proof (induction n rule: to_string.induct)
  case (1 n)
  then show ?case by (subst to_string.simps) auto
qed

lemma to_string_not_Nil [simp]: "to_string n \<noteq> []"
  by (subst to_string.simps) simp

lemma dec_value_to_string [simp]: "dec_value (to_string n) = n"
proof (induction n rule: to_string.induct)
  case (1 n)
  show ?case
  proof (cases "n < 10")
    case True
    then show ?thesis by (subst to_string.simps) (simp add: dec_value_def)
  next
    case False
    then have "dec_value (to_string n) = 10 * dec_value (to_string (n div 10)) + n mod 10"
      by (subst to_string.simps) (simp add: dec_value_def)
    with False "1" show ?thesis by simp
  qed
qed

lemma to_string_inject [simp]: "to_string m = to_string n \<longleftrightarrow> m = n"
  by (metis dec_value_to_string)

section \<open>\<open>std::map\<close>: association lists sorted by key\<close>

type_synonym str_map = "(string \<times> string) list"

text \<open>\<open>m[k] = v\<close>.\<close>

fun map_put :: "string \<Rightarrow> string \<Rightarrow> str_map \<Rightarrow> str_map" where
  "map_put k v [] = [(k, v)]"
| "map_put k v ((a, b) # m) =
     (if k < a then (k, v) # (a, b) # m
      else if k = a then (k, v) # m
      else (a, b) # map_put k v m)"

definition map_ok :: "str_map \<Rightarrow> bool" where
  "map_ok m \<longleftrightarrow> sorted_wrt (<) (map fst m)"

lemma map_ok_Nil [simp]: "map_ok []"
  by (simp add: map_ok_def)

lemma map_ok_Cons [simp]: "map_ok (p # m) \<longleftrightarrow> (\<forall>q \<in> set m. fst p < fst q) \<and> map_ok m"
  by (auto simp: map_ok_def)

lemma map_put_set: "set (map_put k v m) \<subseteq> insert (k, v) (set m)"
  by (induction k v m rule: map_put.induct) auto

lemma map_put_ok [simp]: "map_ok m \<Longrightarrow> map_ok (map_put k v m)"
proof (induction k v m rule: map_put.induct)
  case (2 k v a b m)
  then show ?case using map_put_set [of k v m] by fastforce
qed simp

lemma map_put_last: "\<forall>q \<in> set m. fst q < k \<Longrightarrow> map_put k v m = m @ [(k, v)]"
  by (induction k v m rule: map_put.induct) (auto dest: less_imp_not_less)

lemma map_of_map_put: "map_ok m \<Longrightarrow> map_of (map_put k v m) = (map_of m)(k \<mapsto> v)"
  by (induction k v m rule: map_put.induct) auto

text \<open>Re-inserting the entries of a sorted map in iteration order rebuilds it.\<close>

lemma map_put_rebuild_gen:
  "map_ok (pre @ m) \<Longrightarrow> foldl (\<lambda>acc (k, v). map_put k v acc) pre m = pre @ m"
proof (induction m arbitrary: pre)
  case (Cons p m)
  have "\<forall>q \<in> set pre. fst q < fst p"
    using Cons.prems by (auto simp: map_ok_def sorted_wrt_append)
  then have "map_put (fst p) (snd p) pre = pre @ [p]"
    by (simp add: map_put_last)
  with Cons show ?case by (simp add: case_prod_beta)
qed simp

lemma map_put_rebuild: "map_ok m \<Longrightarrow> foldl (\<lambda>acc (k, v). map_put k v acc) [] m = m"
  using map_put_rebuild_gen [of "[]" m] by simp

text \<open>\<open>std::unordered_map\<close> is a map; \<open>emplace\<close> and \<open>try_emplace\<close> keep an existing entry.\<close>

definition emplace :: "'k \<Rightarrow> 'v \<Rightarrow> ('k \<rightharpoonup> 'v) \<Rightarrow> ('k \<rightharpoonup> 'v)" where
  "emplace k v m = (case m k of None \<Rightarrow> m(k \<mapsto> v) | Some _ \<Rightarrow> m)"

lemma dom_emplace [simp]: "dom (emplace k v m) = insert k (dom m)"
  by (auto simp: emplace_def split: option.splits)

lemma emplace_other [simp]: "k' \<noteq> k \<Longrightarrow> emplace k v m k' = m k'"
  by (simp add: emplace_def split: option.splits)

lemma emplace_fresh: "m k = None \<Longrightarrow> emplace k v m = m(k \<mapsto> v)"
  by (simp add: emplace_def)

section \<open>\<open>std::condition_variable::wait_for\<close> with a predicate\<close>

text \<open>
  \<open>cv.wait_for(lock, timeout, pred)\<close> is specified as
  \<open>while (!pred()) if (wait_until(...) == timeout) return pred(); return true;\<close>.
  The list holds what the other threads do to the shared state between two moments at
  which the waiting thread holds the lock again; its end is the deadline. The empty
  list is a call nobody else interferes with.
\<close>

fun cv_wait_for :: "('s \<Rightarrow> bool) \<Rightarrow> ('s \<Rightarrow> 's) list \<Rightarrow> 's \<Rightarrow> bool \<times> 's" where
  "cv_wait_for pred [] s = (pred s, s)"
| "cv_wait_for pred (e # es) s = (if pred s then (True, s) else cv_wait_for pred es (e s))"

lemma cv_wait_for_now [simp]: "pred s \<Longrightarrow> cv_wait_for pred es s = (True, s)"
  by (cases es) auto

lemma cv_wait_for_pred: "cv_wait_for pred es s = (ok, s') \<Longrightarrow> ok = pred s'"
  by (induction pred es s rule: cv_wait_for.induct) (auto split: if_splits)

text \<open>An invariant the other threads keep holds in the state the call returns.\<close>

lemma cv_wait_for_inv:
  assumes "cv_wait_for pred es s = (ok, s')" "I s" "\<And>e t. e \<in> set es \<Longrightarrow> I t \<Longrightarrow> I (e t)"
  shows "I s'"
  using assms by (induction pred es s rule: cv_wait_for.induct) (auto split: if_splits)

text \<open>\<open>cv.wait(lock, pred)\<close> has no deadline: when the others' actions end and the predicate
  still does not hold, the call has not returned (\<open>None\<close>).\<close>

fun cv_wait :: "('s \<Rightarrow> bool) \<Rightarrow> ('s \<Rightarrow> 's) list \<Rightarrow> 's \<Rightarrow> 's option" where
  "cv_wait pred [] s = (if pred s then Some s else None)"
| "cv_wait pred (e # es) s = (if pred s then Some s else cv_wait pred es (e s))"

lemma cv_wait_now [simp]: "pred s \<Longrightarrow> cv_wait pred es s = Some s"
  by (cases es) auto

lemma cv_wait_pred: "cv_wait pred es s = Some s' \<Longrightarrow> pred s'"
  by (induction pred es s rule: cv_wait.induct) (auto split: if_splits)

section \<open>The abstract machine\<close>

type_synonym byte = "8 word"
type_synonym ByteBuffer = "byte list"
type_synonym ByteBufferPtr = "nat option"

text \<open>
  \<open>cells\<close> holds the buffers owned by \<open>shared_ptr\<close>s, \<open>next_cell\<close> the next unused
  address; a shared buffer is never freed while a pointer to it exists, so addresses
  below \<open>next_cell\<close> stay valid. \<open>clock\<close> is what \<open>Clock::now()\<close> returns. C++ does not
  fix the order in which the arguments of a constructor call are evaluated:
  \<open>args_ltr\<close> says which order the implementation uses.
\<close>

record machine =
  cells :: "nat \<Rightarrow> ByteBuffer"
  next_cell :: nat
  clock :: nat
  args_ltr :: bool

text \<open>An empty heap.\<close>

definition empty_machine :: machine where
  "empty_machine = \<lparr>cells = \<lambda>_. [], next_cell = 0, clock = 0, args_ltr = True\<rparr>"

definition make_shared :: "ByteBuffer \<Rightarrow> 'w machine_scheme \<Rightarrow> ByteBufferPtr \<times> 'w machine_scheme" where
  "make_shared b m =
     (Some (next_cell m),
      m\<lparr>cells := (cells m)(next_cell m := b), next_cell := Suc (next_cell m)\<rparr>)"

text \<open>\<open>p == nullptr ? 0U : p->size()\<close>.\<close>

definition buf_size :: "ByteBufferPtr \<Rightarrow> 'w machine_scheme \<Rightarrow> nat" where
  "buf_size p m = (case p of None \<Rightarrow> 0 | Some a \<Rightarrow> length (cells m a))"

text \<open>\<open>vector<std::byte>::resize\<close>: keeps a prefix, pads with zero bytes.\<close>

definition resize :: "nat \<Rightarrow> ByteBuffer \<Rightarrow> ByteBuffer" where
  "resize n b = take n b @ replicate (n - length b) 0"

definition resize_at :: "nat \<Rightarrow> nat \<Rightarrow> 'w machine_scheme \<Rightarrow> 'w machine_scheme" where
  "resize_at a n m = m\<lparr>cells := (cells m)(a := resize n (cells m a))\<rparr>"

definition ptr_ok :: "'w machine_scheme \<Rightarrow> ByteBufferPtr \<Rightarrow> bool" where
  "ptr_ok m p \<longleftrightarrow> (case p of None \<Rightarrow> True | Some a \<Rightarrow> a < next_cell m)"

lemma length_resize [simp]: "length (resize n b) = n"
  by (simp add: resize_def)

lemma resize_same [simp]: "resize (length b) b = b"
  by (simp add: resize_def)

lemma make_shared_simps [cxx_mem]:
  "fst (make_shared b m) = Some (next_cell m)"
  "cells (snd (make_shared b m)) = (cells m)(next_cell m := b)"
  "next_cell (snd (make_shared b m)) = Suc (next_cell m)"
  "clock (snd (make_shared b m)) = clock m"
  "args_ltr (snd (make_shared b m)) = args_ltr m"
  by (simp_all add: make_shared_def)

lemma resize_at_simps [cxx_mem]:
  "cells (resize_at a n m) = (cells m)(a := resize n (cells m a))"
  "next_cell (resize_at a n m) = next_cell m"
  "clock (resize_at a n m) = clock m"
  "args_ltr (resize_at a n m) = args_ltr m"
  by (simp_all add: resize_at_def)

end
