(* ===== verification/Rdma_Types.thy ===== *)
theory Rdma_Types
  imports Rdma_Prelude
begin

text \<open>
  The enumerations and byte-string conversions of \<open>rdma/include/rdma/types.h\<close>, and the
  leveled logger of \<open>rdma/src/logger.cpp\<close>. \<open>std::byte\<close> is an 8-bit word, \<open>char\<close> the
  8-bit character type of HOL.
\<close>

section \<open>Enumerations\<close>

type_synonym WorkRequestId = "64 word"

datatype CompletionStatus = CS_kSuccess | CS_kFailed | CS_kTimeout

datatype QueuePairState = kReset | kInit | kReadyToReceive | kReadyToSend | kError

datatype OperationType = kSend | kWrite | kResult

datatype LogLevel = LL_kDebug | LL_kInfo | LL_kWarn | LL_kError

fun CompletionStatus_ToString :: "CompletionStatus \<Rightarrow> string" where
  "CompletionStatus_ToString CS_kSuccess = ''success''"
| "CompletionStatus_ToString CS_kFailed = ''failed''"
| "CompletionStatus_ToString CS_kTimeout = ''timeout''"

fun QueuePairState_ToString :: "QueuePairState \<Rightarrow> string" where
  "QueuePairState_ToString kReset = ''reset''"
| "QueuePairState_ToString kInit = ''init''"
| "QueuePairState_ToString kReadyToReceive = ''ready_to_receive''"
| "QueuePairState_ToString kReadyToSend = ''ready_to_send''"
| "QueuePairState_ToString kError = ''error''"

fun OperationType_ToString :: "OperationType \<Rightarrow> string" where
  "OperationType_ToString kSend = ''send''"
| "OperationType_ToString kWrite = ''write''"
| "OperationType_ToString kResult = ''result''"

fun LogLevel_ToString :: "LogLevel \<Rightarrow> string" where
  "LogLevel_ToString LL_kDebug = ''debug''"
| "LogLevel_ToString LL_kInfo = ''info''"
| "LogLevel_ToString LL_kWarn = ''warn''"
| "LogLevel_ToString LL_kError = ''error''"

lemma QueuePairState_ToString_inject [simp]:
  "QueuePairState_ToString s = QueuePairState_ToString t \<longleftrightarrow> s = t"
  by (cases s; cases t) auto

text \<open>\<open>static_cast<int>(level)\<close> is the position of the constructor; log levels are
  compared through it.\<close>

fun LogLevel_int :: "LogLevel \<Rightarrow> nat" where
  "LogLevel_int LL_kDebug = 0"
| "LogLevel_int LL_kInfo = 1"
| "LogLevel_int LL_kWarn = 2"
| "LogLevel_int LL_kError = 3"

lemma LogLevel_int_inject: "LogLevel_int a = LogLevel_int b \<longleftrightarrow> a = b"
  by (cases a; cases b) auto

instantiation LogLevel :: linorder
begin

definition less_eq_LogLevel :: "LogLevel \<Rightarrow> LogLevel \<Rightarrow> bool" where
  "less_eq_LogLevel a b \<longleftrightarrow> LogLevel_int a \<le> LogLevel_int b"

definition less_LogLevel :: "LogLevel \<Rightarrow> LogLevel \<Rightarrow> bool" where
  "less_LogLevel a b \<longleftrightarrow> LogLevel_int a < LogLevel_int b"

instance
  by standard (auto simp: less_eq_LogLevel_def less_LogLevel_def LogLevel_int_inject)

end

section \<open>Bytes and strings\<close>

text \<open>\<open>std::byte{static_cast<unsigned char>(ch)}\<close> and back.\<close>

definition byte_of_char :: "char \<Rightarrow> byte" where
  "byte_of_char c = word_of_nat (of_char c)"

definition char_of_byte :: "byte \<Rightarrow> char" where
  "char_of_byte b = char_of (unat b)"

fun BytesFromString :: "string \<Rightarrow> ByteBuffer" where
  "BytesFromString [] = []"
| "BytesFromString (ch # text) = byte_of_char ch # BytesFromString text"

fun StringFromBytes :: "ByteBuffer \<Rightarrow> string" where
  "StringFromBytes [] = []"
| "StringFromBytes (b # bytes) = char_of_byte b # StringFromBytes bytes"

definition StringFromBytesPtr :: "ByteBufferPtr \<Rightarrow> 'w machine_scheme \<Rightarrow> string" where
  "StringFromBytesPtr p m = (case p of None \<Rightarrow> [] | Some a \<Rightarrow> StringFromBytes (cells m a))"

lemma unat_byte_of_char: "unat (byte_of_char c) = of_char c"
  by (simp add: byte_of_char_def unat_of_nat)

lemma char_of_byte_of_char [simp]: "char_of_byte (byte_of_char c) = c"
  by (simp add: char_of_byte_def unat_byte_of_char)

lemma byte_of_char_of_byte [simp]: "byte_of_char (char_of_byte b) = b"
proof -
  have "unat b < 256" using unsigned_less [of b, where ?'a = nat] by simp
  then show ?thesis by (simp add: byte_of_char_def char_of_byte_def)
qed

lemma String_Bytes_String [simp]: "StringFromBytes (BytesFromString s) = s"
  by (induction s) auto

lemma Bytes_String_Bytes [simp]: "BytesFromString (StringFromBytes b) = b"
  by (induction b) auto

lemma length_BytesFromString [simp]: "length (BytesFromString s) = length s"
  by (induction s) auto

section \<open>Logger\<close>

text \<open>The singleton's state is its level; \<open>std::clog\<close> is the list of characters written.\<close>

record Logger =
  log_level :: LogLevel
  clog :: string

definition Logger_Instance :: Logger where
  "Logger_Instance = \<lparr>log_level = LL_kInfo, clog = []\<rparr>"

definition Logger_SetLevel :: "LogLevel \<Rightarrow> Logger \<Rightarrow> Logger" where
  "Logger_SetLevel level lg = lg\<lparr>log_level := level\<rparr>"

definition Logger_Log :: "LogLevel \<Rightarrow> string \<Rightarrow> Logger \<Rightarrow> Logger" where
  "Logger_Log level message lg =
     (if level < log_level lg then lg
      else lg\<lparr>clog := clog lg @ ''[rdma]['' @ LogLevel_ToString level @ ''] '' @ message @ [NL]\<rparr>)"

fun Logger_run :: "(LogLevel \<times> string) list \<Rightarrow> Logger \<Rightarrow> Logger" where
  "Logger_run [] lg = lg"
| "Logger_run ((level, message) # calls) lg = Logger_run calls (Logger_Log level message lg)"

lemma Logger_run_level [simp]: "log_level (Logger_run calls lg) = log_level lg"
  by (induction calls lg rule: Logger_run.induct) (auto simp: Logger_Log_def)

lemma Logger_run_filters:
  "clog (Logger_run calls lg) =
     clog lg @ concat (map (\<lambda>(level, message).
       ''[rdma]['' @ LogLevel_ToString level @ ''] '' @ message @ [NL])
       (filter (\<lambda>(level, message). log_level lg \<le> level) calls))"
proof (induction calls arbitrary: lg)
  case (Cons c calls)
  obtain level message where c: "c = (level, message)" by (cases c)
  have lv: "log_level (Logger_Log level message lg) = log_level lg"
    by (simp add: Logger_Log_def)
  show ?case
    by (cases "level < log_level lg") (auto simp: c Cons.IH lv Logger_Log_def not_less)
qed simp

section \<open>Properties\<close>

text \<open>
  \<open>BytesFromString\<close> and \<open>StringFromBytes\<close> are inverse to each other on all strings and
  all byte buffers, so the byte representation of a message loses nothing, non-ASCII
  characters included, and keeps its length.
\<close>

theorem bytes_string_bijection:
  "StringFromBytes (BytesFromString s) = s \<and> BytesFromString (StringFromBytes b) = b \<and>
   length (BytesFromString s) = length s"
  by simp

text \<open>
  Whatever calls are made at a fixed level, the log holds exactly the messages whose level
  is at least the logger's, each once, in call order, with its level in the line's prefix.
\<close>

theorem logger_writes_exactly_the_enabled_levels:
  "clog (Logger_run calls (Logger_SetLevel level lg)) =
     clog lg @ concat (map (\<lambda>(lv, message).
       ''[rdma]['' @ LogLevel_ToString lv @ ''] '' @ message @ [NL])
       (filter (\<lambda>(lv, message). level \<le> lv) calls))"
  using Logger_run_filters [of calls "Logger_SetLevel level lg"] by (simp add: Logger_SetLevel_def)

end
