(* ===== verification/Rdma_Config.thy ===== *)
theory Rdma_Config
  imports Rdma_Types
begin

text \<open>
  The configuration structures of \<open>rdma/include/rdma/config.h\<close> with the default member
  initialisers of the source, \<open>Summarize\<close>, and the verbs-style resource handles
  (\<open>Device\<close>, \<open>Context\<close>, \<open>ProtectionDomain\<close>), whose constructors replace a null handle
  by a default one. \<open>std::size_t\<close> fields that are only compared are natural numbers.
\<close>

record DeviceConfig =
  device_name :: string
  device_port :: "16 word"

record CompletionQueueConfig =
  depth :: nat

record BufferPoolConfig =
  buffers :: nat
  buffer_size :: nat

record TransportConfig =
  backend_name :: string
  mailbox_capacity :: nat

record ServerConfig =
  server_node_id :: string
  listen_address :: string

record ClientConfig =
  client_node_id :: string
  server_node :: string

record WorkerSessionConfig =
  session_node_id :: string
  session_buffer_pool :: BufferPoolConfig
  session_completion_queue :: CompletionQueueConfig

record RdmaConfig =
  device_config :: DeviceConfig
  buffer_pool_config :: BufferPoolConfig
  completion_queue_config :: CompletionQueueConfig
  transport_config :: TransportConfig

definition DeviceConfig_default :: DeviceConfig where
  "DeviceConfig_default = \<lparr>device_name = ''loopback0'', device_port = 1\<rparr>"

definition CompletionQueueConfig_default :: CompletionQueueConfig where
  "CompletionQueueConfig_default = \<lparr>depth = 1024\<rparr>"

definition BufferPoolConfig_default :: BufferPoolConfig where
  "BufferPoolConfig_default = \<lparr>buffers = 8, buffer_size = 64 * 1024\<rparr>"

definition TransportConfig_default :: TransportConfig where
  "TransportConfig_default = \<lparr>backend_name = ''in-memory-rdma'', mailbox_capacity = 4096\<rparr>"

definition ServerConfig_default :: ServerConfig where
  "ServerConfig_default = \<lparr>server_node_id = ''rdma-server'', listen_address = ''loopback''\<rparr>"

definition ClientConfig_default :: ClientConfig where
  "ClientConfig_default = \<lparr>client_node_id = ''rdma-client'', server_node = ''rdma-server''\<rparr>"

definition WorkerSessionConfig_default :: WorkerSessionConfig where
  "WorkerSessionConfig_default =
     \<lparr>session_node_id = ''worker'', session_buffer_pool = BufferPoolConfig_default,
      session_completion_queue = CompletionQueueConfig_default\<rparr>"

definition DefaultRdmaConfig :: RdmaConfig where
  "DefaultRdmaConfig =
     \<lparr>device_config = DeviceConfig_default, buffer_pool_config = BufferPoolConfig_default,
      completion_queue_config = CompletionQueueConfig_default,
      transport_config = TransportConfig_default\<rparr>"

definition Summarize :: "RdmaConfig \<Rightarrow> string" where
  "Summarize config =
     ''device='' @ device_name (device_config config) @ '':''
       @ to_string (unat (device_port (device_config config)))
       @ '', cq_depth='' @ to_string (depth (completion_queue_config config))
       @ '', buffers='' @ to_string (buffers (buffer_pool_config config))
       @ '', buffer_size='' @ to_string (buffer_size (buffer_pool_config config))
       @ '', backend='' @ backend_name (transport_config config)"

section \<open>Device, context and protection domain\<close>

record Device =
  dev_config :: DeviceConfig

definition Device_Name :: "Device \<Rightarrow> string" where
  "Device_Name d = device_name (dev_config d)"

definition Device_Port :: "Device \<Rightarrow> 16 word" where
  "Device_Port d = device_port (dev_config d)"

definition Device_IsLoopback :: "Device \<Rightarrow> bool" where
  "Device_IsLoopback d \<longleftrightarrow> device_name (dev_config d) = ''loopback0''"

record Context =
  ctx_device :: Device

definition Context_new :: "Device option \<Rightarrow> Context" where
  "Context_new device =
     \<lparr>ctx_device = (case device of None \<Rightarrow> \<lparr>dev_config = DeviceConfig_default\<rparr> | Some d \<Rightarrow> d)\<rparr>"

definition MakeDefaultContext :: "DeviceConfig \<Rightarrow> Context" where
  "MakeDefaultContext config = Context_new (Some \<lparr>dev_config = config\<rparr>)"

record ProtectionDomain =
  pd_context :: Context

definition ProtectionDomain_new :: "Context option \<Rightarrow> ProtectionDomain" where
  "ProtectionDomain_new context =
     \<lparr>pd_context = (case context of None \<Rightarrow> MakeDefaultContext DeviceConfig_default | Some c \<Rightarrow> c)\<rparr>"

lemma default_handles_loopback:
  "Device_IsLoopback (ctx_device (Context_new None))"
  "Device_IsLoopback (ctx_device (pd_context (ProtectionDomain_new None)))"
  by (simp_all add: Context_new_def ProtectionDomain_new_def MakeDefaultContext_def
      Device_IsLoopback_def DeviceConfig_default_def)

end
