(* ===== verification/Rdma_Completion.thy ===== *)
theory Rdma_Completion
  imports Rdma_Config
begin

text \<open>
  Event channels (\<open>rdma/src/event_channel.cpp\<close>) and completion queues
  (\<open>rdma/src/completion_queue.cpp\<close>). A completion queue and the transport's inboxes have
  the same discipline: a FIFO that, when its capacity is reached, drops its oldest entry
  to make room. The locale \<open>drop_oldest_fifo\<close> states it and carries what follows from it;
  it is interpreted here on the completion queue and in the transport on the inboxes.
\<close>

section \<open>FIFO queues that drop their oldest entry\<close>

text \<open>\<open>n\<close> successive pops: the results, and the queue that is left.\<close>

fun drain :: "('q \<Rightarrow> 'a option \<times> 'q) \<Rightarrow> nat \<Rightarrow> 'q \<Rightarrow> 'a option list \<times> 'q" where
  "drain pop 0 q = ([], q)"
| "drain pop (Suc n) q = (let (x, q1) = pop q; (xs, q2) = drain pop n q1 in (x # xs, q2))"

text \<open>The last \<open>cap\<close> elements; all of them when \<open>cap\<close> is 0 (no limit).\<close>

definition keep_last :: "nat \<Rightarrow> 'a list \<Rightarrow> 'a list" where
  "keep_last cap xs = (if cap = 0 then xs else drop (length xs - cap) xs)"

definition fits :: "nat \<Rightarrow> nat \<Rightarrow> bool" where
  "fits cap n \<longleftrightarrow> cap = 0 \<or> n \<le> cap"

lemma keep_last_id [simp]: "fits cap (length xs) \<Longrightarrow> keep_last cap xs = xs"
  by (auto simp: keep_last_def fits_def)

lemma fits_keep_last [simp]: "fits cap (length (keep_last cap xs))"
  by (auto simp: keep_last_def fits_def)

lemma length_keep_last: "0 < cap \<Longrightarrow> length (keep_last cap xs) = min cap (length xs)"
  by (auto simp: keep_last_def)

lemma keep_last_snoc:
  assumes "fits cap (length xs)"
  shows "keep_last cap (xs @ [x]) =
         (if 0 < cap \<and> cap \<le> length xs then tl xs else xs) @ [x]"
  using assms by (auto simp: keep_last_def fits_def Suc_diff_le drop_Suc)

lemma keep_last_append: "keep_last cap (keep_last cap xs @ ys) = keep_last cap (xs @ ys)"
proof (cases "cap = 0 \<or> length xs \<le> cap")
  case False
  then show ?thesis by (auto simp: keep_last_def add.commute)
qed (auto simp: keep_last_def)

locale drop_oldest_fifo =
  fixes push :: "'a \<Rightarrow> 'q \<Rightarrow> 'q"
    and pop :: "'q \<Rightarrow> 'a option \<times> 'q"
    and items :: "'q \<Rightarrow> 'a list"
    and cap :: "'q \<Rightarrow> nat"
  assumes items_push: "items (push x q) =
      (if 0 < cap q \<and> cap q \<le> length (items q) then tl (items q) else items q) @ [x]"
    and cap_push: "cap (push x q) = cap q"
    and pop_Nil: "items q = [] \<Longrightarrow> fst (pop q) = None \<and> items (snd (pop q)) = []"
    and pop_Cons: "items q = x # xs \<Longrightarrow> fst (pop q) = Some x \<and> items (snd (pop q)) = xs"
    and cap_pop: "cap (snd (pop q)) = cap q"
begin

definition within :: "'q \<Rightarrow> bool" where
  "within q \<longleftrightarrow> fits (cap q) (length (items q))"

lemma push_keep_last: "within q \<Longrightarrow> items (push x q) = keep_last (cap q) (items q @ [x])"
  by (simp add: items_push keep_last_snoc within_def)

lemma within_push: "within q \<Longrightarrow> within (push x q)"
  by (simp add: within_def cap_push push_keep_last [unfolded within_def])

lemma within_pop: "within q \<Longrightarrow> within (snd (pop q))"
  using pop_Nil [of q] pop_Cons [of q] cap_pop [of q]
  by (cases "items q") (auto simp: within_def fits_def)

text \<open>Pushing a burst leaves the most recent entries, in order.\<close>

lemma push_all:
  "within q \<Longrightarrow> items (fold push xs q) = keep_last (cap q) (items q @ xs) \<and>
     cap (fold push xs q) = cap q \<and> within (fold push xs q)"
proof (induction xs arbitrary: q)
  case (Cons x xs)
  show ?case
    using Cons.IH [OF within_push [OF Cons.prems]] push_keep_last [OF Cons.prems, of x]
    by (simp add: cap_push keep_last_append)
qed (simp add: within_def)

lemma drain_items:
  "fst (drain pop n q) = map Some (take n (items q)) @ replicate (n - length (items q)) None \<and>
   items (snd (drain pop n q)) = drop n (items q) \<and> cap (snd (drain pop n q)) = cap q"
proof (induction n arbitrary: q)
  case (Suc n)
  show ?case
  proof (cases "items q")
    case Nil
    then show ?thesis using pop_Nil [OF Nil] Suc.IH [of "snd (pop q)"] cap_pop [of q]
      by (simp add: case_prod_beta)
  next
    case (Cons x xs)
    then show ?thesis using pop_Cons [OF Cons] Suc.IH [of "snd (pop q)"] cap_pop [of q]
      by (simp add: case_prod_beta)
  qed
qed simp

text \<open>A burst onto an empty queue, then as many pops: first in, first out, and what is
  missing is exactly the oldest excess.\<close>

lemma burst_then_drain:
  assumes "items q = []"
  shows "fst (drain pop (length xs) (fold push xs q)) =
         map Some (keep_last (cap q) xs) @ replicate (length xs - length (keep_last (cap q) xs)) None"
proof -
  have "within q" using assms by (simp add: within_def fits_def)
  then have "items (fold push xs q) = keep_last (cap q) xs"
    using push_all [of q xs] assms by simp
  moreover have "length (keep_last (cap q) xs) \<le> length xs"
    by (simp add: keep_last_def)
  ultimately show ?thesis using drain_items [of "length xs" "fold push xs q"] by simp
qed

end

section \<open>Event channels\<close>

record EventChannel =
  signaled :: bool

text \<open>The channels live at addresses; \<open>evcs\<close> is their state.\<close>

record evc_world = machine +
  evcs :: "nat \<Rightarrow> EventChannel"

definition EventChannel_Notify :: "EventChannel \<Rightarrow> EventChannel" where
  "EventChannel_Notify c = c\<lparr>signaled := True\<rparr>"

definition EventChannel_Wait ::
    "(EventChannel \<Rightarrow> EventChannel) list \<Rightarrow> EventChannel \<Rightarrow> bool \<times> EventChannel" where
  "EventChannel_Wait others c =
     (case cv_wait_for signaled others c of (ok, c') \<Rightarrow>
        if \<not> ok then (False, c') else (True, c'\<lparr>signaled := False\<rparr>))"

definition EventChannel_Reset :: "EventChannel \<Rightarrow> EventChannel" where
  "EventChannel_Reset c = c\<lparr>signaled := False\<rparr>"

text \<open>The channel is an auto-reset event: a wait succeeds exactly when a notification is
  pending when it returns, consumes it, and always leaves the channel unsignaled.\<close>

lemma EventChannel_Wait_resets:
  "EventChannel_Wait others c = (ok, c') \<Longrightarrow> \<not> signaled c'"
  by (auto simp: EventChannel_Wait_def dest: cv_wait_for_pred split: prod.splits if_splits)

lemma EventChannel_Notify_Wait:
  "EventChannel_Wait others (EventChannel_Notify c) = (True, EventChannel_Reset (EventChannel_Notify c))"
  by (simp add: EventChannel_Wait_def EventChannel_Notify_def EventChannel_Reset_def)

section \<open>Completion queues\<close>

record CompletionEvent =
  ce_work_request_id :: WorkRequestId
  ce_status :: CompletionStatus
  ce_operation :: OperationType
  ce_source :: string
  ce_destination :: string
  ce_detail :: string
  ce_completed_at :: nat
  ce_bytes :: nat

record CompletionQueue =
  cq_config :: CompletionQueueConfig
  cq_queue :: "CompletionEvent list"
  cq_channels :: "nat option list"

definition CompletionQueue_new :: "CompletionQueueConfig \<Rightarrow> CompletionQueue" where
  "CompletionQueue_new config = \<lparr>cq_config = config, cq_queue = [], cq_channels = []\<rparr>"

text \<open>\<open>Bind(EventChannel& channel)\<close> stores the channel's address once.\<close>

definition CompletionQueue_Bind :: "nat \<Rightarrow> CompletionQueue \<Rightarrow> CompletionQueue" where
  "CompletionQueue_Bind channel q =
     (if Some channel \<notin> set (cq_channels q)
      then q\<lparr>cq_channels := cq_channels q @ [Some channel]\<rparr> else q)"

text \<open>The block of \<open>Push\<close> that holds the lock.\<close>

definition CompletionQueue_locked_push :: "CompletionEvent \<Rightarrow> CompletionQueue \<Rightarrow> CompletionQueue" where
  "CompletionQueue_locked_push event q =
     (let q1 = (if depth (cq_config q) > 0 \<and> length (cq_queue q) \<ge> depth (cq_config q)
                then q\<lparr>cq_queue := tl (cq_queue q)\<rparr> else q)
      in q1\<lparr>cq_queue := cq_queue q1 @ [event]\<rparr>)"

fun notify_channels :: "nat option list \<Rightarrow> 'w evc_world_scheme \<Rightarrow> 'w evc_world_scheme" where
  "notify_channels [] w = w"
| "notify_channels (None # chs) w = notify_channels chs w"
| "notify_channels (Some c # chs) w =
     notify_channels chs (w\<lparr>evcs := (evcs w)(c := EventChannel_Notify (evcs w c))\<rparr>)"

definition CompletionQueue_Push ::
    "CompletionEvent \<Rightarrow> CompletionQueue \<Rightarrow> 'w evc_world_scheme \<Rightarrow> CompletionQueue \<times> 'w evc_world_scheme" where
  "CompletionQueue_Push event q w =
     (let q' = CompletionQueue_locked_push event q in (q', notify_channels (cq_channels q') w))"

text \<open>\<open>Poll(timeout)\<close>: the first argument is what other threads do to the queue while the
  caller waits for its deadline.\<close>

definition CompletionQueue_Poll ::
    "(CompletionQueue \<Rightarrow> CompletionQueue) list \<Rightarrow> CompletionQueue \<Rightarrow> CompletionEvent option \<times> CompletionQueue" where
  "CompletionQueue_Poll others q =
     (case cv_wait_for (\<lambda>q. cq_queue q \<noteq> []) others q of (ok, q') \<Rightarrow>
        if \<not> ok then (None, q')
        else (Some (hd (cq_queue q')), q'\<lparr>cq_queue := tl (cq_queue q')\<rparr>))"

definition CompletionQueue_Depth :: "CompletionQueue \<Rightarrow> nat" where
  "CompletionQueue_Depth q = length (cq_queue q)"

definition CompletionQueue_Capacity :: "CompletionQueue \<Rightarrow> nat" where
  "CompletionQueue_Capacity q = depth (cq_config q)"

interpretation cq_fifo: drop_oldest_fifo CompletionQueue_locked_push "CompletionQueue_Poll []"
  cq_queue CompletionQueue_Capacity
  by unfold_locales
    (auto simp: CompletionQueue_locked_push_def CompletionQueue_Poll_def CompletionQueue_Capacity_def
      Let_def)

lemma locked_push_channels [simp]: "cq_channels (CompletionQueue_locked_push e q) = cq_channels q"
  by (simp add: CompletionQueue_locked_push_def Let_def)

lemma notify_channels_frame [simp]:
  "cells (notify_channels chs w) = cells w" "next_cell (notify_channels chs w) = next_cell w"
  "clock (notify_channels chs w) = clock w" "args_ltr (notify_channels chs w) = args_ltr w"
  "evc_world.more (notify_channels chs w) = evc_world.more w"
  by (induction chs w rule: notify_channels.induct) auto

lemma notify_channels_signaled:
  "signaled (evcs (notify_channels chs w) c) \<longleftrightarrow> signaled (evcs w c) \<or> Some c \<in> set chs"
  by (induction chs w rule: notify_channels.induct) (auto simp: EventChannel_Notify_def)

lemma Push_simps [simp]:
  "fst (CompletionQueue_Push e q w) = CompletionQueue_locked_push e q"
  "cells (snd (CompletionQueue_Push e q w)) = cells w"
  "next_cell (snd (CompletionQueue_Push e q w)) = next_cell w"
  "clock (snd (CompletionQueue_Push e q w)) = clock w"
  "args_ltr (snd (CompletionQueue_Push e q w)) = args_ltr w"
  "evc_world.more (snd (CompletionQueue_Push e q w)) = evc_world.more w"
  by (simp_all add: CompletionQueue_Push_def Let_def)

text \<open>While a caller waits, other threads run the queue's own operations. It returns an
  event exactly when the queue is not empty at the moment it is woken for the last time.\<close>

lemma Poll_nothing_iff:
  "fst (CompletionQueue_Poll others q) = None \<longleftrightarrow>
   cq_queue (snd (cv_wait_for (\<lambda>q. cq_queue q \<noteq> []) others q)) = []"
  by (auto simp: CompletionQueue_Poll_def dest: cv_wait_for_pred split: prod.splits)

lemma Poll_woken:
  assumes "cq_queue q = []" "cq_queue (other q) = e # es"
  shows "CompletionQueue_Poll (other # others) q = (Some e, (other q)\<lparr>cq_queue := es\<rparr>)"
  using assms by (simp add: CompletionQueue_Poll_def)

section \<open>Properties\<close>

text \<open>
  A completion queue is a FIFO of bounded depth: after any burst of \<open>Push\<close> calls on an empty
  queue, polling returns the events in the order they were pushed; when the burst is
  longer than the depth it is exactly the oldest excess that is missing (depth 0 is
  unbounded), and the queue never holds more than its depth.
\<close>

theorem completion_queue_drop_oldest_fifo:
  assumes "cq_queue q = []" "fold (\<lambda>e (q, w). CompletionQueue_Push e q w) es (q, w) = (q', w')"
  shows "fst (drain (CompletionQueue_Poll []) (length es) q') =
      map Some (keep_last (CompletionQueue_Capacity q) es) @
      replicate (length es - length (keep_last (CompletionQueue_Capacity q) es)) None \<and>
    (0 < CompletionQueue_Capacity q \<longrightarrow> CompletionQueue_Depth q' \<le> CompletionQueue_Capacity q)"
proof -
  have "fst (fold (\<lambda>e (q, w). CompletionQueue_Push e q w) es (q, w)) = fold CompletionQueue_locked_push es q" for w
    by (induction es arbitrary: q w) (simp_all add: CompletionQueue_Push_def Let_def)
  then have q': "q' = fold CompletionQueue_locked_push es q" using assms(2) by (metis fst_conv)
  have "cq_fifo.within q" using assms(1) by (simp add: cq_fifo.within_def fits_def)
  then have "cq_queue q' = keep_last (CompletionQueue_Capacity q) es"
    using cq_fifo.push_all [of q es] assms(1) by (simp add: q')
  then have "0 < CompletionQueue_Capacity q \<longrightarrow> CompletionQueue_Depth q' \<le> CompletionQueue_Capacity q"
    by (simp add: CompletionQueue_Depth_def length_keep_last)
  then show ?thesis using cq_fifo.burst_then_drain [OF assms(1), of es] by (simp add: q')
qed

definition sample_event :: "WorkRequestId \<Rightarrow> CompletionEvent" where
  "sample_event i = \<lparr>ce_work_request_id = i, ce_status = CS_kSuccess, ce_operation = kSend, ce_source = ''a'',
     ce_destination = ''b'', ce_detail = '''', ce_completed_at = 0, ce_bytes = 4\<rparr>"

definition quiet_world :: evc_world where
  "quiet_world = \<lparr>cells = \<lambda>_. [], next_cell = 0, clock = 0, args_ltr = True, evcs = \<lambda>_. \<lparr>signaled = False\<rparr>\<rparr>"

theorem completion_queue_drop_oldest_fifo_witness:
  "\<exists>q'. fst (fold (\<lambda>e (q, w). CompletionQueue_Push e q w) [sample_event 1, sample_event 2, sample_event 3]
          (CompletionQueue_new \<lparr>depth = 2\<rparr>, quiet_world)) = q' \<and>
     fst (drain (CompletionQueue_Poll []) 3 q') = [Some (sample_event 2), Some (sample_event 3), None]"
proof -
  let ?es = "[sample_event 1, sample_event 2, sample_event 3]"
  obtain q' w' where run: "fold (\<lambda>e (q, w). CompletionQueue_Push e q w) ?es
      (CompletionQueue_new \<lparr>depth = 2\<rparr>, quiet_world) = (q', w')" by (metis surj_pair)
  show ?thesis
    using completion_queue_drop_oldest_fifo [OF _ run] run
    by (simp add: CompletionQueue_new_def CompletionQueue_Capacity_def keep_last_def numeral_3_eq_3 del: fold.simps)
qed

text \<open>
  \<open>Push\<close> signals exactly the channels bound to the queue and touches no other; so a wait on
  a bound channel after a push returns true at once and the event is in the queue.
\<close>

theorem push_signals_bound_channels:
  "(signaled (evcs (snd (CompletionQueue_Push e q w)) c) \<longleftrightarrow> signaled (evcs w c) \<or> Some c \<in> set (cq_channels q)) \<and>
   fst (EventChannel_Wait others (evcs (snd (CompletionQueue_Push e (CompletionQueue_Bind c q) w)) c)) \<and>
   last (cq_queue (fst (CompletionQueue_Push e (CompletionQueue_Bind c q) w))) = e"
proof -
  have "Some c \<in> set (cq_channels (CompletionQueue_Bind c q))" by (simp add: CompletionQueue_Bind_def)
  then have "signaled (evcs (snd (CompletionQueue_Push e (CompletionQueue_Bind c q) w)) c)"
    by (simp add: CompletionQueue_Push_def Let_def notify_channels_signaled)
  then show ?thesis
    by (simp add: CompletionQueue_Push_def Let_def notify_channels_signaled EventChannel_Wait_def
        CompletionQueue_locked_push_def)
qed

text \<open>
  No wake-up is lost: a \<open>Poll\<close> that blocks on an empty queue and is overtaken by a push of
  another thread before its deadline returns that event and leaves the queue empty.
\<close>

theorem blocked_poll_gets_pushed_event:
  assumes "cq_queue q = []"
  shows "CompletionQueue_Poll (CompletionQueue_locked_push e # others) q = (Some e, q)"
proof -
  have "cq_queue (CompletionQueue_locked_push e q) = [e]"
    "(CompletionQueue_locked_push e q)\<lparr>cq_queue := []\<rparr> = q"
    using assms by (simp_all add: CompletionQueue_locked_push_def Let_def)
  then show ?thesis using Poll_woken [OF assms, of "CompletionQueue_locked_push e" e "[]"] by simp
qed

theorem blocked_poll_gets_pushed_event_witness:
  "CompletionQueue_Poll [CompletionQueue_locked_push (sample_event 5)] (CompletionQueue_new \<lparr>depth = 2\<rparr>) =
     (Some (sample_event 5), CompletionQueue_new \<lparr>depth = 2\<rparr>)"
  by (rule blocked_poll_gets_pushed_event) (simp add: CompletionQueue_new_def)

end
