(* ===== verification/Rdma_Memory.thy ===== *)
theory Rdma_Memory
  imports Rdma_Config
begin

text \<open>
  Registered memory (\<open>rdma/src/memory_region.cpp\<close>). Region storage is a pointer into the machine's heap, so
  that sharing a region's buffer is sharing, not copying. Counters keep their C++ width:
  region numbers are 64-bit, access keys 32-bit.
\<close>

datatype rdma_error = RuntimeError string

section \<open>Memory regions and their registry\<close>

record MemoryRegion =
  mr_key :: string
  mr_local_key :: "32 word"
  mr_remote_key :: "32 word"
  mr_storage :: ByteBufferPtr

definition MemoryRegion_size :: "MemoryRegion \<Rightarrow> 'w machine_scheme \<Rightarrow> nat" where
  "MemoryRegion_size g m = buf_size (mr_storage g) m"

record MemoryRegistry =
  next_region_id :: "64 word"
  next_access_key :: "32 word"
  regions :: "string \<rightharpoonup> MemoryRegion"

definition MemoryRegistry_new :: MemoryRegistry where
  "MemoryRegistry_new = \<lparr>next_region_id = 0, next_access_key = 1024, regions = Map.empty\<rparr>"

definition NextKey :: "MemoryRegistry \<Rightarrow> string \<times> MemoryRegistry" where
  "NextKey r =
     (let r' = r\<lparr>next_region_id := next_region_id r + 1\<rparr>
      in (''mr-'' @ to_string (unat (next_region_id r')), r'))"

definition NextAccessKey :: "MemoryRegistry \<Rightarrow> 32 word \<times> MemoryRegistry" where
  "NextAccessKey r = (next_access_key r, r\<lparr>next_access_key := next_access_key r + 1\<rparr>)"

text \<open>
  \<open>Register(ByteBuffer&&)\<close>. The two calls of \<open>NextAccessKey()\<close> are arguments of one
  constructor call, so which of them feeds \<open>local_key\<close> is the implementation's choice.
\<close>

definition MemoryRegistry_Register ::
    "ByteBuffer \<Rightarrow> MemoryRegistry \<Rightarrow> 'w machine_scheme
       \<Rightarrow> MemoryRegion \<times> MemoryRegistry \<times> 'w machine_scheme" where
  "MemoryRegistry_Register bytes r m =
     (let (key, r1) = NextKey r;
          (storage, m1) = make_shared bytes m;
          (first_key, r2) = NextAccessKey r1;
          (second_key, r3) = NextAccessKey r2;
          region = \<lparr>mr_key = key,
                    mr_local_key = (if args_ltr m then first_key else second_key),
                    mr_remote_key = (if args_ltr m then second_key else first_key),
                    mr_storage = storage\<rparr>
      in (region, r3\<lparr>regions := emplace key region (regions r3)\<rparr>, m1))"

text \<open>\<open>Register(std::size_t)\<close>: a zero-filled buffer of that size.\<close>

definition MemoryRegistry_RegisterSize ::
    "nat \<Rightarrow> MemoryRegistry \<Rightarrow> 'w machine_scheme
       \<Rightarrow> MemoryRegion \<times> MemoryRegistry \<times> 'w machine_scheme" where
  "MemoryRegistry_RegisterSize bytes = MemoryRegistry_Register (replicate bytes 0)"

definition MemoryRegistry_Lookup :: "string \<Rightarrow> MemoryRegistry \<Rightarrow> rdma_error + MemoryRegion" where
  "MemoryRegistry_Lookup key r =
     (case regions r key of
        None \<Rightarrow> Inl (RuntimeError (''memory region not found: '' @ key))
      | Some g \<Rightarrow> Inr g)"

definition MemoryRegistry_Release :: "string \<Rightarrow> MemoryRegistry \<Rightarrow> MemoryRegistry" where
  "MemoryRegistry_Release key r = r\<lparr>regions := (regions r)(key := None)\<rparr>"

definition MemoryRegistry_Size :: "MemoryRegistry \<Rightarrow> nat" where
  "MemoryRegistry_Size r = card (dom (regions r))"

subsection \<open>The registry's invariant\<close>

definition region_key :: "nat \<Rightarrow> string" where
  "region_key i = ''mr-'' @ to_string i"

lemma region_key_inject [simp]: "region_key i = region_key j \<longleftrightarrow> i = j"
  by (simp add: region_key_def)

text \<open>The \<open>i\<close>-th registered region (counted from 1): its number gives its keys.\<close>

definition is_region :: "nat \<Rightarrow> MemoryRegion \<Rightarrow> 'w machine_scheme \<Rightarrow> bool" where
  "is_region i g m \<longleftrightarrow>
     mr_key g = region_key i \<and>
     (mr_local_key g, mr_remote_key g) =
       (if args_ltr m then (word_of_nat (1022 + 2 * i), word_of_nat (1023 + 2 * i))
        else (word_of_nat (1023 + 2 * i), word_of_nat (1022 + 2 * i))) \<and>
     (\<exists>a < next_cell m. mr_storage g = Some a)"

text \<open>After \<open>n\<close> registrations.\<close>

definition registry_ok :: "nat \<Rightarrow> MemoryRegistry \<Rightarrow> 'w machine_scheme \<Rightarrow> bool" where
  "registry_ok n r m \<longleftrightarrow>
     next_region_id r = word_of_nat n \<and> next_access_key r = word_of_nat (1024 + 2 * n) \<and>
     finite (dom (regions r)) \<and>
     (\<forall>k g. regions r k = Some g \<longrightarrow> (\<exists>i. 0 < i \<and> i \<le> n \<and> k = region_key i \<and> is_region i g m)) \<and>
     (\<forall>k k' g g'. regions r k = Some g \<longrightarrow> regions r k' = Some g' \<longrightarrow>
        mr_storage g = mr_storage g' \<longrightarrow> k = k')"

lemma registry_ok_new: "registry_ok 0 MemoryRegistry_new m"
  by (simp add: registry_ok_def MemoryRegistry_new_def)

lemma registry_ok_region:
  assumes "registry_ok n r m" "regions r k = Some g"
  obtains i a where "0 < i" "i \<le> n" "k = region_key i" "is_region i g m"
    "mr_key g = k" "mr_storage g = Some a" "a < next_cell m"
proof -
  obtain i where i: "0 < i" "i \<le> n" "k = region_key i" "is_region i g m"
    using assms by (auto simp: registry_ok_def)
  moreover obtain a where "mr_storage g = Some a" "a < next_cell m" "mr_key g = k"
    using i(3,4) by (auto simp: is_region_def)
  ultimately show thesis using that by blast
qed

lemma registry_storage_inj:
  "registry_ok n r m \<Longrightarrow> regions r k = Some g \<Longrightarrow> regions r k' = Some g' \<Longrightarrow>
   mr_storage g = mr_storage g' \<Longrightarrow> k = k'"
  unfolding registry_ok_def by blast

lemma Register_simps:
  fixes r m b
  defines "k \<equiv> ''mr-'' @ to_string (unat (next_region_id r + 1))"
  shows
    "mr_key (fst (MemoryRegistry_Register b r m)) = k"
    "mr_storage (fst (MemoryRegistry_Register b r m)) = Some (next_cell m)"
    "snd (snd (MemoryRegistry_Register b r m)) = snd (make_shared b m)"
    "next_region_id (fst (snd (MemoryRegistry_Register b r m))) = next_region_id r + 1"
    "next_access_key (fst (snd (MemoryRegistry_Register b r m))) = next_access_key r + 2"
    "regions (fst (snd (MemoryRegistry_Register b r m))) =
       emplace k (fst (MemoryRegistry_Register b r m)) (regions r)"
    "mr_local_key (fst (MemoryRegistry_Register b r m)) =
       (if args_ltr m then next_access_key r else next_access_key r + 1)"
    "mr_remote_key (fst (MemoryRegistry_Register b r m)) =
       (if args_ltr m then next_access_key r + 1 else next_access_key r)"
  by (simp_all add: MemoryRegistry_Register_def k_def NextKey_def NextAccessKey_def Let_def
      make_shared_def)

lemma unat_region_id:
  assumes "Suc n < 2 ^ 64"
  shows "unat (word_of_nat n + 1 :: 64 word) = Suc n"
proof -
  have "word_of_nat n + 1 = (word_of_nat (Suc n) :: 64 word)" by simp
  then show ?thesis using assms by (simp only: unat_of_nat take_bit_nat_eq_self) simp
qed

lemma Register_key:
  assumes "registry_ok n r m" "Suc n < 2 ^ 64"
  shows "mr_key (fst (MemoryRegistry_Register b r m)) = region_key (Suc n)"
  using assms unat_region_id [OF assms(2)]
  by (simp add: Register_simps registry_ok_def region_key_def)

lemma registry_fresh: "registry_ok n r m \<Longrightarrow> regions r (region_key (Suc n)) = None"
  by (cases "regions r (region_key (Suc n))") (auto elim: registry_ok_region)

lemma Register_regions:
  assumes "registry_ok n r m" "Suc n < 2 ^ 64"
  shows "regions (fst (snd (MemoryRegistry_Register b r m))) =
         (regions r)(region_key (Suc n) \<mapsto> fst (MemoryRegistry_Register b r m))"
proof -
  have "regions (fst (snd (MemoryRegistry_Register b r m))) =
        emplace (region_key (Suc n)) (fst (MemoryRegistry_Register b r m)) (regions r)"
    using Register_key [OF assms, of b] by (simp add: Register_simps(1,6))
  then show ?thesis by (simp add: emplace_fresh registry_fresh [OF assms(1)])
qed

lemma Register_is_region:
  assumes "registry_ok n r m" "Suc n < 2 ^ 64"
  shows "is_region (Suc n) (fst (MemoryRegistry_Register b r m)) (snd (make_shared b m))"
proof -
  have "next_access_key r = word_of_nat (1024 + 2 * n)" using assms by (simp add: registry_ok_def)
  then show ?thesis
    using Register_key [OF assms, of b]
    by (simp add: is_region_def Register_simps(2,7,8) make_shared_simps algebra_simps)
qed

lemma is_region_mono:
  "is_region i g m \<Longrightarrow> args_ltr m' = args_ltr m \<Longrightarrow> next_cell m \<le> next_cell m' \<Longrightarrow> is_region i g m'"
  by (auto simp: is_region_def)

lemma registry_ok_machine:
  "registry_ok n r m \<Longrightarrow> args_ltr m' = args_ltr m \<Longrightarrow> next_cell m \<le> next_cell m' \<Longrightarrow>
   registry_ok n r m'"
  unfolding registry_ok_def by (meson is_region_mono)

lemma Register_ok:
  assumes "registry_ok n r m" "Suc n < 2 ^ 64" "MemoryRegistry_Register b r m = (g, r', m')"
  shows "registry_ok (Suc n) r' m'"
proof -
  have r': "r' = fst (snd (MemoryRegistry_Register b r m))" and m': "m' = snd (make_shared b m)"
    and g: "g = fst (MemoryRegistry_Register b r m)"
    using assms(3) Register_simps(3) [of b r m] by simp_all
  have reg: "regions r' = (regions r)(region_key (Suc n) \<mapsto> g)"
    using Register_regions [OF assms(1,2), of b] by (simp add: r' g)
  have new: "is_region (Suc n) g m'" "mr_storage g = Some (next_cell m)"
    using Register_is_region [OF assms(1,2), of b] by (simp_all add: g m' Register_simps(2))
  have old: "\<exists>i. 0 < i \<and> i \<le> Suc n \<and> k = region_key i \<and> is_region i h m'"
    "mr_storage h \<noteq> Some (next_cell m)" if rk: "regions r k = Some h" for k h
  proof -
    obtain i a where *: "0 < i" "i \<le> n" "k = region_key i" "is_region i h m"
      "mr_storage h = Some a" "a < next_cell m"
      using registry_ok_region [OF assms(1) rk] by metis
    have "is_region i h m'"
      by (rule is_region_mono [OF *(4)]) (simp_all add: m' make_shared_simps)
    then show "\<exists>i. 0 < i \<and> i \<le> Suc n \<and> k = region_key i \<and> is_region i h m'"
      using *(1-3) le_SucI by blast
    show "mr_storage h \<noteq> Some (next_cell m)" using *(5,6) by simp
  qed
  have regs: "\<exists>i. 0 < i \<and> i \<le> Suc n \<and> k = region_key i \<and> is_region i h m'"
    if "regions r' k = Some h" for k h
    using that new(1) old(1) [of k h] by (cases "k = region_key (Suc n)") (auto simp: reg)
  have inj: "k = k'" if "regions r' k = Some h" "regions r' k' = Some h'" "mr_storage h = mr_storage h'"
    for k k' h h'
  proof -
    have inj_r: "regions r k = Some h \<Longrightarrow> regions r k' = Some h' \<Longrightarrow> k = k'"
      using assms(1) that(3) unfolding registry_ok_def by blast
    show ?thesis
      using that new(2) old(2) [of k h] old(2) [of k' h'] inj_r
      by (cases "k = region_key (Suc n)"; cases "k' = region_key (Suc n)") (auto simp: reg)
  qed
  have "next_region_id r' = word_of_nat (Suc n)" "next_access_key r' = word_of_nat (1024 + 2 * Suc n)"
    using assms(1) by (simp_all add: r' Register_simps registry_ok_def)
  moreover have "finite (dom (regions r'))"
    using assms(1) by (simp add: reg registry_ok_def)
  ultimately show ?thesis
    unfolding registry_ok_def using regs inj by blast
qed

lemma Release_ok: "registry_ok n r m \<Longrightarrow> registry_ok n (MemoryRegistry_Release k r) m"
  unfolding registry_ok_def MemoryRegistry_Release_def
  by (auto simp: fun_upd_def intro: finite_subset [of _ "dom (regions r)"] split: if_splits)

lemma Register_Lookup:
  assumes "registry_ok n r m" "Suc n < 2 ^ 64" "MemoryRegistry_Register b r m = (g, r', m')"
  shows "MemoryRegistry_Lookup (mr_key g) r' = Inr g"
    and "k \<noteq> mr_key g \<Longrightarrow> MemoryRegistry_Lookup k r' = MemoryRegistry_Lookup k r"
  using Register_regions [OF assms(1,2), of b] Register_key [OF assms(1,2), of b] assms(3)
  by (simp_all add: MemoryRegistry_Lookup_def)

lemma Register_Size:
  assumes "registry_ok n r m" "Suc n < 2 ^ 64" "MemoryRegistry_Register b r m = (g, r', m')"
  shows "MemoryRegistry_Size r' = Suc (MemoryRegistry_Size r)"
  using Register_regions [OF assms(1,2), of b] assms(1,3) registry_fresh [OF assms(1)]
  by (auto simp: MemoryRegistry_Size_def registry_ok_def domIff)

subsection \<open>Sequences of registry calls\<close>

datatype RegistryOp = OpRegister ByteBuffer | OpRelease string

fun registry_run ::
    "RegistryOp list \<Rightarrow> MemoryRegistry \<Rightarrow> 'w machine_scheme
       \<Rightarrow> MemoryRegion list \<times> MemoryRegistry \<times> 'w machine_scheme" where
  "registry_run [] r m = ([], r, m)"
| "registry_run (OpRelease k # ops) r m = registry_run ops (MemoryRegistry_Release k r) m"
| "registry_run (OpRegister b # ops) r m =
     (let (g, r1, m1) = MemoryRegistry_Register b r m;
          (gs, r2, m2) = registry_run ops r1 m1
      in (g # gs, r2, m2))"

fun registrations :: "RegistryOp list \<Rightarrow> nat" where
  "registrations [] = 0"
| "registrations (OpRelease k # ops) = registrations ops"
| "registrations (OpRegister b # ops) = Suc (registrations ops)"

text \<open>The regions a run returns are the next ones by number, whatever is released between.\<close>

lemma registry_run_regions:
  assumes "registry_ok n r m" "n + registrations ops < 2 ^ 64"
    "registry_run ops r m = (gs, r', m')"
  shows "registry_ok (n + registrations ops) r' m' \<and> args_ltr m' = args_ltr m \<and>
         next_cell m \<le> next_cell m' \<and>
         list_all2 (\<lambda>i g. is_region i g m') [Suc n ..< Suc n + registrations ops] gs"
  using assms
proof (induction ops r m arbitrary: n gs rule: registry_run.induct)
  case (2 k ops r m)
  show ?case
    using "2.IH" [OF Release_ok [OF "2.prems"(1)]] "2.prems"(2,3)
    by (simp only: registrations.simps registry_run.simps)
next
  case (3 b ops r m)
  obtain g r1 m1 where reg: "MemoryRegistry_Register b r m = (g, r1, m1)" by (metis prod_cases3)
  obtain hs where gs: "gs = g # hs" "registry_run ops r1 m1 = (hs, r', m')"
    using "3.prems"(3) by (auto simp: reg split: prod.splits)
  have lt: "Suc n < 2 ^ 64" using "3.prems"(2) by simp
  have m1: "m1 = snd (make_shared b m)" using Register_simps(3) [of b r m] reg by simp
  have IH: "registry_ok (Suc n + registrations ops) r' m' \<and> args_ltr m' = args_ltr m1 \<and>
      next_cell m1 \<le> next_cell m' \<and>
      list_all2 (\<lambda>i g. is_region i g m') [Suc (Suc n) ..< Suc (Suc n) + registrations ops] hs"
    using "3.IH" [OF reg [symmetric] refl refl Register_ok [OF "3.prems"(1) lt reg]] "3.prems"(2) gs(2)
    by simp
  have "is_region (Suc n) g m'"
    using Register_is_region [OF "3.prems"(1) lt, of b] IH reg is_region_mono [of "Suc n" g m1 m']
    by (simp add: m1)
  moreover have "[Suc n ..< Suc n + registrations (OpRegister b # ops)] =
      Suc n # [Suc (Suc n) ..< Suc (Suc n) + registrations ops]"
    by (simp add: upt_rec)
  ultimately show ?case
    using IH by (simp add: gs(1) m1 make_shared_simps)
qed simp

lemma word_of_nat_neq:
  assumes "a < b" "b < a + 2 ^ 32"
  shows "(word_of_nat a :: 32 word) \<noteq> word_of_nat b"
proof
  assume "(word_of_nat a :: 32 word) = word_of_nat b"
  then have "a mod 2 ^ 32 = b mod 2 ^ 32"
    by (simp add: word_of_nat_eq_iff take_bit_eq_mod)
  then have "(2 ^ 32 :: nat) dvd b - a"
    using assms(1) by (metis less_imp_le mod_eq_dvd_iff_nat)
  then show False
    using assms by (auto dest!: dvd_imp_le)
qed

definition access_keys :: "MemoryRegion \<Rightarrow> (32 word) list" where
  "access_keys g = [mr_local_key g, mr_remote_key g]"

lemma is_region_access_keys:
  "is_region i g m \<Longrightarrow> set (access_keys g) = {word_of_nat (1022 + 2 * i), word_of_nat (1023 + 2 * i)}"
  by (auto simp: is_region_def access_keys_def split: if_splits)

lemma access_keys_distinct:
  assumes "list_all2 (\<lambda>i g. is_region i g m) [s ..< s + c] gs" "c \<le> 2 ^ 31"
  shows "distinct (concat (map access_keys gs))"
  using assms
proof (induction c arbitrary: gs)
  case (Suc c)
  obtain hs g where gs: "gs = hs @ [g]" "list_all2 (\<lambda>i g. is_region i g m) [s ..< s + c] hs"
    "is_region (s + c) g m"
    using Suc.prems(1) by (auto simp: list_all2_append1 list_all2_Cons1)
  have old: "\<exists>i. s \<le> i \<and> i < s + c \<and> is_region i h m" if hs: "h \<in> set hs" for h
  proof -
    obtain j where "j < length hs" "h = hs ! j" using hs by (auto simp: in_set_conv_nth)
    then show ?thesis
      using gs(2) by (intro exI [of _ "s + j"]) (auto simp: list_all2_conv_all_nth)
  qed
  have new: "set (access_keys g) = {word_of_nat (1022 + 2 * (s + c)), word_of_nat (1023 + 2 * (s + c))}"
    by (rule is_region_access_keys [OF gs(3)])
  have apart: "set (access_keys h) \<inter> set (access_keys g) = {}" if h: "h \<in> set hs" for h
  proof -
    obtain i where i: "s \<le> i" "i < s + c" "is_region i h m" using old [OF h] by blast
    have "(word_of_nat a :: 32 word) \<noteq> word_of_nat b"
      if "a = 1022 + 2 * i \<or> a = 1023 + 2 * i" "b = 1022 + 2 * (s + c) \<or> b = 1023 + 2 * (s + c)"
      for a b using that i(1,2) Suc.prems(2) by (intro word_of_nat_neq) auto
    then show ?thesis unfolding is_region_access_keys [OF i(3)] new by blast
  qed
  have "(word_of_nat (1022 + 2 * (s + c)) :: 32 word) \<noteq> word_of_nat (1023 + 2 * (s + c))"
    by (rule word_of_nat_neq) auto
  then have "distinct (access_keys g)"
    using gs(3) by (auto simp: is_region_def access_keys_def split: if_splits)
  moreover have "distinct (concat (map access_keys hs))"
    using Suc.IH [OF gs(2)] Suc.prems(2) by simp
  ultimately show ?case using apart by (auto simp: gs(1))
qed simp

subsection \<open>Properties\<close>

text \<open>
  Whatever regions are registered and released, in any order, the keys handed out are
  \<open>mr-1\<close>, \<open>mr-2\<close>, ... in order, none twice (a released key is never reused), and the access keys
  of the first \<open>2 ^ 31\<close> registrations are pairwise different.
\<close>

theorem registry_keys_unique:
  assumes "registrations ops < 2 ^ 64" "registry_run ops MemoryRegistry_new m = (gs, r, m')"
  shows "map mr_key gs = map region_key [1 ..< Suc (registrations ops)] \<and> distinct (map mr_key gs) \<and>
    (registrations ops \<le> 2 ^ 31 \<longrightarrow> distinct (concat (map access_keys gs)))"
proof -
  have reg: "list_all2 (\<lambda>i g. is_region i g m') [1 ..< 1 + registrations ops] gs"
    using registry_run_regions [OF registry_ok_new _ assms(2)] assms(1) by simp
  then have "map mr_key gs = map region_key [1 ..< Suc (registrations ops)]"
    by (intro nth_equalityI) (auto simp: list_all2_conv_all_nth is_region_def simp del: upt_Suc)
  moreover have "distinct (map region_key [1 ..< Suc (registrations ops)])"
    by (simp add: distinct_map inj_on_def)
  ultimately show ?thesis using access_keys_distinct [OF reg] by simp
qed

theorem registry_keys_unique_witness:
  "\<exists>gs r m'. registry_run [OpRegister [1], OpRelease ''mr-1'', OpRegister [2, 3]] MemoryRegistry_new empty_machine
       = (gs, r, m') \<and> map mr_key gs = [''mr-1'', ''mr-2''] \<and> distinct (concat (map access_keys gs))"
proof -
  let ?ops = "[OpRegister [1], OpRelease ''mr-1'', OpRegister [2, 3]]"
  obtain gs r m' where run: "registry_run ?ops MemoryRegistry_new empty_machine = (gs, r, m')"
    by (metis prod_cases3)
  have "[1 ..< Suc (Suc 1)] = [1, 2 :: nat]" by (simp add: upt_rec)
  then show ?thesis
    using registry_keys_unique [OF _ run] run
    by (simp add: region_key_def to_string.simps digit_chars flip: numeral_2_eq_2)
qed

text \<open>
  The bound is sharp: access keys are 32-bit and every registration takes two, so the
  registration \<open>2 ^ 31\<close> later gets the same access keys again.
\<close>

theorem access_keys_wrap:
  assumes "registry_ok n r m" "registry_ok (n + 2 ^ 31) r' m'" "args_ltr m = args_ltr m'"
  shows "access_keys (fst (MemoryRegistry_Register b r m)) = access_keys (fst (MemoryRegistry_Register b' r' m'))"
proof -
  have "(word_of_nat (1024 + 2 * (n + 2 ^ 31)) :: 32 word) = word_of_nat (1024 + 2 * n)"
    by (simp add: word_of_nat_eq_iff take_bit_eq_mod mod_eq_dvd_iff_nat)
  then show ?thesis
    using assms by (simp add: access_keys_def Register_simps(7,8) registry_ok_def)
qed

theorem access_keys_wrap_witness:
  "access_keys (fst (MemoryRegistry_Register [1] MemoryRegistry_new empty_machine)) =
   access_keys (fst (MemoryRegistry_Register [2]
     \<lparr>next_region_id = 2147483648, next_access_key = word_of_nat (1024 + 2 * 2 ^ 31), regions = Map.empty\<rparr>
     empty_machine))"
  by (rule access_keys_wrap [where n = 0]) (simp_all add: registry_ok_def MemoryRegistry_new_def)

text \<open>
  After a registration the new region is found under its key with the bytes it was given,
  every other key is looked up as before, the size grows by one; releasing the key makes
  the lookup throw the "not found" error and leaves every other key alone.
\<close>

theorem register_lookup_release:
  assumes "registry_ok n r m" "Suc n < 2 ^ 64" "MemoryRegistry_Register b r m = (g, r', m')"
  shows "MemoryRegistry_Lookup (mr_key g) r' = Inr g \<and>
    (\<exists>a. mr_storage g = Some a \<and> cells m' a = b) \<and> MemoryRegion_size g m' = length b \<and>
    MemoryRegistry_Size r' = Suc (MemoryRegistry_Size r) \<and>
    (\<forall>k. k \<noteq> mr_key g \<longrightarrow> MemoryRegistry_Lookup k r' = MemoryRegistry_Lookup k r \<and>
        MemoryRegistry_Lookup k (MemoryRegistry_Release (mr_key g) r') = MemoryRegistry_Lookup k r) \<and>
    MemoryRegistry_Lookup (mr_key g) (MemoryRegistry_Release (mr_key g) r') =
      Inl (RuntimeError (''memory region not found: '' @ mr_key g))"
proof -
  have "mr_storage g = Some (next_cell m)" "m' = snd (make_shared b m)"
    using Register_simps(2,3) [of b r m] assms(3) by simp_all
  then have "\<exists>a. mr_storage g = Some a \<and> cells m' a = b" "MemoryRegion_size g m' = length b"
    by (simp_all add: make_shared_simps MemoryRegion_size_def buf_size_def)
  then show ?thesis
    using Register_Lookup [OF assms] Register_Size [OF assms]
    by (simp add: MemoryRegistry_Release_def MemoryRegistry_Lookup_def)
qed

theorem register_lookup_release_witness:
  "\<exists>g r' m'. MemoryRegistry_Register [7, 8] MemoryRegistry_new empty_machine = (g, r', m') \<and>
     MemoryRegistry_Lookup (mr_key g) r' = Inr g \<and> MemoryRegion_size g m' = 2 \<and>
     MemoryRegistry_Lookup (mr_key g) (MemoryRegistry_Release (mr_key g) r') =
       Inl (RuntimeError (''memory region not found: '' @ mr_key g))"
proof -
  obtain g r' m' where reg: "MemoryRegistry_Register [7, 8] MemoryRegistry_new empty_machine = (g, r', m')"
    by (metis prod_cases3)
  then show ?thesis
    using register_lookup_release [OF registry_ok_new _ reg] by simp
qed

end
