(* ===== verification/Rdma_Queue_Pair.thy ===== *)
theory Rdma_Queue_Pair
  imports Rdma_Types
begin

text \<open>
  Queue pairs (\<open>rdma/src/queue_pair.cpp\<close>), connections (\<open>connection.cpp\<close>) and the
  handshake check (\<open>handshake.cpp\<close>). The state machine of the documentation
  (\<open>rdma/docs/qp_state_machine.md\<close>) is the inductive relation \<open>qp_edge\<close>; the code's
  \<open>TransitionTo\<close> is proved to accept exactly its edges. Connections are run by
  \<open>conn_step\<close>, whose reachable states satisfy \<open>conn_ok\<close>.
\<close>

section \<open>Queue pairs\<close>

record QueuePairConfig =
  local_node :: string
  remote_node :: string
  max_send_wr :: "32 word"
  max_recv_wr :: "32 word"

record QueuePair =
  qp_config :: QueuePairConfig
  qp_state :: QueuePairState

definition QueuePair_new :: "QueuePairConfig \<Rightarrow> QueuePair" where
  "QueuePair_new config = \<lparr>qp_config = config, qp_state = kReset\<rparr>"

definition QueuePair_TransitionTo :: "QueuePairState \<Rightarrow> QueuePair \<Rightarrow> bool \<times> QueuePair" where
  "QueuePair_TransitionTo next_state qp =
     (let fall_through =
        (if next_state = kError then (True, qp\<lparr>qp_state := next_state\<rparr>) else (False, qp))
      in case qp_state qp of
           kReset \<Rightarrow>
             if next_state = kInit then (True, qp\<lparr>qp_state := next_state\<rparr>) else fall_through
         | kInit \<Rightarrow>
             if next_state = kReadyToReceive then (True, qp\<lparr>qp_state := next_state\<rparr>) else fall_through
         | kReadyToReceive \<Rightarrow>
             if next_state = kReadyToSend then (True, qp\<lparr>qp_state := next_state\<rparr>) else fall_through
         | kReadyToSend \<Rightarrow>
             if next_state = kError then (True, qp\<lparr>qp_state := next_state\<rparr>) else fall_through
         | kError \<Rightarrow> fall_through)"

text \<open>One guard \<open>state_ == from && !TransitionTo(to)\<close> of \<open>BringUp\<close>; a \<open>False\<close> here is its
  early \<open>return false\<close>.\<close>

definition bring_up_stage :: "QueuePairState \<Rightarrow> QueuePairState \<Rightarrow> QueuePair \<Rightarrow> bool \<times> QueuePair" where
  "bring_up_stage from_state to_state qp =
     (if qp_state qp = from_state then QueuePair_TransitionTo to_state qp else (True, qp))"

definition QueuePair_BringUp :: "QueuePair \<Rightarrow> bool \<times> QueuePair" where
  "QueuePair_BringUp qp =
     (case bring_up_stage kReset kInit qp of (ok1, qp1) \<Rightarrow>
        if \<not> ok1 then (False, qp1)
        else case bring_up_stage kInit kReadyToReceive qp1 of (ok2, qp2) \<Rightarrow>
          if \<not> ok2 then (False, qp2)
          else case bring_up_stage kReadyToReceive kReadyToSend qp2 of (ok3, qp3) \<Rightarrow>
            if \<not> ok3 then (False, qp3) else (qp_state qp3 = kReadyToSend, qp3))"

definition QueuePair_IsReadyToSend :: "QueuePair \<Rightarrow> bool" where
  "QueuePair_IsReadyToSend qp \<longleftrightarrow> qp_state qp = kReadyToSend"

definition QueuePair_IsReadyToReceive :: "QueuePair \<Rightarrow> bool" where
  "QueuePair_IsReadyToReceive qp \<longleftrightarrow> qp_state qp = kReadyToReceive \<or> qp_state qp = kReadyToSend"

definition QueuePair_Describe :: "QueuePair \<Rightarrow> string" where
  "QueuePair_Describe qp =
     local_node (qp_config qp) @ ''->'' @ remote_node (qp_config qp) @ '' (''
       @ QueuePairState_ToString (qp_state qp) @ '')''"

subsection \<open>The documented state machine\<close>

inductive qp_edge :: "QueuePairState \<Rightarrow> QueuePairState \<Rightarrow> bool" where
  reset_init: "qp_edge kReset kInit"
| init_rtr: "qp_edge kInit kReadyToReceive"
| rtr_rts: "qp_edge kReadyToReceive kReadyToSend"
| to_error: "qp_edge s kError"

inductive_simps qp_edge_simps [simp]:
  "qp_edge kReset t" "qp_edge kInit t" "qp_edge kReadyToReceive t" "qp_edge kReadyToSend t" "qp_edge kError t"

lemma TransitionTo_refines:
  "QueuePair_TransitionTo t qp =
     (qp_edge (qp_state qp) t, if qp_edge (qp_state qp) t then qp\<lparr>qp_state := t\<rparr> else qp)"
  by (cases "qp_state qp"; cases t) (simp_all add: QueuePair_TransitionTo_def)

lemma TransitionTo_config [simp]: "qp_config (snd (QueuePair_TransitionTo t qp)) = qp_config qp"
  by (simp add: TransitionTo_refines)

text \<open>The position of a state in the bring-up order, with \<open>kError\<close> last.\<close>

fun qp_rank :: "QueuePairState \<Rightarrow> nat" where
  "qp_rank kReset = 0"
| "qp_rank kInit = 1"
| "qp_rank kReadyToReceive = 2"
| "qp_rank kReadyToSend = 3"
| "qp_rank kError = 4"

lemma qp_edge_rank: "qp_edge s t \<Longrightarrow> s \<noteq> kError \<Longrightarrow> qp_rank s < qp_rank t"
  by (cases s) auto

text \<open>Any sequence of \<open>TransitionTo\<close> calls, accepted or refused.\<close>

fun qp_run :: "QueuePairState list \<Rightarrow> QueuePair \<Rightarrow> QueuePair" where
  "qp_run [] qp = qp"
| "qp_run (t # ts) qp = qp_run ts (snd (QueuePair_TransitionTo t qp))"

lemma qp_run_rank: "qp_rank (qp_state qp) \<le> qp_rank (qp_state (qp_run ts qp))"
proof (induction ts arbitrary: qp)
  case (Cons t ts)
  have "qp_rank (qp_state qp) \<le> qp_rank (qp_state (snd (QueuePair_TransitionTo t qp)))"
    by (cases "qp_state qp = kError")
      (auto simp: TransitionTo_refines intro: less_imp_le qp_edge_rank)
  then show ?case using Cons.IH [of "snd (QueuePair_TransitionTo t qp)"] by simp
qed simp

lemma qp_run_config [simp]: "qp_config (qp_run ts qp) = qp_config qp"
  by (induction ts arbitrary: qp) auto

lemma BringUp_eq:
  "QueuePair_BringUp qp =
     (qp_state qp \<noteq> kError,
      if qp_state qp = kError then qp else qp\<lparr>qp_state := kReadyToSend\<rparr>)"
  by (cases "qp_state qp") (auto simp: QueuePair_BringUp_def bring_up_stage_def TransitionTo_refines)

text \<open>The explicit three transitions used where \<open>BringUp\<close> is not (\<open>worker_runtime.cpp\<close>,
  the benchmarks) do the same on a fresh queue pair.\<close>

lemma BringUp_three_transitions:
  "qp_run [kInit, kReadyToReceive, kReadyToSend] (QueuePair_new c) = snd (QueuePair_BringUp (QueuePair_new c))"
  by (simp add: BringUp_eq TransitionTo_refines QueuePair_new_def)

section \<open>Connections\<close>

record Connection =
  queue_pair :: QueuePair
  established :: bool

definition Connection_new :: "QueuePair \<Rightarrow> Connection" where
  "Connection_new qp = \<lparr>queue_pair = qp, established = False\<rparr>"

definition Connection_Establish :: "Connection \<Rightarrow> bool \<times> Connection" where
  "Connection_Establish c =
     (if established c then (True, c)
      else case QueuePair_BringUp (queue_pair c) of (ok, qp) \<Rightarrow>
        (ok, c\<lparr>queue_pair := qp, established := ok\<rparr>))"

definition Connection_Fail :: "Connection \<Rightarrow> bool \<times> Connection" where
  "Connection_Fail c =
     (case QueuePair_TransitionTo kError (queue_pair c) of (ok, qp) \<Rightarrow>
        (ok, c\<lparr>queue_pair := qp, established := False\<rparr>))"

definition Connection_channel_id :: "Connection \<Rightarrow> string" where
  "Connection_channel_id c =
     local_node (qp_config (queue_pair c)) @ ''->'' @ remote_node (qp_config (queue_pair c))"

text \<open>A connection's lifetime: created over a fresh queue pair, then any calls of its two
  operations.\<close>

inductive conn_step :: "Connection \<Rightarrow> Connection \<Rightarrow> bool" where
  establish: "conn_step c (snd (Connection_Establish c))"
| fail: "conn_step c (snd (Connection_Fail c))"

inductive conn_reach :: "QueuePairConfig \<Rightarrow> Connection \<Rightarrow> bool" for config where
  conn_start: "conn_reach config (Connection_new (QueuePair_new config))"
| conn_next: "conn_reach config c \<Longrightarrow> conn_step c c' \<Longrightarrow> conn_reach config c'"

definition conn_ok :: "QueuePairConfig \<Rightarrow> Connection \<Rightarrow> bool" where
  "conn_ok config c \<longleftrightarrow>
     qp_config (queue_pair c) = config \<and>
     (established c \<longleftrightarrow> qp_state (queue_pair c) = kReadyToSend) \<and>
     qp_state (queue_pair c) \<in> {kReset, kReadyToSend, kError}"

lemma Establish_eq:
  "Connection_Establish c =
     (if established c then (True, c)
      else if qp_state (queue_pair c) = kError then (False, c)
      else (True, c\<lparr>queue_pair := (queue_pair c)\<lparr>qp_state := kReadyToSend\<rparr>, established := True\<rparr>))"
  by (simp add: Connection_Establish_def BringUp_eq)

lemma Fail_eq:
  "Connection_Fail c =
     (True, c\<lparr>queue_pair := (queue_pair c)\<lparr>qp_state := kError\<rparr>, established := False\<rparr>)"
  by (simp add: Connection_Fail_def TransitionTo_refines qp_edge.to_error)

lemma conn_step_ok: "conn_step c c' \<Longrightarrow> conn_ok config c \<Longrightarrow> conn_ok config c'"
  by (induction rule: conn_step.induct) (auto simp: conn_ok_def Establish_eq Fail_eq)

lemma conn_reach_ok: "conn_reach config c \<Longrightarrow> conn_ok config c"
proof (induction rule: conn_reach.induct)
  case conn_start
  show ?case by (simp add: conn_ok_def Connection_new_def QueuePair_new_def)
qed (rule conn_step_ok)

lemma conn_failed_forever:
  assumes "conn_step\<^sup>*\<^sup>* c c'" "qp_state (queue_pair c) = kError" "\<not> established c"
  shows "qp_state (queue_pair c') = kError \<and> \<not> established c'"
  using assms
proof (induction rule: rtranclp_induct)
  case (step d e)
  from step.hyps(2) step.IH [OF step.prems] show ?case
    by (auto simp: Establish_eq Fail_eq elim!: conn_step.cases)
qed simp

section \<open>Handshake\<close>

record HandshakeRequest =
  initiator :: string
  responder :: string

record HandshakeResponse =
  accepted :: bool
  hs_detail :: string

definition Handshake_Build :: "QueuePairConfig \<Rightarrow> HandshakeRequest" where
  "Handshake_Build config = \<lparr>initiator = local_node config, responder = remote_node config\<rparr>"

definition Handshake_Validate :: "HandshakeRequest \<Rightarrow> HandshakeResponse" where
  "Handshake_Validate request =
     (if initiator request = [] then
        \<lparr>accepted = False, hs_detail = ''handshake initiator is empty''\<rparr>
      else if responder request = [] then
        \<lparr>accepted = False, hs_detail = ''handshake responder is empty''\<rparr>
      else \<lparr>accepted = True, hs_detail = ''handshake accepted''\<rparr>)"

lemma Validate_Build:
  "accepted (Handshake_Validate (Handshake_Build config)) \<longleftrightarrow>
   local_node config \<noteq> [] \<and> remote_node config \<noteq> []"
  by (simp add: Handshake_Validate_def Handshake_Build_def)

section \<open>Properties\<close>

text \<open>
  \<open>TransitionTo\<close> implements the documented state machine: it returns true and moves exactly
  on the edges reset to init, init to ready-to-receive, ready-to-receive to ready-to-send,
  and any state to error; every other request returns false and changes nothing.
\<close>

theorem transition_follows_documented_graph:
  "QueuePair_TransitionTo t qp =
     (if qp_edge (qp_state qp) t then (True, qp\<lparr>qp_state := t\<rparr>) else (False, qp))"
  by (simp add: TransitionTo_refines)

text \<open>
  Under any sequence of transition requests a queue pair only moves forward in the bring-up
  order and its configuration never changes; once in the error state it stays there, and
  no request makes it ready to send again.
\<close>

theorem queue_pair_never_goes_back:
  "qp_rank (qp_state (qp_run ts qp)) \<le> qp_rank (qp_state (qp_run (ts @ us) qp)) \<and>
   qp_config (qp_run ts qp) = qp_config qp \<and>
   qp_state (qp_run (ts @ kError # us) qp) = kError"
proof -
  have app: "qp_run (xs @ ys) qp = qp_run ys (qp_run xs qp)" for xs ys
    by (induction xs arbitrary: qp) auto
  have err: "qp_rank (qp_state (snd (QueuePair_TransitionTo kError (qp_run ts qp)))) = 4"
    by (simp add: TransitionTo_refines qp_edge.to_error)
  have "4 \<le> qp_rank (qp_state (qp_run us (snd (QueuePair_TransitionTo kError (qp_run ts qp)))))"
    using qp_run_rank [of "snd (QueuePair_TransitionTo kError (qp_run ts qp))" us] err by simp
  then have "qp_state (qp_run us (snd (QueuePair_TransitionTo kError (qp_run ts qp)))) = kError"
    by (cases "qp_state (qp_run us (snd (QueuePair_TransitionTo kError (qp_run ts qp))))") simp_all
  then show ?thesis using qp_run_rank by (simp add: app)
qed

text \<open>
  \<open>BringUp\<close> takes a queue pair from any state but error to ready-to-send and returns true; in
  the error state it returns false and does nothing. On a fresh queue pair it is the same as
  the three explicit transitions the benchmarks and the worker runtime make.
\<close>

theorem bring_up_total:
  "QueuePair_BringUp qp =
     (if qp_state qp = kError then (False, qp) else (True, qp\<lparr>qp_state := kReadyToSend\<rparr>)) \<and>
   qp_run [kInit, kReadyToReceive, kReadyToSend] (QueuePair_new c) = snd (QueuePair_BringUp (QueuePair_new c))"
  using BringUp_three_transitions [of c] by (simp only: BringUp_eq) simp

text \<open>
  At every moment of a connection's life it reports itself established exactly when its queue
  pair is ready to send, so \<open>established()\<close> is a sound guard for posting.
\<close>

theorem connection_established_iff_ready:
  assumes "conn_reach config c"
  shows "(established c \<longleftrightarrow> QueuePair_IsReadyToSend (queue_pair c)) \<and> qp_config (queue_pair c) = config"
  using conn_reach_ok [OF assms] by (simp add: conn_ok_def QueuePair_IsReadyToSend_def)

lemma conn_reach_sample:
  "conn_reach \<lparr>local_node = ''a'', remote_node = ''b'', max_send_wr = 256, max_recv_wr = 256\<rparr>
     (snd (Connection_Establish (Connection_new (QueuePair_new
       \<lparr>local_node = ''a'', remote_node = ''b'', max_send_wr = 256, max_recv_wr = 256\<rparr>))))"
  by (rule conn_reach.conn_next [OF conn_reach.conn_start conn_step.establish])

theorem connection_established_iff_ready_witness:
  "QueuePair_IsReadyToSend (queue_pair (snd (Connection_Establish (Connection_new (QueuePair_new
       \<lparr>local_node = ''a'', remote_node = ''b'', max_send_wr = 256, max_recv_wr = 256\<rparr>)))))"
  using connection_established_iff_ready [OF conn_reach_sample]
  by (simp add: Establish_eq Connection_new_def QueuePair_new_def)

text \<open>
  A connection that failed can not be brought back by any later calls: its queue pair stays
  in the error state, it is not established, and \<open>Establish\<close> returns false.
\<close>

theorem failed_connection_stays_failed:
  assumes "conn_step\<^sup>*\<^sup>* (snd (Connection_Fail c)) c'"
  shows "qp_state (queue_pair c') = kError \<and> \<not> established c' \<and> Connection_Establish c' = (False, c')"
  using conn_failed_forever [OF assms] by (simp add: Fail_eq Establish_eq)

theorem failed_connection_stays_failed_witness:
  "let c = Connection_new (QueuePair_new \<lparr>local_node = ''a'', remote_node = ''b'', max_send_wr = 1, max_recv_wr = 1\<rparr>);
       c' = snd (Connection_Establish (snd (Connection_Fail c)))
   in \<not> established c' \<and> Connection_Establish c' = (False, c')"
  unfolding Let_def
  using failed_connection_stays_failed [OF r_into_rtranclp [where r = conn_step, OF conn_step.establish]] by blast

end
