(* ===== verification/Rdma_Transport.thy ===== *)
theory Rdma_Transport
  imports Rdma_Completion Rdma_Memory Rdma_Queue_Pair
begin

text \<open>
  The in-memory transport of \<open>rdma/src/transport_rdma.cpp\<close>: one broker with an inbox per
  node. A message carries its payload as a pointer, so delivery copies no payload.
  Transports are shared between sessions through \<open>shared_ptr\<close>; they live at addresses and
  \<open>transports\<close> is their state. Each operation is atomic up to the broker's lock; the
  waiting of \<open>PollReceive\<close> takes the actions of the other threads as an argument.
\<close>

record Message =
  msg_source :: string
  msg_destination :: string
  msg_topic :: string
  msg_description :: string
  msg_payload :: ByteBufferPtr
  msg_work_request_id :: WorkRequestId
  msg_operation :: OperationType

definition Message_size :: "Message \<Rightarrow> 'w machine_scheme \<Rightarrow> nat" where
  "Message_size msg m = buf_size (msg_payload msg) m"

record TransportRdma =
  tr_config :: TransportConfig
  inboxes :: "string \<rightharpoonup> Message list"

record rdma_world = evc_world +
  transports :: "nat \<Rightarrow> TransportRdma"

definition TransportRdma_new :: "TransportConfig \<Rightarrow> TransportRdma" where
  "TransportRdma_new config = \<lparr>tr_config = config, inboxes = Map.empty\<rparr>"

abbreviation set_transport :: "nat \<Rightarrow> TransportRdma \<Rightarrow> 'w rdma_world_scheme \<Rightarrow> 'w rdma_world_scheme" where
  "set_transport t tr w \<equiv> w\<lparr>transports := (transports w)(t := tr)\<rparr>"

text \<open>A world with an empty heap and idle transports of the default configuration.\<close>

definition empty_world :: rdma_world where
  "empty_world =
     \<lparr>cells = \<lambda>_. [], next_cell = 0, clock = 0, args_ltr = True, evcs = \<lambda>_. \<lparr>signaled = False\<rparr>,
      transports = \<lambda>_. TransportRdma_new TransportConfig_default\<rparr>"

definition TransportRdma_Connect :: "nat \<Rightarrow> QueuePair \<Rightarrow> 'w rdma_world_scheme \<Rightarrow> 'w rdma_world_scheme" where
  "TransportRdma_Connect t qp w =
     (let tr = transports w t
      in set_transport t
           (tr\<lparr>inboxes := emplace (remote_node (qp_config qp)) []
                 (emplace (local_node (qp_config qp)) [] (inboxes tr))\<rparr>) w)"

text \<open>The block of \<open>PostSend\<close> that holds the broker's lock.\<close>

definition TransportRdma_locked_deliver :: "string \<Rightarrow> Message \<Rightarrow> TransportRdma \<Rightarrow> TransportRdma" where
  "TransportRdma_locked_deliver node message tr =
     (let inbox = (case inboxes tr node of None \<Rightarrow> [] | Some q \<Rightarrow> q);
          inbox1 = (if mailbox_capacity (tr_config tr) > 0 \<and>
                       length inbox \<ge> mailbox_capacity (tr_config tr)
                    then tl inbox else inbox)
      in tr\<lparr>inboxes := (inboxes tr)(node \<mapsto> inbox1 @ [message])\<rparr>)"

definition TransportRdma_PostSend ::
    "nat \<Rightarrow> QueuePair \<Rightarrow> Message \<Rightarrow> CompletionQueue \<Rightarrow> 'w rdma_world_scheme
       \<Rightarrow> CompletionQueue \<times> 'w rdma_world_scheme" where
  "TransportRdma_PostSend t qp message cq w =
     (let now = clock w;
          work_request_id = msg_work_request_id message;
          operation = msg_operation message;
          bytes = Message_size message w
      in if \<not> QueuePair_IsReadyToSend qp then
           CompletionQueue_Push
             \<lparr>ce_work_request_id = work_request_id, ce_status = CS_kFailed, ce_operation = operation,
              ce_source = local_node (qp_config qp), ce_destination = remote_node (qp_config qp),
              ce_detail = ''queue pair is not ready to send'', ce_completed_at = now, ce_bytes = 0\<rparr>
             cq w
         else
           (let message1 = message\<lparr>msg_source := (if msg_source message = []
                                     then local_node (qp_config qp) else msg_source message),
                                   msg_destination := remote_node (qp_config qp)\<rparr>;
                w1 = set_transport t
                       (TransportRdma_locked_deliver (remote_node (qp_config qp)) message1 (transports w t)) w
            in CompletionQueue_Push
                 \<lparr>ce_work_request_id = work_request_id, ce_status = CS_kSuccess, ce_operation = operation,
                  ce_source = local_node (qp_config qp), ce_destination = remote_node (qp_config qp),
                  ce_detail = ''send completed through in-memory RDMA backend'',
                  ce_completed_at = now, ce_bytes = bytes\<rparr>
                 cq w1))"

definition TransportRdma_PostWrite ::
    "nat \<Rightarrow> QueuePair \<Rightarrow> MemoryRegion \<Rightarrow> string \<Rightarrow> CompletionQueue \<Rightarrow> WorkRequestId
       \<Rightarrow> 'w rdma_world_scheme \<Rightarrow> CompletionQueue \<times> 'w rdma_world_scheme" where
  "TransportRdma_PostWrite t qp region topic cq work_request_id w =
     TransportRdma_PostSend t qp
       \<lparr>msg_source = local_node (qp_config qp), msg_destination = remote_node (qp_config qp),
        msg_topic = topic, msg_description = mr_key region, msg_payload = mr_storage region,
        msg_work_request_id = work_request_id, msg_operation = kWrite\<rparr>
       cq w"

text \<open>The contents of a node's inbox; a node without an inbox has none.\<close>

definition inbox_of :: "string \<Rightarrow> TransportRdma \<Rightarrow> Message list" where
  "inbox_of node tr = (case inboxes tr node of None \<Rightarrow> [] | Some q \<Rightarrow> q)"

definition TransportRdma_PollReceive ::
    "('w rdma_world_scheme \<Rightarrow> 'w rdma_world_scheme) list \<Rightarrow> nat \<Rightarrow> string \<Rightarrow> 'w rdma_world_scheme
       \<Rightarrow> Message option \<times> 'w rdma_world_scheme" where
  "TransportRdma_PollReceive others t node w =
     (let tr = transports w t;
          w0 = set_transport t (tr\<lparr>inboxes := emplace node [] (inboxes tr)\<rparr>) w
      in case cv_wait_for
                (\<lambda>w. case inboxes (transports w t) node of None \<Rightarrow> False | Some q \<Rightarrow> q \<noteq> []) others w0 of
           (ok, w1) \<Rightarrow>
             if \<not> ok then (None, w1)
             else (let tr1 = transports w1 t; inbox = inbox_of node tr1
                   in (Some (hd inbox),
                       set_transport t (tr1\<lparr>inboxes := (inboxes tr1)(node \<mapsto> tl inbox)\<rparr>) w1)))"

definition TransportRdma_BackendName :: "TransportRdma \<Rightarrow> string" where
  "TransportRdma_BackendName tr = backend_name (tr_config tr)"

section \<open>Inboxes as FIFO queues\<close>

text \<open>The effect of an undisturbed \<open>PollReceive\<close> on the transport alone.\<close>

definition inbox_pop :: "string \<Rightarrow> TransportRdma \<Rightarrow> Message option \<times> TransportRdma" where
  "inbox_pop node tr =
     (case inbox_of node tr of
        [] \<Rightarrow> (None, tr\<lparr>inboxes := emplace node [] (inboxes tr)\<rparr>)
      | msg # rest \<Rightarrow> (Some msg, tr\<lparr>inboxes := (inboxes tr)(node \<mapsto> rest)\<rparr>))"

abbreviation tr_cap :: "TransportRdma \<Rightarrow> nat" where
  "tr_cap tr \<equiv> mailbox_capacity (tr_config tr)"

lemma inbox_emplace [simp]: "inbox_of n (tr\<lparr>inboxes := emplace node [] (inboxes tr)\<rparr>) = inbox_of n tr"
  by (auto simp: inbox_of_def emplace_def split: option.splits)

interpretation inbox_fifo: drop_oldest_fifo "TransportRdma_locked_deliver node" "inbox_pop node"
  "inbox_of node" tr_cap for node
  by unfold_locales
    (auto simp: TransportRdma_locked_deliver_def inbox_pop_def inbox_of_def Let_def
      emplace_def split: option.splits list.splits)

lemma locked_deliver_other:
  "n \<noteq> node \<Longrightarrow> inboxes (TransportRdma_locked_deliver node msg tr) n = inboxes tr n"
  by (simp add: TransportRdma_locked_deliver_def Let_def)

lemma locked_deliver_config [simp]:
  "tr_config (TransportRdma_locked_deliver node msg tr) = tr_config tr"
  by (simp add: TransportRdma_locked_deliver_def Let_def)

lemma PollReceive_undisturbed:
  "TransportRdma_PollReceive [] t node w =
     (fst (inbox_pop node (transports w t)), set_transport t (snd (inbox_pop node (transports w t))) w)"
  by (auto simp: TransportRdma_PollReceive_def inbox_pop_def inbox_of_def emplace_def Let_def
      split: option.splits list.splits)

lemma PollReceive_ready:
  assumes "inbox_of node (transports w t) = msg # rest"
  shows "TransportRdma_PollReceive others t node w =
     (Some msg, set_transport t ((transports w t)\<lparr>inboxes := (inboxes (transports w t))(node \<mapsto> rest)\<rparr>) w)"
  using assms
  by (auto simp: TransportRdma_PollReceive_def inbox_of_def emplace_def Let_def split: option.splits)

lemma PollReceive_woken:
  assumes "inbox_of node (transports w t) = []"
    "inbox_of node (transports (other (set_transport t ((transports w t)
        \<lparr>inboxes := emplace node [] (inboxes (transports w t))\<rparr>) w)) t) = msg # rest"
  shows "fst (TransportRdma_PollReceive (other # others) t node w) = Some msg"
  using assms
  by (auto simp: TransportRdma_PollReceive_def inbox_of_def emplace_def Let_def split: option.splits)

section \<open>What a send does\<close>

lemma notify_transports [simp]: "transports (notify_channels chs w) = transports w"
  by (induction chs w rule: notify_channels.induct) auto

lemma Push_transports [simp]: "transports (snd (CompletionQueue_Push e q w)) = transports w"
  by (simp add: CompletionQueue_Push_def Let_def)

definition send_completion :: "QueuePair \<Rightarrow> Message \<Rightarrow> 'w machine_scheme \<Rightarrow> CompletionEvent" where
  "send_completion qp message w =
     \<lparr>ce_work_request_id = msg_work_request_id message, ce_status = CS_kSuccess,
      ce_operation = msg_operation message,
      ce_source = local_node (qp_config qp), ce_destination = remote_node (qp_config qp),
      ce_detail = ''send completed through in-memory RDMA backend'',
      ce_completed_at = clock w, ce_bytes = Message_size message w\<rparr>"

definition refused_completion :: "QueuePair \<Rightarrow> Message \<Rightarrow> 'w machine_scheme \<Rightarrow> CompletionEvent" where
  "refused_completion qp message w =
     \<lparr>ce_work_request_id = msg_work_request_id message, ce_status = CS_kFailed,
      ce_operation = msg_operation message,
      ce_source = local_node (qp_config qp), ce_destination = remote_node (qp_config qp),
      ce_detail = ''queue pair is not ready to send'',
      ce_completed_at = clock w, ce_bytes = 0\<rparr>"

definition addressed :: "QueuePair \<Rightarrow> Message \<Rightarrow> Message" where
  "addressed qp message =
     message\<lparr>msg_source := (if msg_source message = [] then local_node (qp_config qp) else msg_source message),
             msg_destination := remote_node (qp_config qp)\<rparr>"

lemma addressed_simps [simp]:
  "msg_payload (addressed qp msg) = msg_payload msg" "msg_topic (addressed qp msg) = msg_topic msg"
  "msg_operation (addressed qp msg) = msg_operation msg"
  "msg_description (addressed qp msg) = msg_description msg"
  "msg_work_request_id (addressed qp msg) = msg_work_request_id msg"
  "msg_destination (addressed qp msg) = remote_node (qp_config qp)"
  by (simp_all add: addressed_def)

lemma PostSend_ready:
  assumes "qp_state qp = kReadyToSend"
    "TransportRdma_PostSend t qp msg cq w = (cq', w')"
  shows "cq' = CompletionQueue_locked_push (send_completion qp msg w) cq"
    "transports w' = (transports w)(t :=
       TransportRdma_locked_deliver (remote_node (qp_config qp)) (addressed qp msg) (transports w t))"
    "cells w' = cells w" "next_cell w' = next_cell w" "clock w' = clock w" "args_ltr w' = args_ltr w"
proof -
  have eq: "(cq', w') = CompletionQueue_Push (send_completion qp msg w) cq
      (set_transport t (TransportRdma_locked_deliver (remote_node (qp_config qp)) (addressed qp msg)
         (transports w t)) w)"
    using assms by (simp add: TransportRdma_PostSend_def Let_def QueuePair_IsReadyToSend_def
        send_completion_def addressed_def)
  from arg_cong [OF eq, of fst] arg_cong [OF eq, of snd]
  show "cq' = CompletionQueue_locked_push (send_completion qp msg w) cq"
    "transports w' = (transports w)(t :=
       TransportRdma_locked_deliver (remote_node (qp_config qp)) (addressed qp msg) (transports w t))"
    "cells w' = cells w" "next_cell w' = next_cell w" "clock w' = clock w" "args_ltr w' = args_ltr w"
    by simp_all
qed

lemma PostSend_refused:
  assumes "qp_state qp \<noteq> kReadyToSend"
    "TransportRdma_PostSend t qp msg cq w = (cq', w')"
  shows "cq' = CompletionQueue_locked_push (refused_completion qp msg w) cq"
    "transports w' = transports w" "cells w' = cells w" "next_cell w' = next_cell w"
    "clock w' = clock w" "args_ltr w' = args_ltr w"
proof -
  have eq: "(cq', w') = CompletionQueue_Push (refused_completion qp msg w) cq w"
    using assms by (simp add: TransportRdma_PostSend_def Let_def QueuePair_IsReadyToSend_def
        refused_completion_def)
  from arg_cong [OF eq, of fst] arg_cong [OF eq, of snd]
  show "cq' = CompletionQueue_locked_push (refused_completion qp msg w) cq"
    "transports w' = transports w" "cells w' = cells w" "next_cell w' = next_cell w"
    "clock w' = clock w" "args_ltr w' = args_ltr w"
    by simp_all
qed

lemma Connect_simps [simp]:
  "cells (TransportRdma_Connect t qp w) = cells w"
  "next_cell (TransportRdma_Connect t qp w) = next_cell w"
  "clock (TransportRdma_Connect t qp w) = clock w"
  "args_ltr (TransportRdma_Connect t qp w) = args_ltr w"
  "tr_config (transports (TransportRdma_Connect t qp w) t') = tr_config (transports w t')"
  "inbox_of node (transports (TransportRdma_Connect t qp w) t') = inbox_of node (transports w t')"
  by (auto simp: TransportRdma_Connect_def Let_def inbox_of_def emplace_def split: option.splits)

text \<open>A node's inbox after a send: one more message at its back for the peer (less the
  oldest, at capacity), nothing for anyone else.\<close>

lemma PostSend_inbox:
  assumes "qp_state qp = kReadyToSend" "TransportRdma_PostSend t qp msg cq w = (cq', w')"
  shows "inbox_of node (transports w' t') =
    (if t' = t \<and> node = remote_node (qp_config qp)
     then (if 0 < tr_cap (transports w t) \<and> tr_cap (transports w t) \<le> length (inbox_of node (transports w t))
           then tl (inbox_of node (transports w t)) else inbox_of node (transports w t)) @ [addressed qp msg]
     else inbox_of node (transports w t'))"
    "tr_config (transports w' t') = tr_config (transports w t')"
  using PostSend_ready(2) [OF assms] inbox_fifo.items_push [of node "addressed qp msg" "transports w t"]
    locked_deliver_other [of node "remote_node (qp_config qp)" "addressed qp msg" "transports w t"]
  by (auto simp: inbox_of_def)

section \<open>Properties\<close>

text \<open>
  Posting on a ready queue pair appends the message to the inbox of the remote node and to no
  other inbox of any transport (at capacity the oldest message makes room), hands over
  the payload pointer without touching the heap, and pushes one success completion
  with the request's id, operation and byte count.
\<close>

theorem send_delivers_to_peer_only:
  assumes "qp_state qp = kReadyToSend" "TransportRdma_PostSend t qp msg cq w = (cq', w')"
  shows "(\<forall>node t'. inbox_of node (transports w' t') =
      (if t' = t \<and> node = remote_node (qp_config qp)
       then (if 0 < tr_cap (transports w t) \<and> tr_cap (transports w t) \<le> length (inbox_of node (transports w t))
             then tl (inbox_of node (transports w t)) else inbox_of node (transports w t)) @ [addressed qp msg]
       else inbox_of node (transports w t'))) \<and>
    msg_payload (addressed qp msg) = msg_payload msg \<and> cells w' = cells w \<and> next_cell w' = next_cell w \<and>
    cq' = CompletionQueue_locked_push (send_completion qp msg w) cq"
  using PostSend_inbox(1) [OF assms] PostSend_ready [OF assms] by simp

definition sample_qp :: "QueuePairState \<Rightarrow> QueuePair" where
  "sample_qp st =
     \<lparr>qp_config = \<lparr>local_node = ''a'', remote_node = ''b'', max_send_wr = 256, max_recv_wr = 256\<rparr>, qp_state = st\<rparr>"

definition sample_message :: Message where
  "sample_message =
     \<lparr>msg_source = '''', msg_destination = '''', msg_topic = ''task'', msg_description = ''d'',
      msg_payload = None, msg_work_request_id = 7, msg_operation = kSend\<rparr>"

lemma inbox_empty_world [simp]: "inbox_of node (transports empty_world t) = []"
  by (simp add: empty_world_def TransportRdma_new_def inbox_of_def)

theorem send_delivers_to_peer_only_witness:
  "\<exists>cq' w'. TransportRdma_PostSend 0 (sample_qp kReadyToSend) sample_message
       (CompletionQueue_new CompletionQueueConfig_default) empty_world = (cq', w') \<and>
     inbox_of ''b'' (transports w' 0) = [addressed (sample_qp kReadyToSend) sample_message] \<and>
     inbox_of ''a'' (transports w' 0) = []"
proof -
  obtain cq' w' where run: "TransportRdma_PostSend 0 (sample_qp kReadyToSend) sample_message
       (CompletionQueue_new CompletionQueueConfig_default) empty_world = (cq', w')" by (metis surj_pair)
  show ?thesis
    using send_delivers_to_peer_only [OF _ run] run by (simp add: sample_qp_def)
qed

text \<open>
  Posting on a queue pair that is not ready to send delivers nothing to anybody and reports it:
  one failed completion with the request's id and no bytes.
\<close>

theorem send_refused_unless_ready:
  assumes "qp_state qp \<noteq> kReadyToSend" "TransportRdma_PostSend t qp msg cq w = (cq', w')"
  shows "transports w' = transports w \<and> cells w' = cells w \<and>
    cq' = CompletionQueue_locked_push (refused_completion qp msg w) cq \<and>
    ce_status (refused_completion qp msg w) = CS_kFailed \<and>
    ce_work_request_id (refused_completion qp msg w) = msg_work_request_id msg"
  using PostSend_refused [OF assms] by (simp add: refused_completion_def)

theorem send_refused_unless_ready_witness:
  "\<exists>cq' w'. TransportRdma_PostSend 0 (sample_qp kReadyToReceive) sample_message
       (CompletionQueue_new CompletionQueueConfig_default) empty_world = (cq', w') \<and>
     transports w' = transports empty_world"
proof -
  obtain cq' w' where run: "TransportRdma_PostSend 0 (sample_qp kReadyToReceive) sample_message
       (CompletionQueue_new CompletionQueueConfig_default) empty_world = (cq', w')" by (metis surj_pair)
  show ?thesis
    using send_refused_unless_ready [OF _ run] run by (simp add: sample_qp_def)
qed

text \<open>
  \<open>PostWrite\<close> is zero-copy: the receiver is given the region's own buffer, so what the owner
  writes into the region after the post and before the receive is what the receiver reads.
\<close>

theorem write_shares_the_region:
  assumes "qp_state qp = kReadyToSend" "mr_storage region = Some a"
    "inbox_of (remote_node (qp_config qp)) (transports w t) = []"
    "TransportRdma_PostWrite t qp region topic cq wid w = (cq', w')"
  shows "\<exists>msg w''. TransportRdma_PollReceive others t (remote_node (qp_config qp))
        (w'\<lparr>cells := (cells w')(a := b)\<rparr>) = (Some msg, w'') \<and>
      msg_payload msg = mr_storage region \<and> msg_description msg = mr_key region \<and>
      msg_topic msg = topic \<and> msg_operation msg = kWrite \<and>
      StringFromBytesPtr (msg_payload msg) w'' = StringFromBytes b"
proof -
  define msg where "msg = \<lparr>msg_source = local_node (qp_config qp), msg_destination = remote_node (qp_config qp),
        msg_topic = topic, msg_description = mr_key region, msg_payload = mr_storage region,
        msg_work_request_id = wid, msg_operation = kWrite\<rparr>"
  have send: "TransportRdma_PostSend t qp msg cq w = (cq', w')"
    using assms(4) by (simp add: TransportRdma_PostWrite_def msg_def)
  have "inbox_of (remote_node (qp_config qp)) (transports (w'\<lparr>cells := (cells w')(a := b)\<rparr>) t) = [addressed qp msg]"
    using PostSend_inbox(1) [OF assms(1) send, of "remote_node (qp_config qp)" t] assms(3) by simp
  from PollReceive_ready [OF this, of others] show ?thesis
    by (simp add: StringFromBytesPtr_def assms(2)) (simp add: msg_def assms(2))
qed

theorem write_shares_the_region_witness:
  "\<exists>cq' w' msg w''. TransportRdma_PostWrite 0 (sample_qp kReadyToSend)
       \<lparr>mr_key = ''mr-1'', mr_local_key = 1024, mr_remote_key = 1025, mr_storage = Some 0\<rparr> ''t''
       (CompletionQueue_new CompletionQueueConfig_default) 3 empty_world = (cq', w') \<and>
     TransportRdma_PollReceive [] 0 ''b'' (w'\<lparr>cells := (cells w')(0 := BytesFromString ''new'')\<rparr>) = (Some msg, w'') \<and>
     StringFromBytesPtr (msg_payload msg) w'' = ''new''"
proof -
  let ?g = "\<lparr>mr_key = ''mr-1'', mr_local_key = 1024, mr_remote_key = 1025, mr_storage = Some 0\<rparr>"
  obtain cq' w' where run: "TransportRdma_PostWrite 0 (sample_qp kReadyToSend) ?g ''t''
       (CompletionQueue_new CompletionQueueConfig_default) 3 empty_world = (cq', w')" by (metis surj_pair)
  have qp: "qp_state (sample_qp kReadyToSend) = kReadyToSend" "remote_node (qp_config (sample_qp kReadyToSend)) = ''b''"
    by (simp_all add: sample_qp_def)
  have "\<exists>msg w''. TransportRdma_PollReceive [] 0 ''b'' (w'\<lparr>cells := (cells w')(0 := BytesFromString ''new'')\<rparr>) =
      (Some msg, w'') \<and> StringFromBytesPtr (msg_payload msg) w'' = ''new''"
    using write_shares_the_region [OF qp(1) _ _ run, of 0 "[]" "BytesFromString ''new''"]
    unfolding qp(2) by simp blast
  with run show ?thesis by blast
qed

text \<open>
  A receive that blocks on an empty inbox and is overtaken by a send of another thread to the
  same node before its deadline returns that very message.
\<close>

theorem blocked_receive_gets_sent_message:
  assumes "qp_state qp = kReadyToSend" "inbox_of (remote_node (qp_config qp)) (transports w t) = []"
  shows "fst (TransportRdma_PollReceive ((\<lambda>v. snd (TransportRdma_PostSend t qp msg cq v)) # others)
      t (remote_node (qp_config qp)) w) = Some (addressed qp msg)"
proof (rule PollReceive_woken [OF assms(2)])
  let ?node = "remote_node (qp_config qp)"
  let ?w0 = "set_transport t ((transports w t)\<lparr>inboxes := emplace ?node [] (inboxes (transports w t))\<rparr>) w"
  obtain cq' w' where run: "TransportRdma_PostSend t qp msg cq ?w0 = (cq', w')" by (metis surj_pair)
  have "inbox_of ?node (transports ?w0 t) = []" using assms(2) by simp
  then show "inbox_of ?node (transports (snd (TransportRdma_PostSend t qp msg cq ?w0)) t) = [addressed qp msg]"
    using PostSend_inbox(1) [OF assms(1) run, of ?node t] by (simp add: run)
qed

theorem blocked_receive_gets_sent_message_witness:
  "fst (TransportRdma_PollReceive [\<lambda>v. snd (TransportRdma_PostSend 0 (sample_qp kReadyToSend) sample_message
      (CompletionQueue_new CompletionQueueConfig_default) v)] 0 ''b'' empty_world) =
   Some (addressed (sample_qp kReadyToSend) sample_message)"
  using blocked_receive_gets_sent_message [of "sample_qp kReadyToSend" empty_world 0 sample_message
      "CompletionQueue_new CompletionQueueConfig_default" "[]"]
  by (simp add: sample_qp_def)

end
