(* ===== verification/Rdma_Messages.thy ===== *)
theory Rdma_Messages
  imports Rdma_Types
begin

text \<open>
  The line-oriented wire format of \<open>rdma/include/rdma/task_message.h\<close> and
  \<open>result_message.h\<close>: one \<open>key=value\<close> line per field, one \<open>meta:key=value\<close> line per
  metadata entry. What both formats share is stated once, in the locale
  \<open>line_codec\<close>, and interpreted on both message types.
\<close>

section \<open>The contract of a line codec\<close>

locale line_codec =
  fixes serialize :: "'m \<Rightarrow> ByteBuffer"
    and deserialize :: "ByteBuffer \<Rightarrow> 'm"
    and lines :: "'m \<Rightarrow> string list"
    and apply_line :: "'m \<Rightarrow> string \<Rightarrow> 'm"
    and initial :: 'm
    and ok :: "'m \<Rightarrow> bool"
  assumes serialize_lines: "serialize m = BytesFromString (concat (map (\<lambda>l. l @ [NL]) (lines m)))"
    and deserialize_lines: "deserialize p = foldl apply_line initial (getlines (StringFromBytes p))"
    and lines_no_NL: "ok m \<Longrightarrow> l \<in> set (lines m) \<Longrightarrow> NL \<notin> set l"
    and replay: "ok m \<Longrightarrow> foldl apply_line initial (lines m) = m"
    and ok_initial: "ok initial"
    and ok_apply_line: "ok m \<Longrightarrow> NL \<notin> set l \<Longrightarrow> ok (apply_line m l)"
begin

lemma roundtrip: "ok m \<Longrightarrow> deserialize (serialize m) = m"
  by (simp add: serialize_lines deserialize_lines getlines_concat lines_no_NL replay)

lemma foldl_ok: "ok m \<Longrightarrow> \<forall>l \<in> set ls. NL \<notin> set l \<Longrightarrow> ok (foldl apply_line m ls)"
  by (induction ls arbitrary: m) (auto intro: ok_apply_line)

lemma deserialize_ok: "ok (deserialize p)"
  by (simp add: deserialize_lines foldl_ok ok_initial getlines_no_NL)

lemma canonical: "deserialize (serialize (deserialize p)) = deserialize p"
  by (simp add: roundtrip deserialize_ok)

lemma serialize_inject: "ok m \<Longrightarrow> ok m' \<Longrightarrow> serialize m = serialize m' \<Longrightarrow> m = m'"
  by (metis roundtrip)

end

section \<open>Metadata lines\<close>

definition meta_line :: "string \<times> string \<Rightarrow> string" where
  "meta_line kv = ''meta:'' @ fst kv @ ''='' @ snd kv"

definition metadata_ok :: "str_map \<Rightarrow> bool" where
  "metadata_ok md \<longleftrightarrow>
     map_ok md \<and> (\<forall>(k, v) \<in> set md. NL \<notin> set k \<and> CHR ''='' \<notin> set k \<and> NL \<notin> set v)"

lemma metadata_ok_Nil [simp]: "metadata_ok []"
  by (simp add: metadata_ok_def)

lemma metadata_ok_put:
  "metadata_ok md \<Longrightarrow> NL \<notin> set k \<Longrightarrow> CHR ''='' \<notin> set k \<Longrightarrow> NL \<notin> set v \<Longrightarrow>
   metadata_ok (map_put k v md)"
  using map_put_set [of k v md] by (auto simp: metadata_ok_def)

lemma metadata_ok_no_NL: "metadata_ok md \<Longrightarrow> l \<in> set (map meta_line md) \<Longrightarrow> NL \<notin> set l"
  by (auto simp: metadata_ok_def meta_line_def)

text \<open>The two pieces a line is cut into at its first \<open>=\<close>.\<close>

lemma cut_at_eq:
  assumes "find_char (CHR ''='') s = Some pos" "NL \<notin> set s"
  shows "CHR ''='' \<notin> set (substr s 0 pos)" "NL \<notin> set (substr s 0 pos)"
    "NL \<notin> set (substr_from s (Suc pos))"
proof -
  show "CHR ''='' \<notin> set (substr s 0 pos)"
    using find_char_split [OF assms(1)] by (simp add: substr_def)
  show "NL \<notin> set (substr s 0 pos)" "NL \<notin> set (substr_from s (Suc pos))"
    using assms(2) by (auto simp: substr_def substr_from_def dest: in_set_takeD in_set_dropD)
qed

section \<open>TaskMessage\<close>

record TaskMessage =
  tm_task_id :: string
  tm_kind :: string
  tm_source_node :: string
  tm_target_node :: string
  tm_description :: string
  tm_metadata :: str_map

definition TaskMessage_default :: TaskMessage where
  "TaskMessage_default =
     \<lparr>tm_task_id = [], tm_kind = [], tm_source_node = [], tm_target_node = [],
      tm_description = [], tm_metadata = []\<rparr>"

definition TaskMessage_Serialize :: "TaskMessage \<Rightarrow> ByteBuffer" where
  "TaskMessage_Serialize m =
     BytesFromString
       (''task_id='' @ tm_task_id m @ [NL]
        @ ''kind='' @ tm_kind m @ [NL]
        @ ''source_node='' @ tm_source_node m @ [NL]
        @ ''target_node='' @ tm_target_node m @ [NL]
        @ ''description='' @ tm_description m @ [NL]
        @ concat (map (\<lambda>(key, value). ''meta:'' @ key @ ''='' @ value @ [NL]) (tm_metadata m)))"

text \<open>The body of the \<open>while (std::getline(stream, line))\<close> loop.\<close>

definition TaskMessage_line :: "TaskMessage \<Rightarrow> string \<Rightarrow> TaskMessage" where
  "TaskMessage_line message line =
     (if line = [] then message
      else if starts_with ''meta:'' line then
        (let pair = substr_from line 5 in
         case find_char (CHR ''='') pair of
           None \<Rightarrow> message
         | Some pos \<Rightarrow>
             message\<lparr>tm_metadata :=
               map_put (substr pair 0 pos) (substr_from pair (Suc pos)) (tm_metadata message)\<rparr>)
      else
        (case find_char (CHR ''='') line of
           None \<Rightarrow> message
         | Some pos \<Rightarrow>
             (let key = substr line 0 pos; value = substr_from line (Suc pos) in
              if key = ''task_id'' then message\<lparr>tm_task_id := value\<rparr>
              else if key = ''kind'' then message\<lparr>tm_kind := value\<rparr>
              else if key = ''source_node'' then message\<lparr>tm_source_node := value\<rparr>
              else if key = ''target_node'' then message\<lparr>tm_target_node := value\<rparr>
              else if key = ''description'' then message\<lparr>tm_description := value\<rparr>
              else message)))"

definition TaskMessage_Deserialize :: "ByteBuffer \<Rightarrow> TaskMessage" where
  "TaskMessage_Deserialize payload =
     foldl TaskMessage_line TaskMessage_default (getlines (StringFromBytes payload))"

definition TaskMessage_DeserializePtr :: "ByteBufferPtr \<Rightarrow> 'w machine_scheme \<Rightarrow> TaskMessage" where
  "TaskMessage_DeserializePtr payload m =
     (case payload of None \<Rightarrow> TaskMessage_default | Some a \<Rightarrow> TaskMessage_Deserialize (cells m a))"

definition TaskMessage_lines :: "TaskMessage \<Rightarrow> string list" where
  "TaskMessage_lines m =
     [''task_id='' @ tm_task_id m, ''kind='' @ tm_kind m, ''source_node='' @ tm_source_node m,
      ''target_node='' @ tm_target_node m, ''description='' @ tm_description m]
     @ map meta_line (tm_metadata m)"

text \<open>The messages the format can carry: no newline in any field, metadata as a
  \<open>std::map\<close> keeps it, no \<open>=\<close> in a metadata key.\<close>

definition TaskMessage_ok :: "TaskMessage \<Rightarrow> bool" where
  "TaskMessage_ok m \<longleftrightarrow>
     NL \<notin> set (tm_task_id m) \<and> NL \<notin> set (tm_kind m) \<and> NL \<notin> set (tm_source_node m) \<and>
     NL \<notin> set (tm_target_node m) \<and> NL \<notin> set (tm_description m) \<and> metadata_ok (tm_metadata m)"

lemma meta_lines_concat:
  "concat (map (\<lambda>(key, value). ''meta:'' @ key @ ''='' @ value @ [NL]) md) =
   concat (map (\<lambda>l. l @ [NL]) (map meta_line md))"
  by (induction md) (auto simp: meta_line_def)

lemma TaskMessage_line_meta:
  assumes "CHR ''='' \<notin> set (fst kv)"
  shows "TaskMessage_line m (meta_line kv) =
         m\<lparr>tm_metadata := map_put (fst kv) (snd kv) (tm_metadata m)\<rparr>"
  using assms
  by (simp add: TaskMessage_line_def meta_line_def substr_from_def substr_def find_char_append
      starts_with_def)

lemma TaskMessage_meta_replay:
  "\<forall>(k, v) \<in> set md. CHR ''='' \<notin> set k \<Longrightarrow>
   foldl TaskMessage_line m (map meta_line md) =
   m\<lparr>tm_metadata := foldl (\<lambda>acc (k, v). map_put k v acc) (tm_metadata m) md\<rparr>"
proof (induction md arbitrary: m)
  case (Cons kv md)
  then show ?case by (auto simp: TaskMessage_line_meta case_prod_beta)
qed simp

lemma TaskMessage_line_field:
  "TaskMessage_line m (''task_id='' @ v) = m\<lparr>tm_task_id := v\<rparr>"
  "TaskMessage_line m (''kind='' @ v) = m\<lparr>tm_kind := v\<rparr>"
  "TaskMessage_line m (''source_node='' @ v) = m\<lparr>tm_source_node := v\<rparr>"
  "TaskMessage_line m (''target_node='' @ v) = m\<lparr>tm_target_node := v\<rparr>"
  "TaskMessage_line m (''description='' @ v) = m\<lparr>tm_description := v\<rparr>"
  by (simp_all add: TaskMessage_line_def starts_with_def substr_def substr_from_def)

lemma TaskMessage_replay:
  assumes "TaskMessage_ok m"
  shows "foldl TaskMessage_line TaskMessage_default (TaskMessage_lines m) = m"
proof -
  have "map_ok (tm_metadata m)" "\<forall>(k, v) \<in> set (tm_metadata m). CHR ''='' \<notin> set k"
    using assms by (auto simp: TaskMessage_ok_def metadata_ok_def)
  then show ?thesis
    by (simp only: TaskMessage_lines_def foldl_append foldl.simps TaskMessage_line_field
        TaskMessage_meta_replay) (simp add: TaskMessage_default_def map_put_rebuild)
qed

lemma TaskMessage_line_ok:
  assumes "TaskMessage_ok m" "NL \<notin> set line"
  shows "TaskMessage_ok (TaskMessage_line m line)"
proof -
  have sub: "NL \<notin> set (substr_from line n)" for n
    using assms(2) by (auto simp: substr_from_def dest: in_set_dropD)
  show ?thesis
    using assms cut_at_eq [OF _ assms(2)] cut_at_eq [OF _ sub]
    by (auto simp: TaskMessage_line_def Let_def TaskMessage_ok_def metadata_ok_put
        split: option.split)
qed

interpretation task_codec: line_codec TaskMessage_Serialize TaskMessage_Deserialize
  TaskMessage_lines TaskMessage_line TaskMessage_default TaskMessage_ok
proof unfold_locales
  show "TaskMessage_Serialize m =
        BytesFromString (concat (map (\<lambda>l. l @ [NL]) (TaskMessage_lines m)))" for m
    unfolding TaskMessage_Serialize_def TaskMessage_lines_def meta_lines_concat by simp
  show "TaskMessage_ok m \<Longrightarrow> l \<in> set (TaskMessage_lines m) \<Longrightarrow> NL \<notin> set l" for m l
    using metadata_ok_no_NL [of "tm_metadata m" l]
    by (auto simp: TaskMessage_ok_def TaskMessage_lines_def)
qed (auto simp: TaskMessage_Deserialize_def TaskMessage_replay TaskMessage_line_ok,
    simp add: TaskMessage_ok_def TaskMessage_default_def)

section \<open>ResultMessage\<close>

record ResultMessage =
  rm_task_id :: string
  rm_worker_node :: string
  rm_target_node :: string
  rm_success :: bool
  rm_detail :: string
  rm_metadata :: str_map

definition ResultMessage_default :: ResultMessage where
  "ResultMessage_default =
     \<lparr>rm_task_id = [], rm_worker_node = [], rm_target_node = [], rm_success = False,
      rm_detail = [], rm_metadata = []\<rparr>"

definition ResultMessage_Serialize :: "ResultMessage \<Rightarrow> ByteBuffer" where
  "ResultMessage_Serialize m =
     BytesFromString
       (''task_id='' @ rm_task_id m @ [NL]
        @ ''worker_node='' @ rm_worker_node m @ [NL]
        @ ''target_node='' @ rm_target_node m @ [NL]
        @ ''success='' @ (if rm_success m then ''1'' else ''0'') @ [NL]
        @ ''detail='' @ rm_detail m @ [NL]
        @ concat (map (\<lambda>(key, value). ''meta:'' @ key @ ''='' @ value @ [NL]) (rm_metadata m)))"

definition ResultMessage_line :: "ResultMessage \<Rightarrow> string \<Rightarrow> ResultMessage" where
  "ResultMessage_line message line =
     (if line = [] then message
      else if starts_with ''meta:'' line then
        (let pair = substr_from line 5 in
         case find_char (CHR ''='') pair of
           None \<Rightarrow> message
         | Some pos \<Rightarrow>
             message\<lparr>rm_metadata :=
               map_put (substr pair 0 pos) (substr_from pair (Suc pos)) (rm_metadata message)\<rparr>)
      else
        (case find_char (CHR ''='') line of
           None \<Rightarrow> message
         | Some pos \<Rightarrow>
             (let key = substr line 0 pos; value = substr_from line (Suc pos) in
              if key = ''task_id'' then message\<lparr>rm_task_id := value\<rparr>
              else if key = ''worker_node'' then message\<lparr>rm_worker_node := value\<rparr>
              else if key = ''target_node'' then message\<lparr>rm_target_node := value\<rparr>
              else if key = ''success'' then message\<lparr>rm_success := (value = ''1'')\<rparr>
              else if key = ''detail'' then message\<lparr>rm_detail := value\<rparr>
              else message)))"

definition ResultMessage_Deserialize :: "ByteBuffer \<Rightarrow> ResultMessage" where
  "ResultMessage_Deserialize payload =
     foldl ResultMessage_line ResultMessage_default (getlines (StringFromBytes payload))"

definition ResultMessage_DeserializePtr :: "ByteBufferPtr \<Rightarrow> 'w machine_scheme \<Rightarrow> ResultMessage" where
  "ResultMessage_DeserializePtr payload m =
     (case payload of None \<Rightarrow> ResultMessage_default | Some a \<Rightarrow> ResultMessage_Deserialize (cells m a))"

definition ResultMessage_lines :: "ResultMessage \<Rightarrow> string list" where
  "ResultMessage_lines m =
     [''task_id='' @ rm_task_id m, ''worker_node='' @ rm_worker_node m,
      ''target_node='' @ rm_target_node m, ''success='' @ (if rm_success m then ''1'' else ''0''),
      ''detail='' @ rm_detail m]
     @ map meta_line (rm_metadata m)"

definition ResultMessage_ok :: "ResultMessage \<Rightarrow> bool" where
  "ResultMessage_ok m \<longleftrightarrow>
     NL \<notin> set (rm_task_id m) \<and> NL \<notin> set (rm_worker_node m) \<and> NL \<notin> set (rm_target_node m) \<and>
     NL \<notin> set (rm_detail m) \<and> metadata_ok (rm_metadata m)"

lemma ResultMessage_line_meta:
  assumes "CHR ''='' \<notin> set (fst kv)"
  shows "ResultMessage_line m (meta_line kv) =
         m\<lparr>rm_metadata := map_put (fst kv) (snd kv) (rm_metadata m)\<rparr>"
  using assms
  by (simp add: ResultMessage_line_def meta_line_def substr_from_def substr_def find_char_append
      starts_with_def)

lemma ResultMessage_meta_replay:
  "\<forall>(k, v) \<in> set md. CHR ''='' \<notin> set k \<Longrightarrow>
   foldl ResultMessage_line m (map meta_line md) =
   m\<lparr>rm_metadata := foldl (\<lambda>acc (k, v). map_put k v acc) (rm_metadata m) md\<rparr>"
proof (induction md arbitrary: m)
  case (Cons kv md)
  then show ?case by (auto simp: ResultMessage_line_meta case_prod_beta)
qed simp

lemma ResultMessage_line_field:
  "ResultMessage_line m (''task_id='' @ v) = m\<lparr>rm_task_id := v\<rparr>"
  "ResultMessage_line m (''worker_node='' @ v) = m\<lparr>rm_worker_node := v\<rparr>"
  "ResultMessage_line m (''target_node='' @ v) = m\<lparr>rm_target_node := v\<rparr>"
  "ResultMessage_line m (''success='' @ v) = m\<lparr>rm_success := (v = ''1'')\<rparr>"
  "ResultMessage_line m (''detail='' @ v) = m\<lparr>rm_detail := v\<rparr>"
  by (simp_all add: ResultMessage_line_def starts_with_def substr_def substr_from_def)

lemma ResultMessage_replay:
  assumes "ResultMessage_ok m"
  shows "foldl ResultMessage_line ResultMessage_default (ResultMessage_lines m) = m"
proof -
  have "map_ok (rm_metadata m)" "\<forall>(k, v) \<in> set (rm_metadata m). CHR ''='' \<notin> set k"
    using assms by (auto simp: ResultMessage_ok_def metadata_ok_def)
  then show ?thesis
    by (simp only: ResultMessage_lines_def foldl_append foldl.simps ResultMessage_line_field
        ResultMessage_meta_replay) (simp add: ResultMessage_default_def map_put_rebuild)
qed

lemma ResultMessage_line_ok:
  assumes "ResultMessage_ok m" "NL \<notin> set line"
  shows "ResultMessage_ok (ResultMessage_line m line)"
proof -
  have sub: "NL \<notin> set (substr_from line n)" for n
    using assms(2) by (auto simp: substr_from_def dest: in_set_dropD)
  show ?thesis
    using assms cut_at_eq [OF _ assms(2)] cut_at_eq [OF _ sub]
    by (auto simp: ResultMessage_line_def Let_def ResultMessage_ok_def metadata_ok_put
        split: option.split)
qed

interpretation result_codec: line_codec ResultMessage_Serialize ResultMessage_Deserialize
  ResultMessage_lines ResultMessage_line ResultMessage_default ResultMessage_ok
proof unfold_locales
  show "ResultMessage_Serialize m =
        BytesFromString (concat (map (\<lambda>l. l @ [NL]) (ResultMessage_lines m)))" for m
    unfolding ResultMessage_Serialize_def ResultMessage_lines_def meta_lines_concat by simp
  show "ResultMessage_ok m \<Longrightarrow> l \<in> set (ResultMessage_lines m) \<Longrightarrow> NL \<notin> set l" for m l
    using metadata_ok_no_NL [of "rm_metadata m" l]
    by (auto simp: ResultMessage_ok_def ResultMessage_lines_def split: if_splits)
qed (auto simp: ResultMessage_Deserialize_def ResultMessage_replay ResultMessage_line_ok,
    simp add: ResultMessage_ok_def ResultMessage_default_def)

section \<open>Properties\<close>

text \<open>A task and a result with every field in use.\<close>

definition sample_task :: TaskMessage where
  "sample_task =
     \<lparr>tm_task_id = ''t-1'', tm_kind = ''infer'', tm_source_node = ''a'', tm_target_node = ''b'',
      tm_description = ''x=y'', tm_metadata = [(''k'', ''v=w''), (''m'', '''')]\<rparr>"

definition sample_result :: ResultMessage where
  "sample_result =
     \<lparr>rm_task_id = ''t-1'', rm_worker_node = ''b'', rm_target_node = ''a'', rm_success = True,
      rm_detail = ''done'', rm_metadata = [(''k'', ''v'')]\<rparr>"

lemma sample_task_ok: "TaskMessage_ok sample_task"
  by (simp add: TaskMessage_ok_def sample_task_def metadata_ok_def less_char_def)

lemma sample_result_ok: "ResultMessage_ok sample_result"
  by (simp add: ResultMessage_ok_def sample_result_def metadata_ok_def)



text \<open>
  A result message without newlines (and without \<open>=\<close> in a metadata key) survives
  \<open>Serialize\<close> and \<open>Deserialize\<close> unchanged, its success flag and metadata included.
\<close>

theorem result_message_roundtrip:
  assumes "ResultMessage_ok m"
  shows "ResultMessage_Deserialize (ResultMessage_Serialize m) = m \<and>
    (\<forall>m'. ResultMessage_ok m' \<and> ResultMessage_Serialize m' = ResultMessage_Serialize m \<longrightarrow> m' = m)"
  using result_codec.roundtrip [OF assms] result_codec.serialize_inject [OF _ assms] by blast

theorem result_message_roundtrip_witness:
  "ResultMessage_Deserialize (ResultMessage_Serialize sample_result) = sample_result"
  using result_message_roundtrip [OF sample_result_ok] by blast

text \<open>
  Deserialisation is total and canonical: whatever bytes arrive, the parsed message can be
  carried by the format, and sending it on and parsing it again gives the same message.
\<close>

theorem deserialize_canonical:
  "TaskMessage_ok (TaskMessage_Deserialize p) \<and>
   TaskMessage_Deserialize (TaskMessage_Serialize (TaskMessage_Deserialize p)) = TaskMessage_Deserialize p \<and>
   ResultMessage_ok (ResultMessage_Deserialize p) \<and>
   ResultMessage_Deserialize (ResultMessage_Serialize (ResultMessage_Deserialize p)) = ResultMessage_Deserialize p"
  by (simp add: task_codec.deserialize_ok task_codec.canonical result_codec.deserialize_ok result_codec.canonical)

text \<open>
  Fields are not escaped: a description that contains a newline followed by
  \<open>target_node=\<close> and a name overwrites the message's target node when the message is
  parsed, and the rest of the description is lost.
\<close>

theorem newline_in_description_overwrites_target:
  assumes "TaskMessage_ok m" "NL \<notin> set evil"
  shows "TaskMessage_Deserialize (TaskMessage_Serialize
           (m\<lparr>tm_description := tm_description m @ [NL] @ ''target_node='' @ evil\<rparr>)) =
         m\<lparr>tm_target_node := evil\<rparr>"
proof -
  let ?bad = "m\<lparr>tm_description := tm_description m @ [NL] @ ''target_node='' @ evil\<rparr>"
  let ?pre = "[''task_id='' @ tm_task_id m, ''kind='' @ tm_kind m, ''source_node='' @ tm_source_node m,
      ''target_node='' @ tm_target_node m, ''description='' @ tm_description m]"
  let ?ls = "?pre @ (''target_node='' @ evil) # map meta_line (tm_metadata m)"
  have "TaskMessage_Serialize ?bad = BytesFromString (concat (map (\<lambda>l. l @ [NL]) ?ls))"
    unfolding TaskMessage_Serialize_def meta_lines_concat by simp
  moreover have "\<forall>l \<in> set ?ls. NL \<notin> set l"
    using assms metadata_ok_no_NL [of "tm_metadata m"] by (auto simp: TaskMessage_ok_def)
  ultimately have "TaskMessage_Deserialize (TaskMessage_Serialize ?bad) = foldl TaskMessage_line TaskMessage_default ?ls"
    by (simp only: TaskMessage_Deserialize_def String_Bytes_String getlines_concat)
  moreover have "map_ok (tm_metadata m)" "\<forall>(k, v) \<in> set (tm_metadata m). CHR ''='' \<notin> set k"
    using assms(1) by (auto simp: TaskMessage_ok_def metadata_ok_def)
  ultimately show ?thesis
    by (simp only: foldl_append foldl.simps TaskMessage_line_field TaskMessage_meta_replay)
      (simp add: TaskMessage_default_def map_put_rebuild)
qed

theorem newline_in_description_overwrites_target_witness:
  "TaskMessage_Deserialize (TaskMessage_Serialize
     (sample_task\<lparr>tm_description := tm_description sample_task @ [NL] @ ''target_node='' @ ''mallory''\<rparr>)) =
   sample_task\<lparr>tm_target_node := ''mallory''\<rparr>"
  by (rule newline_in_description_overwrites_target [OF sample_task_ok]) simp

lemma result_as_task:
  assumes "ResultMessage_ok r"
  shows "TaskMessage_Deserialize (ResultMessage_Serialize r) =
    TaskMessage_default\<lparr>tm_task_id := rm_task_id r, tm_target_node := rm_target_node r,
                        tm_metadata := rm_metadata r\<rparr>"
proof -
  have other: "TaskMessage_line m (''worker_node='' @ v) = m" "TaskMessage_line m (''success='' @ v) = m"
    "TaskMessage_line m (''detail='' @ v) = m" for m v
    by (simp_all add: TaskMessage_line_def starts_with_def substr_def substr_from_def)
  have "getlines (StringFromBytes (ResultMessage_Serialize r)) = ResultMessage_lines r"
    using result_codec.lines_no_NL [OF assms]
    by (simp add: result_codec.serialize_lines getlines_concat)
  moreover have "map_ok (rm_metadata r)" "\<forall>(k, v) \<in> set (rm_metadata r). CHR ''='' \<notin> set k"
    using assms by (auto simp: ResultMessage_ok_def metadata_ok_def)
  ultimately show ?thesis
    by (simp only: TaskMessage_Deserialize_def ResultMessage_lines_def foldl_append foldl.simps
        TaskMessage_line_field other TaskMessage_meta_replay)
      (simp add: TaskMessage_default_def map_put_rebuild)
qed

text \<open>
  The format does not say which kind of message it carries: a result parsed as a task gives
  a task with the result's id, target node and metadata and no kind, source or description.
\<close>

theorem result_parsed_as_task:
  assumes "ResultMessage_ok r"
  shows "TaskMessage_Deserialize (ResultMessage_Serialize r) =
    TaskMessage_default\<lparr>tm_task_id := rm_task_id r, tm_target_node := rm_target_node r,
                        tm_metadata := rm_metadata r\<rparr>"
  by (rule result_as_task [OF assms])

theorem result_parsed_as_task_witness:
  "TaskMessage_Deserialize (ResultMessage_Serialize sample_result) =
    TaskMessage_default\<lparr>tm_task_id := ''t-1'', tm_target_node := ''a'', tm_metadata := [(''k'', ''v'')]\<rparr>"
  using result_parsed_as_task [OF sample_result_ok] by (simp add: sample_result_def)

end
