(* ===== verification/Rdma_Peers.thy ===== *)
theory Rdma_Peers
  imports Rdma_Transport Rdma_Messages
begin

text \<open>
  \<open>RdmaServer\<close>, \<open>WorkerSession\<close> and \<open>WorkerRuntime\<close> each keep a table of peers and an
  \<open>EnsurePeer\<close> that connects a peer on first use. The locale \<open>peer_table\<close> is what the three
  share; the theories of the three components interpret it. This theory also holds the
  view of an inbox as the list of tasks it carries.
\<close>

section \<open>The contract of a peer table\<close>

locale peer_table =
  fixes ensure :: "string \<Rightarrow> 's \<Rightarrow> 'w \<Rightarrow> 'c \<times> 's \<times> 'w"
    and peers :: "'s \<Rightarrow> (string \<rightharpoonup> 'c)"
    and node :: "'s \<Rightarrow> string"
    and fresh :: "string \<Rightarrow> string \<Rightarrow> 'c"
  assumes ensure_hit: "peers s k = Some c \<Longrightarrow> ensure k s w = (c, s, w)"
    and ensure_miss: "peers s k = None \<Longrightarrow> fst (ensure k s w) = fresh (node s) k"
    and peers_miss: "peers s k = None \<Longrightarrow>
      peers (fst (snd (ensure k s w))) = (peers s)(k \<mapsto> fresh (node s) k)"
    and node_ensure: "node (fst (snd (ensure k s w))) = node s"
begin

definition peers_ok :: "'s \<Rightarrow> bool" where
  "peers_ok s \<longleftrightarrow> (\<forall>k c. peers s k = Some c \<longrightarrow> c = fresh (node s) k)"

lemma ensure_fresh: "peers_ok s \<Longrightarrow> fst (ensure k s w) = fresh (node s) k"
  using ensure_hit [of s k] ensure_miss [of s k] by (cases "peers s k") (auto simp: peers_ok_def)

lemma ensure_ok: "peers_ok s \<Longrightarrow> peers_ok (fst (snd (ensure k s w)))"
  using ensure_hit [of s k] peers_miss [of s k w] node_ensure [of k s w]
  by (cases "peers s k") (auto simp: peers_ok_def)

lemma ensure_peers:
  "peers_ok s \<Longrightarrow> peers (fst (snd (ensure k s w))) = (peers s)(k \<mapsto> fresh (node s) k)"
  using ensure_hit [of s k] peers_miss [of s k w]
  by (cases "peers s k") (auto simp: peers_ok_def fun_upd_idem)

lemma ensure_again:
  "ensure k s w = (c, s', w') \<Longrightarrow> peers s' k = Some c \<and> ensure k s' w'' = (c, s', w'')"
  using ensure_hit [of s k] ensure_hit [of s' k] ensure_miss [of s k w] peers_miss [of s k w]
  by (cases "peers s k") auto

end

section \<open>Peers over connections\<close>

definition peer_config :: "string \<Rightarrow> string \<Rightarrow> QueuePairConfig" where
  "peer_config local remote =
     \<lparr>local_node = local, remote_node = remote, max_send_wr = 256, max_recv_wr = 256\<rparr>"

definition ready_qp :: "string \<Rightarrow> string \<Rightarrow> QueuePair" where
  "ready_qp local remote = \<lparr>qp_config = peer_config local remote, qp_state = kReadyToSend\<rparr>"

definition ready_connection :: "string \<Rightarrow> string \<Rightarrow> Connection" where
  "ready_connection local remote = \<lparr>queue_pair = ready_qp local remote, established = True\<rparr>"

lemma ready_qp_simps [simp]:
  "qp_state (ready_qp l r) = kReadyToSend" "local_node (qp_config (ready_qp l r)) = l"
  "remote_node (qp_config (ready_qp l r)) = r"
  by (simp_all add: ready_qp_def peer_config_def)

lemma ready_connection_qp [simp]: "queue_pair (ready_connection l r) = ready_qp l r"
  by (simp add: ready_connection_def)

lemma establish_ready:
  "snd (Connection_Establish (Connection_new (QueuePair_new (peer_config l r)))) = ready_connection l r"
  by (simp add: Establish_eq Connection_new_def QueuePair_new_def ready_connection_def ready_qp_def)

section \<open>Heap growth\<close>

text \<open>What every operation of the library, and everything other threads do with it,
  does to the heap: cells are added, none is taken away.\<close>

definition heap_mono :: "'w machine_scheme \<Rightarrow> 'w machine_scheme \<Rightarrow> bool" where
  "heap_mono w w' \<longleftrightarrow> args_ltr w' = args_ltr w \<and> next_cell w \<le> next_cell w'"

lemma heap_mono_refl [simp]: "heap_mono w w"
  by (simp add: heap_mono_def)

lemma heap_mono_trans: "heap_mono a b \<Longrightarrow> heap_mono b c \<Longrightarrow> heap_mono a c"
  by (auto simp: heap_mono_def)

lemma registry_ok_mono: "registry_ok n r w \<Longrightarrow> heap_mono w w' \<Longrightarrow> registry_ok n r w'"
  by (auto simp: heap_mono_def intro: registry_ok_machine)

lemma PostSend_heap:
  assumes "TransportRdma_PostSend t qp msg cq w = (cq', w')"
  shows "heap_mono w w'" "cells w' = cells w" "next_cell w' = next_cell w"
proof -
  have "cells w' = cells w \<and> next_cell w' = next_cell w \<and> args_ltr w' = args_ltr w"
    using PostSend_ready(3,4,6) [OF _ assms] PostSend_refused(3,4,6) [OF _ assms] by blast
  then show "heap_mono w w'" "cells w' = cells w" "next_cell w' = next_cell w"
    by (simp_all add: heap_mono_def)
qed

lemma Connect_heap: "heap_mono w (TransportRdma_Connect t qp w)"
  by (simp add: heap_mono_def)

lemma PollReceive_heap:
  assumes "\<And>e v. e \<in> set others \<Longrightarrow> heap_mono v (e v)"
    "TransportRdma_PollReceive others t node w = (res, w')"
  shows "heap_mono w w'"
proof -
  define w0 where "w0 = set_transport t ((transports w t)\<lparr>inboxes := emplace node [] (inboxes (transports w t))\<rparr>) w"
  obtain ok w1 where wait: "cv_wait_for (\<lambda>w. case inboxes (transports w t) node of None \<Rightarrow> False
      | Some q \<Rightarrow> q \<noteq> []) others w0 = (ok, w1)" by (metis surj_pair)
  have "heap_mono w w1"
  proof (rule cv_wait_for_inv [OF wait])
    show "heap_mono w w0" by (simp add: w0_def heap_mono_def)
    show "heap_mono w (e v)" if "e \<in> set others" "heap_mono w v" for e v
      using heap_mono_trans [OF that(2) assms(1) [OF that(1)]] .
  qed
  moreover have "next_cell w' = next_cell w1 \<and> args_ltr w' = args_ltr w1"
    using assms(2) wait unfolding TransportRdma_PollReceive_def Let_def w0_def
    by (auto split: if_splits)
  ultimately show ?thesis by (simp add: heap_mono_def)
qed

section \<open>An inbox as a list of tasks\<close>

text \<open>Every message of the inbox has a payload in the heap.\<close>

definition inbox_valid :: "nat \<Rightarrow> string \<Rightarrow> 'w rdma_world_scheme \<Rightarrow> bool" where
  "inbox_valid t node w \<longleftrightarrow>
     (\<forall>msg \<in> set (inbox_of node (transports w t)). \<exists>a < next_cell w. msg_payload msg = Some a)"

definition inbox_tasks :: "nat \<Rightarrow> string \<Rightarrow> 'w rdma_world_scheme \<Rightarrow> TaskMessage list" where
  "inbox_tasks t node w =
     map (\<lambda>msg. TaskMessage_DeserializePtr (msg_payload msg) w) (inbox_of node (transports w t))"

lemma inbox_tasks_extend:
  assumes "inbox_valid t node w" "cells w' = (cells w)(next_cell w := b)"
    "set xs \<subseteq> set (inbox_of node (transports w t))"
  shows "map (\<lambda>msg. TaskMessage_DeserializePtr (msg_payload msg) w') xs =
         map (\<lambda>msg. TaskMessage_DeserializePtr (msg_payload msg) w) xs"
proof (rule map_cong [OF refl])
  fix msg assume "msg \<in> set xs"
  then obtain a where "a < next_cell w" "msg_payload msg = Some a"
    using assms(1,3) by (auto simp: inbox_valid_def)
  then show "TaskMessage_DeserializePtr (msg_payload msg) w' = TaskMessage_DeserializePtr (msg_payload msg) w"
    by (simp add: TaskMessage_DeserializePtr_def assms(2))
qed

section \<open>Sending a freshly allocated payload\<close>

lemma make_shared_transports [simp]: "transports (snd (make_shared b w)) = transports w"
  by (simp add: make_shared_def)

lemma Register_world:
  assumes "MemoryRegistry_Register b r w = (g, r', w')"
  shows "w' = snd (make_shared b w)" "mr_storage g = Some (next_cell w)"
  using Register_simps(2,3) [of b r w] assms by simp_all

text \<open>Allocate a buffer, send a message that points to it: the heap grows by that buffer, the
  completion reports its length, the message is at the back of the peer's inbox.\<close>

lemma send_new_payload:
  assumes "qp_state qp = kReadyToSend" "msg_payload msg = Some (next_cell w)"
    "TransportRdma_PostSend t qp msg cq (snd (make_shared b w)) = (cq', w')"
  shows "cells w' = (cells w)(next_cell w := b)" "next_cell w' = Suc (next_cell w)" "heap_mono w w'"
    "clock w' = clock w"
    "cq' = CompletionQueue_locked_push (send_completion qp msg (snd (make_shared b w))) cq"
    "ce_bytes (send_completion qp msg (snd (make_shared b w))) = length b"
    "transports w' = (transports w)(t :=
       TransportRdma_locked_deliver (remote_node (qp_config qp)) (addressed qp msg) (transports w t))"
  using PostSend_ready [OF assms(1,3)]
  by (simp_all add: make_shared_simps heap_mono_def send_completion_def Message_size_def buf_size_def assms(2))

lemma keep_last_map: "keep_last cap (map f xs) = map f (keep_last cap xs)"
  by (simp add: keep_last_def drop_map)

lemma keep_last_subset: "set (keep_last cap xs) \<subseteq> set xs"
  by (auto simp: keep_last_def dest: in_set_dropD)

lemma send_new_task:
  assumes "qp_state qp = kReadyToSend" "msg_payload msg = Some (next_cell w)"
    "TransportRdma_PostSend t qp msg cq (snd (make_shared (TaskMessage_Serialize task) w)) = (cq', w')"
    "TaskMessage_ok task" "remote_node (qp_config qp) = node"
    "inbox_valid t node w" "fits (tr_cap (transports w t)) (length (inbox_of node (transports w t)))"
  shows "inbox_valid t node w'"
    "inbox_tasks t node w' = keep_last (tr_cap (transports w t)) (inbox_tasks t node w @ [task])"
    "tr_cap (transports w' t) = tr_cap (transports w t)"
    "fits (tr_cap (transports w t)) (length (inbox_of node (transports w' t)))"
proof -
  note eff = send_new_payload [OF assms(1-3)]
  let ?cap = "tr_cap (transports w t)" and ?old = "inbox_of node (transports w t)"
  have new: "inbox_of node (transports w' t) = keep_last ?cap (?old @ [addressed qp msg])"
    using inbox_fifo.push_keep_last [of node "transports w t" "addressed qp msg"] assms(5,7)
    by (simp add: eff(7) inbox_fifo.within_def)
  show "tr_cap (transports w' t) = ?cap" by (simp add: eff(7))
  show "fits ?cap (length (inbox_of node (transports w' t)))" by (simp add: new)
  show "inbox_valid t node w'"
    using assms(2,6) keep_last_subset [of ?cap "?old @ [addressed qp msg]"]
    by (fastforce simp: inbox_valid_def new eff(2) less_Suc_eq)
  have old: "map (\<lambda>msg. TaskMessage_DeserializePtr (msg_payload msg) w') ?old = inbox_tasks t node w"
    unfolding inbox_tasks_def by (rule inbox_tasks_extend [OF assms(6) eff(1)]) simp
  have "TaskMessage_DeserializePtr (msg_payload (addressed qp msg)) w' = task"
    by (simp add: TaskMessage_DeserializePtr_def assms(2) eff(1) task_codec.roundtrip [OF assms(4)])
  with old show "inbox_tasks t node w' = keep_last ?cap (inbox_tasks t node w @ [task])"
    by (simp add: inbox_tasks_def [of t node w'] new keep_last_map [symmetric])
qed

end
