(* ===== verification/Rdma_Buffer_Pool.thy ===== *)
theory Rdma_Buffer_Pool
  imports Rdma_Memory
begin

text \<open>
  The pool of registered buffers of \<open>rdma/src/buffer_pool.cpp\<close>. The pool keeps a pointer
  to the registry it was built on; the model passes that registry (and the heap) along
  with the pool. A run of the pool is a derivation of \<open>pool_reach\<close>: users acquire
  buffers, write into the ones they hold, and release them, while other code registers
  regions in the same registry.
\<close>

record BufferPool =
  bp_config :: BufferPoolConfig
  free_keys :: "string list"
  known_keys :: "string set"

text \<open>The constructor's loop.\<close>

fun BufferPool_fill ::
    "nat \<Rightarrow> BufferPool \<Rightarrow> MemoryRegistry \<Rightarrow> 'w machine_scheme
       \<Rightarrow> BufferPool \<times> MemoryRegistry \<times> 'w machine_scheme" where
  "BufferPool_fill 0 p r m = (p, r, m)"
| "BufferPool_fill (Suc i) p r m =
     (let (region, r1, m1) = MemoryRegistry_RegisterSize (buffer_size (bp_config p)) r m
      in BufferPool_fill i
           (p\<lparr>free_keys := free_keys p @ [mr_key region],
              known_keys := insert (mr_key region) (known_keys p)\<rparr>) r1 m1)"

definition BufferPool_new ::
    "BufferPoolConfig \<Rightarrow> MemoryRegistry \<Rightarrow> 'w machine_scheme
       \<Rightarrow> BufferPool \<times> MemoryRegistry \<times> 'w machine_scheme" where
  "BufferPool_new config r m =
     BufferPool_fill (buffers config) \<lparr>bp_config = config, free_keys = [], known_keys = {}\<rparr> r m"

definition BufferPool_Acquire ::
    "BufferPool \<Rightarrow> MemoryRegistry \<Rightarrow> 'w machine_scheme
       \<Rightarrow> (rdma_error + MemoryRegion) \<times> BufferPool \<times> MemoryRegistry \<times> 'w machine_scheme" where
  "BufferPool_Acquire p r m =
     (case free_keys p of
        [] \<Rightarrow>
          (let (region, r1, m1) = MemoryRegistry_RegisterSize (buffer_size (bp_config p)) r m
           in (Inr region, p\<lparr>known_keys := insert (mr_key region) (known_keys p)\<rparr>, r1, m1))
      | key # rest \<Rightarrow>
          (let p1 = p\<lparr>free_keys := rest\<rparr> in
           case MemoryRegistry_Lookup key r of
             Inl e \<Rightarrow> (Inl e, p1, r, m)
           | Inr region \<Rightarrow>
               (case mr_storage region of
                  None \<Rightarrow> (Inr region, p1, r, m)
                | Some a \<Rightarrow>
                    (Inr region, p1, r,
                     if length (cells m a) \<noteq> buffer_size (bp_config p)
                     then resize_at a (buffer_size (bp_config p)) m else m))))"

definition BufferPool_Release ::
    "string \<Rightarrow> BufferPool \<Rightarrow> MemoryRegistry \<Rightarrow> 'w machine_scheme
       \<Rightarrow> (rdma_error + unit) \<times> BufferPool \<times> 'w machine_scheme" where
  "BufferPool_Release key p r m =
     (if key \<notin> known_keys p then (Inr (), p, m)
      else if key \<in> set (free_keys p) then (Inr (), p, m)
      else case MemoryRegistry_Lookup key r of
             Inl e \<Rightarrow> (Inl e, p, m)
           | Inr region \<Rightarrow>
               (Inr (), p\<lparr>free_keys := free_keys p @ [key]\<rparr>,
                case mr_storage region of
                  None \<Rightarrow> m
                | Some a \<Rightarrow> resize_at a (buffer_size (bp_config p)) m))"

definition BufferPool_Available :: "BufferPool \<Rightarrow> nat" where
  "BufferPool_Available p = length (free_keys p)"

section \<open>Invariant\<close>

definition pool_ok :: "nat \<Rightarrow> BufferPool \<Rightarrow> MemoryRegistry \<Rightarrow> 'w machine_scheme \<Rightarrow> bool" where
  "pool_ok n p r m \<longleftrightarrow>
     registry_ok n r m \<and> distinct (free_keys p) \<and> set (free_keys p) \<subseteq> known_keys p \<and>
     known_keys p \<subseteq> dom (regions r)"

lemma pool_ok_machine:
  "pool_ok n p r m \<Longrightarrow> args_ltr m' = args_ltr m \<Longrightarrow> next_cell m \<le> next_cell m' \<Longrightarrow> pool_ok n p r m'"
  by (auto simp: pool_ok_def intro: registry_ok_machine)

text \<open>Registering, in one step: the counter, the new key, the new heap cell.\<close>

lemma RegisterSize_step:
  assumes "registry_ok n r m" "Suc n < 2 ^ 64" "MemoryRegistry_Register b r m = (g, r', m')"
  shows "registry_ok (Suc n) r' m'" "mr_key g = region_key (Suc n)"
    "regions r' = (regions r)(region_key (Suc n) \<mapsto> g)" "region_key (Suc n) \<notin> dom (regions r)"
    "mr_storage g = Some (next_cell m)" "cells m' (next_cell m) = b"
    "args_ltr m' = args_ltr m" "next_cell m' = Suc (next_cell m)"
proof -
  show "registry_ok (Suc n) r' m'" by (rule Register_ok [OF assms])
  show "mr_key g = region_key (Suc n)" using Register_key [OF assms(1,2), of b] assms(3) by simp
  show "regions r' = (regions r)(region_key (Suc n) \<mapsto> g)"
    using Register_regions [OF assms(1,2), of b] assms(3) by simp
  show "region_key (Suc n) \<notin> dom (regions r)" using registry_fresh [OF assms(1)] by auto
  show "mr_storage g = Some (next_cell m)" using Register_simps(2) [of b r m] assms(3) by simp
  have "m' = snd (make_shared b m)" using Register_simps(3) [of b r m] assms(3) by simp
  then show "cells m' (next_cell m) = b" "args_ltr m' = args_ltr m" "next_cell m' = Suc (next_cell m)"
    by (simp_all add: make_shared_simps)
qed

lemma BufferPool_fill_ok:
  assumes "pool_ok n p r m" "n + i < 2 ^ 64" "known_keys p = set (free_keys p)"
    "BufferPool_fill i p r m = (p', r', m')"
  shows "pool_ok (n + i) p' r' m' \<and> known_keys p' = set (free_keys p') \<and>
         length (free_keys p') = length (free_keys p) + i \<and> bp_config p' = bp_config p"
  using assms
proof (induction i p r m arbitrary: n rule: BufferPool_fill.induct)
  case (2 i p r m)
  obtain g r1 m1 where reg: "MemoryRegistry_Register (replicate (buffer_size (bp_config p)) 0) r m = (g, r1, m1)"
    by (metis prod_cases3)
  note step = RegisterSize_step [OF _ _ reg]
  have ok: "registry_ok n r m" "Suc n < 2 ^ 64" using "2.prems"(1,2) by (auto simp: pool_ok_def)
  define q where "q = p\<lparr>free_keys := free_keys p @ [mr_key g],
                        known_keys := insert (mr_key g) (known_keys p)\<rparr>"
  have "pool_ok (Suc n) q r1 m1" "known_keys q = set (free_keys q)"
    using "2.prems"(1,3) step [OF ok] by (auto simp: pool_ok_def q_def)
  moreover have "BufferPool_fill i q r1 m1 = (p', r', m')"
    using "2.prems"(4) reg by (simp add: MemoryRegistry_RegisterSize_def q_def)
  ultimately have "pool_ok (Suc n + i) p' r' m' \<and> known_keys p' = set (free_keys p') \<and>
      length (free_keys p') = length (free_keys q) + i \<and> bp_config p' = bp_config q"
    using "2.IH" [of "(g, r1, m1)" g "(r1, m1)" r1 m1 "Suc n"] reg "2.prems"(2)
    by (simp add: MemoryRegistry_RegisterSize_def q_def)
  then show ?case by (simp add: q_def)
qed simp

lemma BufferPool_new_ok:
  assumes "registry_ok n r m" "n + buffers config < 2 ^ 64" "BufferPool_new config r m = (p, r', m')"
  shows "pool_ok (n + buffers config) p r' m'" "known_keys p = set (free_keys p)"
    "length (free_keys p) = buffers config" "bp_config p = config"
proof -
  have "pool_ok n \<lparr>bp_config = config, free_keys = [], known_keys = {}\<rparr> r m"
    using assms(1) by (simp add: pool_ok_def)
  from BufferPool_fill_ok [OF this assms(2) _ assms(3) [unfolded BufferPool_new_def]]
  show "pool_ok (n + buffers config) p r' m'" "known_keys p = set (free_keys p)"
    "length (free_keys p) = buffers config" "bp_config p = config"
    by simp_all
qed

lemma BufferPool_fill_Size:
  assumes "registry_ok n r m" "n + i < 2 ^ 64" "BufferPool_fill i p r m = (p', r', m')"
  shows "MemoryRegistry_Size r' = MemoryRegistry_Size r + i"
  using assms
proof (induction i p r m arbitrary: n rule: BufferPool_fill.induct)
  case (2 i p r m)
  obtain g r1 m1 where reg: "MemoryRegistry_Register (replicate (buffer_size (bp_config p)) 0) r m = (g, r1, m1)"
    by (metis prod_cases3)
  have "Suc n < 2 ^ 64" using "2.prems"(2) by simp
  then have "registry_ok (Suc n) r1 m1" "MemoryRegistry_Size r1 = Suc (MemoryRegistry_Size r)"
    using RegisterSize_step(1) [OF "2.prems"(1) _ reg] Register_Size [OF "2.prems"(1) _ reg] by simp_all
  then show ?case
    using "2.IH" [of "(g, r1, m1)" g "(r1, m1)" r1 m1 "Suc n"] reg "2.prems"(2,3)
    by (simp add: MemoryRegistry_RegisterSize_def)
qed simp

text \<open>What \<open>Acquire\<close> does in a good state: it takes the oldest free buffer, or registers
  a new one, and never throws.\<close>

lemma Acquire_empty:
  assumes "pool_ok n p r m" "Suc n < 2 ^ 64" "free_keys p = []"
    "BufferPool_Acquire p r m = (res, p', r', m')"
  obtains g where "res = Inr g" "p' = p\<lparr>known_keys := insert (mr_key g) (known_keys p)\<rparr>"
    "MemoryRegistry_Register (replicate (buffer_size (bp_config p)) 0) r m = (g, r', m')"
    "pool_ok (Suc n) p' r' m'" "mr_key g \<notin> known_keys p"
    "MemoryRegion_size g m' = buffer_size (bp_config p)"
proof -
  obtain g r1 m1 where reg: "MemoryRegistry_Register (replicate (buffer_size (bp_config p)) 0) r m = (g, r1, m1)"
    by (metis prod_cases3)
  note step = RegisterSize_step [OF _ assms(2) reg]
  have eq: "res = Inr g" "p' = p\<lparr>known_keys := insert (mr_key g) (known_keys p)\<rparr>" "r1 = r'" "m1 = m'"
    using assms(3,4) reg by (auto simp: BufferPool_Acquire_def MemoryRegistry_RegisterSize_def)
  have "registry_ok n r m" using assms(1) by (simp add: pool_ok_def)
  from step [OF this] have "pool_ok (Suc n) p' r' m'" "mr_key g \<notin> known_keys p"
    "MemoryRegion_size g m' = buffer_size (bp_config p)"
    using assms(1,3) eq by (auto simp: pool_ok_def MemoryRegion_size_def buf_size_def)
  with eq reg show thesis using that by blast
qed

lemma Acquire_free:
  assumes "pool_ok n p r m" "free_keys p = k # ks" "BufferPool_Acquire p r m = (res, p', r', m')"
  obtains g where "res = Inr g" "mr_key g = k" "regions r k = Some g" "p' = p\<lparr>free_keys := ks\<rparr>"
    "r' = r" "pool_ok n p' r' m'" "next_cell m' = next_cell m"
    "MemoryRegion_size g m' = buffer_size (bp_config p)"
proof -
  obtain g where g: "regions r k = Some g" using assms(1,2) by (auto simp: pool_ok_def)
  obtain a where a: "mr_key g = k" "mr_storage g = Some a"
    using assms(1) g by (auto simp: pool_ok_def elim: registry_ok_region)
  have eq: "res = Inr g" "p' = p\<lparr>free_keys := ks\<rparr>" "r' = r"
    "m' = (if length (cells m a) \<noteq> buffer_size (bp_config p)
           then resize_at a (buffer_size (bp_config p)) m else m)"
    using assms(2,3) g a by (simp_all add: BufferPool_Acquire_def MemoryRegistry_Lookup_def)
  have "next_cell m' = next_cell m" "args_ltr m' = args_ltr m"
    "length (cells m' a) = buffer_size (bp_config p)"
    by (simp_all add: eq(4) resize_at_simps)
  moreover from this have "pool_ok n p' r' m'"
    using assms(1,2) eq(2,3) by (auto simp: pool_ok_def intro: registry_ok_machine)
  ultimately show thesis
    using that g a eq(1-3) by (simp add: MemoryRegion_size_def buf_size_def)
qed

lemma Release_ok_pool:
  assumes "pool_ok n p r m" "BufferPool_Release k p r m = (res, p', m')"
  shows "res = Inr ()" "pool_ok n p' r m'" "known_keys p' = known_keys p" "bp_config p' = bp_config p"
    "next_cell m' = next_cell m" "args_ltr m' = args_ltr m"
    "set (free_keys p') = set (free_keys p) \<union> ({k} \<inter> known_keys p)"
proof -
  have "k \<in> known_keys p \<Longrightarrow> \<exists>g. regions r k = Some g"
    using assms(1) by (auto simp: pool_ok_def)
  then have "res = Inr () \<and> pool_ok n p' r m' \<and> known_keys p' = known_keys p \<and>
      bp_config p' = bp_config p \<and> next_cell m' = next_cell m \<and> args_ltr m' = args_ltr m \<and>
      set (free_keys p') = set (free_keys p) \<union> ({k} \<inter> known_keys p)"
    using assms
    by (auto simp: BufferPool_Release_def MemoryRegistry_Lookup_def pool_ok_def resize_at_simps
        split: if_splits option.splits intro: registry_ok_machine)
  then show "res = Inr ()" "pool_ok n p' r m'" "known_keys p' = known_keys p" "bp_config p' = bp_config p"
    "next_cell m' = next_cell m" "args_ltr m' = args_ltr m"
    "set (free_keys p') = set (free_keys p) \<union> ({k} \<inter> known_keys p)"
    by simp_all
qed

section \<open>Runs of the pool\<close>

text \<open>
  \<open>pool_reach c n H p r m\<close>: from a fresh pool with configuration \<open>c\<close>, a state with \<open>n\<close>
  registrations so far in which users hold the buffers with keys \<open>H\<close>.
\<close>

inductive pool_reach ::
    "BufferPoolConfig \<Rightarrow> nat \<Rightarrow> string set \<Rightarrow> BufferPool \<Rightarrow> MemoryRegistry \<Rightarrow> 'w machine_scheme \<Rightarrow> bool"
  for c where
  start: "BufferPool_new c MemoryRegistry_new m = (p, r, m') \<Longrightarrow> buffers c < 2 ^ 64 \<Longrightarrow>
     pool_reach c (buffers c) {} p r m'"
| acquire_new: "pool_reach c n H p r m \<Longrightarrow> free_keys p = [] \<Longrightarrow> Suc n < 2 ^ 64 \<Longrightarrow>
     BufferPool_Acquire p r m = (Inr g, p', r', m') \<Longrightarrow>
     pool_reach c (Suc n) (insert (mr_key g) H) p' r' m'"
| acquire_free: "pool_reach c n H p r m \<Longrightarrow> free_keys p \<noteq> [] \<Longrightarrow>
     BufferPool_Acquire p r m = (Inr g, p', r', m') \<Longrightarrow>
     pool_reach c n (insert (mr_key g) H) p' r' m'"
| release: "pool_reach c n H p r m \<Longrightarrow> k \<in> H \<Longrightarrow> BufferPool_Release k p r m = (Inr (), p', m') \<Longrightarrow>
     pool_reach c n (H - {k}) p' r m'"
| spurious_release: "pool_reach c n H p r m \<Longrightarrow> k \<notin> H \<Longrightarrow>
     BufferPool_Release k p r m = (Inr (), p', m') \<Longrightarrow> pool_reach c n H p' r m'"
| use_buffer: "pool_reach c n H p r m \<Longrightarrow> k \<in> H \<Longrightarrow> regions r k = Some g \<Longrightarrow> mr_storage g = Some a \<Longrightarrow>
     pool_reach c n H p r (m\<lparr>cells := (cells m)(a := b)\<rparr>)"
| register_other: "pool_reach c n H p r m \<Longrightarrow> Suc n < 2 ^ 64 \<Longrightarrow>
     MemoryRegistry_Register b r m = (g, r', m') \<Longrightarrow> pool_reach c (Suc n) H p r' m'"

definition pool_inv ::
    "BufferPoolConfig \<Rightarrow> nat \<Rightarrow> string set \<Rightarrow> BufferPool \<Rightarrow> MemoryRegistry \<Rightarrow> 'w machine_scheme \<Rightarrow> bool" where
  "pool_inv c n H p r m \<longleftrightarrow>
     pool_ok n p r m \<and> bp_config p = c \<and> known_keys p = set (free_keys p) \<union> H \<and>
     set (free_keys p) \<inter> H = {}"

lemma pool_inv_Acquire:
  assumes "pool_inv c n H p r m" "free_keys p = [] \<Longrightarrow> Suc n < 2 ^ 64"
    "BufferPool_Acquire p r m = (res, p', r', m')"
  shows "\<exists>g. res = Inr g \<and> mr_key g \<notin> H \<and> MemoryRegion_size g m' = buffer_size c \<and>
     regions r' (mr_key g) = Some g \<and> (\<forall>k \<in> H. regions r' k = regions r k) \<and>
     pool_inv c (if free_keys p = [] then Suc n else n) (insert (mr_key g) H) p' r' m'"
proof (cases "free_keys p")
  case Nil
  have ok: "pool_ok n p r m" "Suc n < 2 ^ 64" using assms(1,2) Nil by (auto simp: pool_inv_def)
  show ?thesis
  proof (rule Acquire_empty [OF ok Nil assms(3)])
    fix g
    assume g: "res = Inr g" "p' = p\<lparr>known_keys := insert (mr_key g) (known_keys p)\<rparr>"
      "MemoryRegistry_Register (replicate (buffer_size (bp_config p)) 0) r m = (g, r', m')"
      "pool_ok (Suc n) p' r' m'" "mr_key g \<notin> known_keys p"
      "MemoryRegion_size g m' = buffer_size (bp_config p)"
    have "registry_ok n r m" using ok by (simp add: pool_ok_def)
    note step = RegisterSize_step(2,3,4) [OF this ok(2) g(3)]
    have "regions r' (mr_key g) = Some g" using step by simp
    moreover have "\<forall>k \<in> H. regions r' k = regions r k"
      using step assms(1) by (auto simp: pool_inv_def pool_ok_def)
    ultimately show ?thesis
      using g Nil assms(1) by (auto simp: pool_inv_def)
  qed
next
  case (Cons k ks)
  have ok: "pool_ok n p r m" using assms(1) by (simp add: pool_inv_def)
  show ?thesis
    by (rule Acquire_free [OF ok Cons assms(3)])
      (use assms(1) Cons in \<open>auto simp: pool_inv_def pool_ok_def\<close>)
qed

lemma pool_inv_Release:
  assumes "pool_inv c n H p r m" "BufferPool_Release k p r m = (res, p', m')"
  shows "k \<in> H \<Longrightarrow> pool_inv c n (H - {k}) p' r m'" "k \<notin> H \<Longrightarrow> pool_inv c n H p' r m'"
proof -
  have ok: "pool_ok n p r m" using assms(1) by (simp add: pool_inv_def)
  note rel = Release_ok_pool [OF ok assms(2)]
  show "k \<in> H \<Longrightarrow> pool_inv c n (H - {k}) p' r m'" "k \<notin> H \<Longrightarrow> pool_inv c n H p' r m'"
    using assms(1) rel by (auto simp: pool_inv_def)
qed

lemma pool_reach_inv: "pool_reach c n H p r m \<Longrightarrow> pool_inv c n H p r m"
proof (induction rule: pool_reach.induct)
  case (start m p r m')
  show ?case
    using BufferPool_new_ok [OF registry_ok_new [of m] _ start(1)] start(2) by (simp add: pool_inv_def)
next
  case (acquire_new n H p r m g p' r' m')
  then show ?case using pool_inv_Acquire [OF acquire_new.IH _ acquire_new.hyps(4)] by auto
next
  case (acquire_free n H p r m g p' r' m')
  then show ?case using pool_inv_Acquire [OF acquire_free.IH _ acquire_free.hyps(3)] by auto
next
  case (release n H p r m k p' m')
  then show ?case by (auto intro: pool_inv_Release)
next
  case (spurious_release n H p r m k p' m')
  then show ?case by (auto intro: pool_inv_Release)
next
  case (use_buffer n H p r m k g a b)
  then show ?case by (auto simp: pool_inv_def intro: pool_ok_machine)
next
  case (register_other n H p r m b g r' m')
  then have "registry_ok n r m" by (simp add: pool_inv_def pool_ok_def)
  from RegisterSize_step [OF this register_other.hyps(2,3)] register_other.IH
  show ?case by (auto simp: pool_inv_def pool_ok_def)
qed

section \<open>Properties\<close>

text \<open>
  C34. In every state of a pool the buffers it knows are split into the free ones and the ones
  its users hold, none is in both and none is twice in the free list; every known buffer is
  registered, and two known buffers never share storage.
\<close>

theorem buffer_pool_conservation:
  assumes "pool_reach c n H p r m"
  shows "known_keys p = set (free_keys p) \<union> H \<and> set (free_keys p) \<inter> H = {} \<and> distinct (free_keys p) \<and>
    (\<forall>k \<in> known_keys p. \<exists>g a. regions r k = Some g \<and> mr_storage g = Some a \<and> a < next_cell m) \<and>
    (\<forall>k \<in> known_keys p. \<forall>k' \<in> known_keys p.
       map_option mr_storage (regions r k) = map_option mr_storage (regions r k') \<longrightarrow> k = k')"
proof -
  have inv: "pool_inv c n H p r m" by (rule pool_reach_inv [OF assms])
  then have reg: "registry_ok n r m" "known_keys p \<subseteq> dom (regions r)"
    by (auto simp: pool_inv_def pool_ok_def)
  have "\<exists>g a. regions r k = Some g \<and> mr_storage g = Some a \<and> a < next_cell m" if k: "k \<in> known_keys p" for k
  proof -
    obtain g where "regions r k = Some g" using k reg(2) by auto
    then show ?thesis using registry_ok_region [OF reg(1)] by metis
  qed
  moreover have "k = k'" if ks: "k \<in> known_keys p" "k' \<in> known_keys p"
    "map_option mr_storage (regions r k) = map_option mr_storage (regions r k')" for k k'
  proof -
    obtain g g' where "regions r k = Some g" "regions r k' = Some g'" using ks(1,2) reg(2) by blast
    then show ?thesis using ks(3) registry_storage_inj [OF reg(1)] by simp
  qed
  ultimately show ?thesis using inv by (auto simp: pool_inv_def pool_ok_def)
qed

lemma pool_reach_fresh:
  "\<exists>p r m'. BufferPool_new \<lparr>buffers = 2, buffer_size = 4\<rparr> MemoryRegistry_new empty_machine = (p, r, m') \<and>
     pool_reach \<lparr>buffers = 2, buffer_size = 4\<rparr> 2 {} p r m'"
proof -
  let ?c = "\<lparr>buffers = 2, buffer_size = 4\<rparr>"
  obtain p r m' where new: "BufferPool_new ?c MemoryRegistry_new empty_machine = (p, r, m')"
    by (metis prod_cases3)
  then show ?thesis using pool_reach.start [OF new] by simp
qed

theorem buffer_pool_conservation_witness:
  "\<exists>p r. \<exists>m :: machine. pool_reach \<lparr>buffers = 2, buffer_size = 4\<rparr> 2 {} p r m \<and> known_keys p = set (free_keys p) \<and>
     distinct (free_keys p)"
proof -
  obtain p r m where reach: "pool_reach \<lparr>buffers = 2, buffer_size = 4\<rparr> 2 {} p r (m :: machine)"
    using pool_reach_fresh by blast
  have "known_keys p = set (free_keys p) \<and> distinct (free_keys p)"
    using buffer_pool_conservation [OF reach] by simp
  with reach show ?thesis by blast
qed

text \<open>
  C35. \<open>Acquire\<close> never throws: it returns a registered buffer of the configured size that no
  user holds and whose storage is not that of any held buffer, also when the free
  list is empty.
\<close>

theorem acquire_gives_unshared_buffer:
  assumes "pool_reach c n H p r m" "Suc n < 2 ^ 64"
  shows "\<exists>g p' r' m'. BufferPool_Acquire p r m = (Inr g, p', r', m') \<and> mr_key g \<notin> H \<and>
    MemoryRegion_size g m' = buffer_size c \<and> regions r' (mr_key g) = Some g \<and>
    (\<forall>k \<in> H. \<forall>h. regions r k = Some h \<longrightarrow> mr_storage h \<noteq> mr_storage g)"
proof -
  obtain res p' r' m' where acq: "BufferPool_Acquire p r m = (res, p', r', m')" by (metis prod_cases4)
  obtain g where g: "res = Inr g" "mr_key g \<notin> H" "MemoryRegion_size g m' = buffer_size c"
    "regions r' (mr_key g) = Some g" "\<forall>k \<in> H. regions r' k = regions r k"
    "pool_inv c (if free_keys p = [] then Suc n else n) (insert (mr_key g) H) p' r' m'"
    using pool_inv_Acquire [OF pool_reach_inv [OF assms(1)] assms(2) acq] by (elim exE conjE) (rule that)
  have reg': "registry_ok (if free_keys p = [] then Suc n else n) r' m'"
    using g(6) by (simp add: pool_inv_def pool_ok_def)
  have "mr_storage h \<noteq> mr_storage g" if "k \<in> H" "regions r k = Some h" for k h
  proof
    assume "mr_storage h = mr_storage g"
    moreover have "regions r' k = Some h" using that g(5) by simp
    ultimately have "k = mr_key g" using registry_storage_inj [OF reg' _ g(4)] by simp
    then show False using that(1) g(2) by simp
  qed
  then show ?thesis using acq g(1-4) by (intro exI [of _ g] exI [of _ p'] exI [of _ r'] exI [of _ m']) simp
qed

theorem acquire_gives_unshared_buffer_witness:
  "\<exists>p r g p' r'. \<exists>(m :: machine) m'. pool_reach \<lparr>buffers = 2, buffer_size = 4\<rparr> 2 {} p r m \<and>
     BufferPool_Acquire p r m = (Inr g, p', r', m') \<and> MemoryRegion_size g m' = 4"
proof -
  obtain p r m where reach: "pool_reach \<lparr>buffers = 2, buffer_size = 4\<rparr> 2 {} p r (m :: machine)"
    using pool_reach_fresh by blast
  have "\<exists>g p' r' m'. BufferPool_Acquire p r m = (Inr g, p', r', m') \<and> MemoryRegion_size g m' = 4"
    using acquire_gives_unshared_buffer [OF reach] by simp blast
  with reach show ?thesis by blast
qed

text \<open>
  Releasing never throws in a reachable state, and releasing a key a second time, or a key
  the pool never gave out, changes nothing: a buffer is never in the free list twice.
\<close>

theorem release_idempotent:
  assumes "pool_reach c n H p r m" "BufferPool_Release k p r m = (res, p', m')"
  shows "res = Inr () \<and> BufferPool_Release k p' r m' = (Inr (), p', m') \<and>
    (k \<notin> known_keys p \<longrightarrow> p' = p \<and> m' = m) \<and>
    BufferPool_Available p' = BufferPool_Available p + (if k \<in> H then 1 else 0)"
proof -
  have inv: "pool_inv c n H p r m" by (rule pool_reach_inv [OF assms(1)])
  then have ok: "pool_ok n p r m" by (simp add: pool_inv_def)
  note rel = Release_ok_pool [OF ok assms(2)]
  have again: "BufferPool_Release k p' r m' = (Inr (), p', m')"
    using rel(3,7) by (auto simp: BufferPool_Release_def)
  have "distinct (free_keys p)" "distinct (free_keys p')" using ok rel(2) by (simp_all add: pool_ok_def)
  then have "length (free_keys p') = card (set (free_keys p) \<union> ({k} \<inter> known_keys p))"
    "length (free_keys p) = card (set (free_keys p))"
    using rel(7) by (simp_all add: distinct_card flip: rel(7))
  then have "BufferPool_Available p' = BufferPool_Available p + (if k \<in> H then 1 else 0)"
    using inv by (auto simp: BufferPool_Available_def pool_inv_def Int_insert_left insert_absorb)
  moreover have "k \<notin> known_keys p \<longrightarrow> p' = p \<and> m' = m"
    using assms(2) by (auto simp: BufferPool_Release_def)
  ultimately show ?thesis using rel(1) again by blast
qed

theorem release_idempotent_witness:
  "\<exists>p r p'. \<exists>(m :: machine) m'. pool_reach \<lparr>buffers = 2, buffer_size = 4\<rparr> 2 {} p r m \<and>
     BufferPool_Release ''mr-9'' p r m = (Inr (), p', m') \<and> BufferPool_Available p' = BufferPool_Available p"
proof -
  obtain p r m where reach: "pool_reach \<lparr>buffers = 2, buffer_size = 4\<rparr> 2 {} p r (m :: machine)"
    using pool_reach_fresh by blast
  obtain res p' m' where rel: "BufferPool_Release ''mr-9'' p r m = (res, p', m')" by (metis prod_cases3)
  have "res = Inr ()" "BufferPool_Available p' = BufferPool_Available p"
    using release_idempotent [OF reach rel] by simp_all
  with rel reach show ?thesis by blast
qed

text \<open>
  \<open>Acquire\<close> is not exception safe: when the region of the oldest free key has been released
  from the shared registry, the call throws and the key is gone from the free list, though the
  pool still counts it as known.
\<close>

theorem acquire_throw_drops_key:
  assumes "free_keys p = key # rest" "regions r key = None"
  shows "BufferPool_Acquire p r m =
    (Inl (RuntimeError (''memory region not found: '' @ key)), p\<lparr>free_keys := rest\<rparr>, r, m)"
  using assms by (simp add: BufferPool_Acquire_def MemoryRegistry_Lookup_def)

theorem acquire_throw_drops_key_witness:
  "BufferPool_Acquire \<lparr>bp_config = \<lparr>buffers = 1, buffer_size = 4\<rparr>, free_keys = [''mr-1''], known_keys = {''mr-1''}\<rparr>
     MemoryRegistry_new empty_machine =
   (Inl (RuntimeError ''memory region not found: mr-1''),
    \<lparr>bp_config = \<lparr>buffers = 1, buffer_size = 4\<rparr>, free_keys = [], known_keys = {''mr-1''}\<rparr>,
    MemoryRegistry_new, empty_machine)"
  using acquire_throw_drops_key [of "\<lparr>bp_config = \<lparr>buffers = 1, buffer_size = 4\<rparr>, free_keys = [''mr-1''],
      known_keys = {''mr-1''}\<rparr>" "''mr-1''" "[]" MemoryRegistry_new empty_machine]
  by (simp add: MemoryRegistry_new_def)

end
