(* ===== verification/Rdma_Metrics.thy ===== *)
theory Rdma_Metrics
  imports Rdma_Completion "HOL-Library.Multiset"
begin

text \<open>
  The counters of \<open>rdma/src/metrics.cpp\<close>. Every counter is a 64-bit atomic and every
  \<open>Record...\<close> call is one or two relaxed \<open>fetch_add\<close>s, so calls of several threads
  interleave at that grain: a call is the list of its atomic steps, and the theorems
  hold for every order of the steps of all calls.
\<close>

record Metrics =
  sends :: "64 word"
  writes :: "64 word"
  receives :: "64 word"
  completions :: "64 word"
  failed_completions :: "64 word"
  sent_bytes :: "64 word"
  received_bytes :: "64 word"

definition Metrics_new :: Metrics where
  "Metrics_new = \<lparr>sends = 0, writes = 0, receives = 0, completions = 0, failed_completions = 0,
                  sent_bytes = 0, received_bytes = 0\<rparr>"

datatype Counter = Csends | Cwrites | Creceives | Ccompletions | Cfailed | Csent_bytes | Creceived_bytes

text \<open>\<open>counter.fetch_add(n, std::memory_order_relaxed)\<close>.\<close>

fun fetch_add :: "Counter \<times> 64 word \<Rightarrow> Metrics \<Rightarrow> Metrics" where
  "fetch_add (Csends, n) m = m\<lparr>sends := sends m + n\<rparr>"
| "fetch_add (Cwrites, n) m = m\<lparr>writes := writes m + n\<rparr>"
| "fetch_add (Creceives, n) m = m\<lparr>receives := receives m + n\<rparr>"
| "fetch_add (Ccompletions, n) m = m\<lparr>completions := completions m + n\<rparr>"
| "fetch_add (Cfailed, n) m = m\<lparr>failed_completions := failed_completions m + n\<rparr>"
| "fetch_add (Csent_bytes, n) m = m\<lparr>sent_bytes := sent_bytes m + n\<rparr>"
| "fetch_add (Creceived_bytes, n) m = m\<lparr>received_bytes := received_bytes m + n\<rparr>"

datatype MetricsCall =
    is_CallSend: CallSend nat
  | is_CallWrite: CallWrite nat
  | is_CallReceive: CallReceive nat
  | is_CallCompletion: CallCompletion CompletionEvent

text \<open>The atomic steps of a call, in program order.\<close>

fun call_steps :: "MetricsCall \<Rightarrow> (Counter \<times> 64 word) list" where
  "call_steps (CallSend bytes) = [(Csends, 1), (Csent_bytes, word_of_nat bytes)]"
| "call_steps (CallWrite bytes) = [(Cwrites, 1), (Csent_bytes, word_of_nat bytes)]"
| "call_steps (CallReceive bytes) = [(Creceives, 1), (Creceived_bytes, word_of_nat bytes)]"
| "call_steps (CallCompletion event) =
     (Ccompletions, 1) # (if ce_status event \<noteq> CS_kSuccess then [(Cfailed, 1)] else [])"

definition Metrics_RecordSend :: "nat \<Rightarrow> Metrics \<Rightarrow> Metrics" where
  "Metrics_RecordSend bytes m = fold fetch_add (call_steps (CallSend bytes)) m"

definition Metrics_RecordWrite :: "nat \<Rightarrow> Metrics \<Rightarrow> Metrics" where
  "Metrics_RecordWrite bytes m = fold fetch_add (call_steps (CallWrite bytes)) m"

definition Metrics_RecordReceive :: "nat \<Rightarrow> Metrics \<Rightarrow> Metrics" where
  "Metrics_RecordReceive bytes m = fold fetch_add (call_steps (CallReceive bytes)) m"

definition Metrics_RecordCompletion :: "CompletionEvent \<Rightarrow> Metrics \<Rightarrow> Metrics" where
  "Metrics_RecordCompletion event m = fold fetch_add (call_steps (CallCompletion event)) m"

text \<open>\<open>Snapshot()\<close> copies the counters; taken while no call is running it is the state.\<close>

definition Metrics_Snapshot :: "Metrics \<Rightarrow> Metrics" where
  "Metrics_Snapshot m =
     \<lparr>sends = sends m, writes = writes m, receives = receives m, completions = completions m,
      failed_completions = failed_completions m, sent_bytes = sent_bytes m,
      received_bytes = received_bytes m\<rparr>"

section \<open>What the counters count\<close>

fun sent_by :: "MetricsCall \<Rightarrow> nat" where
  "sent_by (CallSend bytes) = bytes"
| "sent_by (CallWrite bytes) = bytes"
| "sent_by _ = 0"

fun received_by :: "MetricsCall \<Rightarrow> nat" where
  "received_by (CallReceive bytes) = bytes"
| "received_by _ = 0"

fun is_failed :: "MetricsCall \<Rightarrow> bool" where
  "is_failed (CallCompletion e) \<longleftrightarrow> ce_status e \<noteq> CS_kSuccess"
| "is_failed _ \<longleftrightarrow> False"

text \<open>The reference: totals over the calls made, as natural numbers, reduced to 64 bits.\<close>

definition metrics_totals :: "MetricsCall list \<Rightarrow> Metrics" where
  "metrics_totals calls =
     \<lparr>sends = word_of_nat (length (filter is_CallSend calls)),
      writes = word_of_nat (length (filter is_CallWrite calls)),
      receives = word_of_nat (length (filter is_CallReceive calls)),
      completions = word_of_nat (length (filter is_CallCompletion calls)),
      failed_completions = word_of_nat (length (filter is_failed calls)),
      sent_bytes = word_of_nat (sum_list (map sent_by calls)),
      received_bytes = word_of_nat (sum_list (map received_by calls))\<rparr>"

lemma fetch_add_commute: "fetch_add x \<circ> fetch_add y = fetch_add y \<circ> fetch_add x"
proof
  fix m
  obtain c n where x: "x = (c, n)" by (cases x)
  obtain d k where y: "y = (d, k)" by (cases y)
  show "(fetch_add x \<circ> fetch_add y) m = (fetch_add y \<circ> fetch_add x) m"
    by (cases c; cases d) (simp_all add: x y algebra_simps)
qed

lemma fetch_add_reorder: "mset xs = mset ys \<Longrightarrow> fold fetch_add xs m = fold fetch_add ys m"
  using fold_multiset_equiv [of xs fetch_add ys] fetch_add_commute by metis

text \<open>Adding the totals of two histories, counter by counter.\<close>

definition metrics_plus :: "Metrics \<Rightarrow> Metrics \<Rightarrow> Metrics" where
  "metrics_plus a b =
     \<lparr>sends = sends a + sends b, writes = writes a + writes b, receives = receives a + receives b,
      completions = completions a + completions b,
      failed_completions = failed_completions a + failed_completions b,
      sent_bytes = sent_bytes a + sent_bytes b, received_bytes = received_bytes a + received_bytes b\<rparr>"

lemma call_steps_total: "fold fetch_add (call_steps c) m = metrics_plus m (metrics_totals [c])"
  by (cases c) (simp_all add: metrics_plus_def metrics_totals_def)

lemma metrics_plus_assoc: "metrics_plus (metrics_plus a b) c = metrics_plus a (metrics_plus b c)"
  by (simp add: metrics_plus_def)

lemma metrics_totals_append:
  "metrics_totals (cs @ ds) = metrics_plus (metrics_totals cs) (metrics_totals ds)"
  by (simp add: metrics_totals_def metrics_plus_def)

lemma metrics_plus_nothing [simp]: "metrics_plus m (metrics_totals []) = m"
  by (simp add: metrics_totals_def metrics_plus_def)

lemma calls_total:
  "fold fetch_add (concat (map call_steps calls)) m = metrics_plus m (metrics_totals calls)"
proof (induction calls arbitrary: m)
  case Nil
  show ?case by (simp add: metrics_plus_def metrics_totals_def)
next
  case (Cons c calls)
  have "metrics_totals (c # calls) = metrics_plus (metrics_totals [c]) (metrics_totals calls)"
    using metrics_totals_append [of "[c]" calls] by simp
  then show ?case by (simp add: Cons.IH call_steps_total metrics_plus_assoc)
qed

section \<open>Properties\<close>

text \<open>
  C37. The counters are exact under concurrency: whatever calls of any number of threads are made
  and however their atomic additions interleave, the counters end up at the totals of the calls
  (modulo \<open>2 ^ 64\<close>), and the number of failed completions counts those that did not succeed.
\<close>

theorem metrics_exact_for_every_interleaving:
  assumes "mset steps = mset (concat (map call_steps calls))"
  shows "Metrics_Snapshot (fold fetch_add steps Metrics_new) = metrics_totals calls"
proof -
  have "fold fetch_add steps Metrics_new = metrics_plus Metrics_new (metrics_totals calls)"
    using fetch_add_reorder [OF assms] calls_total by simp
  then show ?thesis
    by (simp add: Metrics_Snapshot_def metrics_plus_def Metrics_new_def metrics_totals_def)
qed

theorem metrics_exact_for_every_interleaving_witness:
  "sends (Metrics_Snapshot (fold fetch_add
      [(Creceives, 1), (Csends, 1), (Csends, 1), (Csent_bytes, 9), (Creceived_bytes, 4), (Csent_bytes, 5)]
      Metrics_new)) = 2"
proof -
  have "Metrics_Snapshot (fold fetch_add
      [(Creceives, 1), (Csends, 1), (Csends, 1), (Csent_bytes, 9), (Creceived_bytes, 4), (Csent_bytes, 5)]
      Metrics_new) = metrics_totals [CallSend 5, CallReceive 4, CallSend 9]"
    by (rule metrics_exact_for_every_interleaving) simp
  then show ?thesis by (simp add: metrics_totals_def)
qed

end
