(* ===== verification/Rdma_Worker_Session.thy ===== *)
theory Rdma_Worker_Session
  imports Rdma_Peers Rdma_Buffer_Pool Rdma_Metrics
begin

text \<open>
  The worker session of \<open>rdma/src/worker_session.cpp\<close>: it submits tasks to peers, polls its
  own inbox for tasks, sends results and counts what it does. \<open>session_reach\<close> are the
  states a session gets into by calls of its operations, with the list of what was
  counted; \<open>session_inv\<close> is what holds in them.
\<close>

record SubmissionResult =
  sr_task_id :: string
  sr_success :: bool
  sr_detail :: string
  sr_work_request_id :: WorkRequestId

record WorkerSession =
  ws_config :: WorkerSessionConfig
  ws_transport :: "nat option"
  ws_registry :: MemoryRegistry
  ws_buffer_pool :: BufferPool
  ws_completions :: CompletionQueue
  ws_metrics :: Metrics
  ws_peers :: "string \<rightharpoonup> Connection"
  ws_next_work_request_id :: WorkRequestId

definition WorkerSession_new ::
    "WorkerSessionConfig \<Rightarrow> nat option \<Rightarrow> 'w rdma_world_scheme \<Rightarrow> WorkerSession \<times> 'w rdma_world_scheme" where
  "WorkerSession_new config transport w =
     (case BufferPool_new (session_buffer_pool config) MemoryRegistry_new w of (pool, registry, w1) \<Rightarrow>
        (\<lparr>ws_config = config, ws_transport = transport, ws_registry = registry, ws_buffer_pool = pool,
          ws_completions = CompletionQueue_new (session_completion_queue config),
          ws_metrics = Metrics_new, ws_peers = Map.empty, ws_next_work_request_id = 1\<rparr>, w1))"

abbreviation ws_node :: "WorkerSession \<Rightarrow> string" where
  "ws_node s \<equiv> session_node_id (ws_config s)"

definition WorkerSession_EnsurePeer ::
    "string \<Rightarrow> WorkerSession \<Rightarrow> 'w rdma_world_scheme \<Rightarrow> Connection \<times> WorkerSession \<times> 'w rdma_world_scheme" where
  "WorkerSession_EnsurePeer peer s w =
     (case ws_peers s peer of
        Some connection \<Rightarrow> (connection, s, w)
      | None \<Rightarrow>
          (let connection = snd (Connection_Establish (Connection_new (QueuePair_new
                 \<lparr>local_node = session_node_id (ws_config s), remote_node = peer,
                  max_send_wr = 256, max_recv_wr = 256\<rparr>)));
               w1 = (case ws_transport s of
                       None \<Rightarrow> w
                     | Some t \<Rightarrow> TransportRdma_Connect t (queue_pair connection) w)
           in (connection, s\<lparr>ws_peers := emplace peer connection (ws_peers s)\<rparr>, w1)))"

definition WorkerSession_Submit ::
    "TaskMessage \<Rightarrow> WorkerSession \<Rightarrow> 'w rdma_world_scheme
       \<Rightarrow> SubmissionResult \<times> WorkerSession \<times> 'w rdma_world_scheme" where
  "WorkerSession_Submit task s w =
     (case ws_transport s of
        None \<Rightarrow>
          (\<lparr>sr_task_id = tm_task_id task, sr_success = False,
            sr_detail = ''transport is not configured'', sr_work_request_id = 0\<rparr>, s, w)
      | Some t \<Rightarrow>
          (let peer = (if tm_target_node task = [] then ws_node s else tm_target_node task) in
           case WorkerSession_EnsurePeer peer s w of (connection, s1, w1) \<Rightarrow>
             (case MemoryRegistry_Register (TaskMessage_Serialize task) (ws_registry s1) w1 of
                (region, registry1, w2) \<Rightarrow>
                  (let work_request_id = ws_next_work_request_id s1 in
                   case TransportRdma_PostSend t (queue_pair connection)
                          \<lparr>msg_source = ws_node s1, msg_destination = peer, msg_topic = ''task'',
                           msg_description = tm_description task, msg_payload = mr_storage region,
                           msg_work_request_id = work_request_id, msg_operation = kSend\<rparr>
                          (ws_completions s1) w2 of
                     (completions1, w3) \<Rightarrow>
                       (\<lparr>sr_task_id = tm_task_id task, sr_success = True,
                         sr_detail = ''task submitted through rdma session'',
                         sr_work_request_id = work_request_id\<rparr>,
                        s1\<lparr>ws_registry := registry1, ws_completions := completions1,
                           ws_next_work_request_id := work_request_id + 1,
                           ws_metrics := Metrics_RecordSend (MemoryRegion_size region w3) (ws_metrics s1)\<rparr>,
                        w3)))))"

definition WorkerSession_PollTask ::
    "('w rdma_world_scheme \<Rightarrow> 'w rdma_world_scheme) list \<Rightarrow> WorkerSession \<Rightarrow> 'w rdma_world_scheme
       \<Rightarrow> TaskMessage option \<times> WorkerSession \<times> 'w rdma_world_scheme" where
  "WorkerSession_PollTask others s w =
     (case ws_transport s of
        None \<Rightarrow> (None, s, w)
      | Some t \<Rightarrow>
          (case TransportRdma_PollReceive others t (ws_node s) w of
             (None, w1) \<Rightarrow> (None, s, w1)
           | (Some message, w1) \<Rightarrow>
               if msg_payload message = None then (None, s, w1)
               else (Some (TaskMessage_DeserializePtr (msg_payload message) w1),
                     s\<lparr>ws_metrics := Metrics_RecordReceive (Message_size message w1) (ws_metrics s)\<rparr>, w1)))"

definition WorkerSession_SendResult ::
    "ResultMessage \<Rightarrow> WorkerSession \<Rightarrow> 'w rdma_world_scheme
       \<Rightarrow> bool \<times> WorkerSession \<times> 'w rdma_world_scheme" where
  "WorkerSession_SendResult result s w =
     (case ws_transport s of
        None \<Rightarrow> (False, s, w)
      | Some t \<Rightarrow>
          (let peer = (if rm_target_node result = [] then ws_node s else rm_target_node result) in
           case WorkerSession_EnsurePeer peer s w of (connection, s1, w1) \<Rightarrow>
             (let bytes = ResultMessage_Serialize result in
              case make_shared bytes w1 of (payload, w2) \<Rightarrow>
                (let work_request_id = ws_next_work_request_id s1 in
                 case TransportRdma_PostSend t (queue_pair connection)
                        \<lparr>msg_source = ws_node s1, msg_destination = peer, msg_topic = ''result'',
                         msg_description = rm_detail result, msg_payload = payload,
                         msg_work_request_id = work_request_id, msg_operation = kResult\<rparr>
                        (ws_completions s1) w2 of
                   (completions1, w3) \<Rightarrow>
                     (True,
                      s1\<lparr>ws_completions := completions1, ws_next_work_request_id := work_request_id + 1,
                         ws_metrics := Metrics_RecordSend (length bytes) (ws_metrics s1)\<rparr>, w3)))))"

definition WorkerSession_PollCompletion ::
    "(CompletionQueue \<Rightarrow> CompletionQueue) list \<Rightarrow> WorkerSession \<Rightarrow> CompletionEvent option \<times> WorkerSession" where
  "WorkerSession_PollCompletion others s =
     (case CompletionQueue_Poll others (ws_completions s) of (event, q) \<Rightarrow>
        (event,
         s\<lparr>ws_completions := q,
           ws_metrics := (case event of None \<Rightarrow> ws_metrics s
                                      | Some e \<Rightarrow> Metrics_RecordCompletion e (ws_metrics s))\<rparr>))"

definition WorkerSession_metrics :: "WorkerSession \<Rightarrow> Metrics" where
  "WorkerSession_metrics s = Metrics_Snapshot (ws_metrics s)"

section \<open>Peers\<close>

interpretation session_peers: peer_table WorkerSession_EnsurePeer ws_peers ws_node ready_connection
  by unfold_locales
    (auto simp: WorkerSession_EnsurePeer_def Let_def establish_ready [unfolded peer_config_def] emplace_def
      split: option.splits)

lemma WorkerSession_EnsurePeer_frame:
  assumes "WorkerSession_EnsurePeer k s w = (c, s', w')"
  shows "ws_config s' = ws_config s" "ws_transport s' = ws_transport s" "ws_registry s' = ws_registry s"
    "ws_buffer_pool s' = ws_buffer_pool s" "ws_completions s' = ws_completions s"
    "ws_metrics s' = ws_metrics s" "ws_next_work_request_id s' = ws_next_work_request_id s"
    "cells w' = cells w" "next_cell w' = next_cell w" "clock w' = clock w"
    "inbox_of node (transports w' t) = inbox_of node (transports w t)"
    "tr_config (transports w' t) = tr_config (transports w t)" "heap_mono w w'"
  using assms
  by (auto simp: WorkerSession_EnsurePeer_def Let_def heap_mono_def split: option.splits)

text \<open>What \<open>Submit\<close> does when the session has a transport.\<close>

definition task_peer :: "WorkerSession \<Rightarrow> TaskMessage \<Rightarrow> string" where
  "task_peer s task = (if tm_target_node task = [] then ws_node s else tm_target_node task)"

lemma Submit_effect:
  assumes "ws_transport s = Some t" "session_peers.peers_ok s"
    "WorkerSession_Submit task s w = (res, s', w')"
  obtains msg w1 registry1 region where
    "TransportRdma_PostSend t (ready_qp (ws_node s) (task_peer s task)) msg (ws_completions s)
       (snd (make_shared (TaskMessage_Serialize task) w1)) = (ws_completions s', w')"
    "msg_payload msg = Some (next_cell w1)" "msg_work_request_id msg = ws_next_work_request_id s"
    "msg_operation msg = kSend"
    "MemoryRegistry_Register (TaskMessage_Serialize task) (ws_registry s) w1 =
       (region, registry1, snd (make_shared (TaskMessage_Serialize task) w1))"
    "res = \<lparr>sr_task_id = tm_task_id task, sr_success = True,
            sr_detail = ''task submitted through rdma session'',
            sr_work_request_id = ws_next_work_request_id s\<rparr>"
    "session_peers.peers_ok s'" "ws_config s' = ws_config s" "ws_transport s' = ws_transport s"
    "ws_buffer_pool s' = ws_buffer_pool s" "ws_registry s' = registry1"
    "ws_next_work_request_id s' = ws_next_work_request_id s + 1"
    "ws_metrics s' = Metrics_RecordSend (length (TaskMessage_Serialize task)) (ws_metrics s)"
    "cells w1 = cells w" "next_cell w1 = next_cell w" "clock w1 = clock w" "heap_mono w w1"
    "\<And>node t. inbox_of node (transports w1 t) = inbox_of node (transports w t)"
    "\<And>t. tr_config (transports w1 t) = tr_config (transports w t)"
proof -
  let ?peer = "task_peer s task" and ?b = "TaskMessage_Serialize task"
  obtain c s1 w1 where ens: "WorkerSession_EnsurePeer ?peer s w = (c, s1, w1)" by (metis prod_cases3)
  note fr = WorkerSession_EnsurePeer_frame [OF ens]
  have c: "c = ready_connection (ws_node s) ?peer"
    using session_peers.ensure_fresh [OF assms(2), of ?peer w] ens by simp
  obtain g r1 w2 where reg: "MemoryRegistry_Register ?b (ws_registry s) w1 = (g, r1, w2)"
    by (metis prod_cases3)
  have w2: "w2 = snd (make_shared ?b w1)" "mr_storage g = Some (next_cell w1)"
    using Register_world [OF reg] by simp_all
  let ?msg = "\<lparr>msg_source = ws_node s, msg_destination = ?peer, msg_topic = ''task'',
      msg_description = tm_description task, msg_payload = mr_storage g,
      msg_work_request_id = ws_next_work_request_id s, msg_operation = kSend\<rparr>"
  obtain cq w3 where send: "TransportRdma_PostSend t (ready_qp (ws_node s) ?peer) ?msg (ws_completions s) w2 = (cq, w3)"
    by (metis surj_pair)
  have "WorkerSession_Submit task s w =
     (\<lparr>sr_task_id = tm_task_id task, sr_success = True, sr_detail = ''task submitted through rdma session'',
       sr_work_request_id = ws_next_work_request_id s\<rparr>,
      s1\<lparr>ws_registry := r1, ws_completions := cq, ws_next_work_request_id := ws_next_work_request_id s + 1,
         ws_metrics := Metrics_RecordSend (MemoryRegion_size g w3) (ws_metrics s)\<rparr>, w3)"
    using ens reg send
    by (simp add: WorkerSession_Submit_def assms(1) task_peer_def c Let_def fr)
  with assms(3) have res: "res = \<lparr>sr_task_id = tm_task_id task, sr_success = True,
      sr_detail = ''task submitted through rdma session'', sr_work_request_id = ws_next_work_request_id s\<rparr>"
    "s' = s1\<lparr>ws_registry := r1, ws_completions := cq, ws_next_work_request_id := ws_next_work_request_id s + 1,
         ws_metrics := Metrics_RecordSend (MemoryRegion_size g w3) (ws_metrics s)\<rparr>" "w' = w3"
    by auto
  have "MemoryRegion_size g w3 = length ?b"
    using PostSend_heap(2) [OF send] w2 by (simp add: MemoryRegion_size_def buf_size_def make_shared_simps)
  moreover have "session_peers.peers_ok s'"
    using session_peers.ensure_ok [OF assms(2), of ?peer w] ens res(2)
    by (simp add: session_peers.peers_ok_def)
  ultimately show thesis
    using that [of ?msg w1 g r1] send reg res w2 fr by simp
qed

lemma PollTask_session_ready:
  assumes "ws_transport s = Some t" "inbox_of (ws_node s) (transports w t) = msg # rest"
    "msg_payload msg = Some a"
  shows "WorkerSession_PollTask others s w =
    (Some (TaskMessage_Deserialize (cells w a)),
     s\<lparr>ws_metrics := Metrics_RecordReceive (length (cells w a)) (ws_metrics s)\<rparr>,
     set_transport t ((transports w t)\<lparr>inboxes := (inboxes (transports w t))(ws_node s \<mapsto> rest)\<rparr>) w)"
  using assms(1,3) PollReceive_ready [OF assms(2), of others]
  by (simp add: WorkerSession_PollTask_def TaskMessage_DeserializePtr_def Message_size_def buf_size_def)

lemma PollTask_session_idle:
  assumes "ws_transport s = Some t" "inbox_of (ws_node s) (transports w t) = []"
  shows "fst (WorkerSession_PollTask [] s w) = None" "fst (snd (WorkerSession_PollTask [] s w)) = s"
    "inbox_of (ws_node s) (transports (snd (snd (WorkerSession_PollTask [] s w))) t) = []"
    "cells (snd (snd (WorkerSession_PollTask [] s w))) = cells w"
  using assms by (simp_all add: WorkerSession_PollTask_def PollReceive_undisturbed inbox_pop_def)


definition result_peer :: "WorkerSession \<Rightarrow> ResultMessage \<Rightarrow> string" where
  "result_peer s result = (if rm_target_node result = [] then ws_node s else rm_target_node result)"

lemma SendResult_session_effect:
  assumes "ws_transport s = Some t" "session_peers.peers_ok s"
    "WorkerSession_SendResult result s w = (res, s', w')"
  shows "res" "session_peers.peers_ok s'" "ws_config s' = ws_config s" "ws_transport s' = ws_transport s"
    "ws_buffer_pool s' = ws_buffer_pool s" "ws_registry s' = ws_registry s"
    "ws_next_work_request_id s' = ws_next_work_request_id s + 1"
    "ws_metrics s' = Metrics_RecordSend (length (ResultMessage_Serialize result)) (ws_metrics s)"
    "heap_mono w w'"
    "\<exists>msg w1. TransportRdma_PostSend t (ready_qp (ws_node s) (result_peer s result)) msg (ws_completions s)
         (snd (make_shared (ResultMessage_Serialize result) w1)) = (ws_completions s', w') \<and>
       msg_payload msg = Some (next_cell w1) \<and> cells w1 = cells w \<and> next_cell w1 = next_cell w \<and>
       (\<forall>node t. inbox_of node (transports w1 t) = inbox_of node (transports w t))"
proof -
  let ?peer = "result_peer s result" and ?b = "ResultMessage_Serialize result"
  obtain c s1 w1 where ens: "WorkerSession_EnsurePeer ?peer s w = (c, s1, w1)" by (metis prod_cases3)
  note fr = WorkerSession_EnsurePeer_frame [OF ens]
  have c: "c = ready_connection (ws_node s) ?peer"
    using session_peers.ensure_fresh [OF assms(2), of ?peer w] ens by simp
  define w2 where "w2 = snd (make_shared ?b w1)"
  have mk: "make_shared ?b w1 = (Some (next_cell w1), w2)" by (simp add: w2_def make_shared_def)
  let ?msg = "\<lparr>msg_source = ws_node s, msg_destination = ?peer, msg_topic = ''result'',
      msg_description = rm_detail result, msg_payload = Some (next_cell w1),
      msg_work_request_id = ws_next_work_request_id s, msg_operation = kResult\<rparr>"
  obtain cq w3 where send: "TransportRdma_PostSend t (ready_qp (ws_node s) ?peer) ?msg (ws_completions s) w2 = (cq, w3)"
    by (metis surj_pair)
  have "WorkerSession_SendResult result s w =
     (True, s1\<lparr>ws_completions := cq, ws_next_work_request_id := ws_next_work_request_id s + 1,
         ws_metrics := Metrics_RecordSend (length ?b) (ws_metrics s)\<rparr>, w3)"
    using ens send mk
    by (simp add: WorkerSession_SendResult_def assms(1) result_peer_def c Let_def fr)
  with assms(3) have res: "res" "w' = w3"
    "s' = s1\<lparr>ws_completions := cq, ws_next_work_request_id := ws_next_work_request_id s + 1,
         ws_metrics := Metrics_RecordSend (length ?b) (ws_metrics s)\<rparr>"
    by auto
  show "session_peers.peers_ok s'"
    using session_peers.ensure_ok [OF assms(2), of ?peer w] ens res(3)
    by (simp add: session_peers.peers_ok_def)
  have "heap_mono w1 w2" by (simp add: w2_def heap_mono_def make_shared_simps)
  then show "heap_mono w w'"
    using heap_mono_trans fr(13) PostSend_heap(1) [OF send] res(2) by blast
  show "\<exists>msg w1. TransportRdma_PostSend t (ready_qp (ws_node s) ?peer) msg (ws_completions s)
         (snd (make_shared ?b w1)) = (ws_completions s', w') \<and>
       msg_payload msg = Some (next_cell w1) \<and> cells w1 = cells w \<and> next_cell w1 = next_cell w \<and>
       (\<forall>node t. inbox_of node (transports w1 t) = inbox_of node (transports w t))"
    using send [unfolded w2_def] res fr by (intro exI [of _ ?msg] exI [of _ w1]) simp
  show "res" "ws_config s' = ws_config s" "ws_transport s' = ws_transport s"
    "ws_buffer_pool s' = ws_buffer_pool s" "ws_registry s' = ws_registry s"
    "ws_next_work_request_id s' = ws_next_work_request_id s + 1"
    "ws_metrics s' = Metrics_RecordSend (length ?b) (ws_metrics s)"
    using res fr by simp_all
qed

section \<open>Histories of a session\<close>

text \<open>What a session counts, with the number of bytes.\<close>

datatype SessionEvent =
    Submitted nat
  | ResultSent nat
  | TaskPolled nat
  | CompletionPolled CompletionEvent

fun event_call :: "SessionEvent \<Rightarrow> MetricsCall" where
  "event_call (Submitted b) = CallSend b"
| "event_call (ResultSent b) = CallSend b"
| "event_call (TaskPolled b) = CallReceive b"
| "event_call (CompletionPolled e) = CallCompletion e"

fun is_submit :: "SessionEvent \<Rightarrow> bool" where
  "is_submit (Submitted _) = True"
| "is_submit _ = False"

fun is_send :: "SessionEvent \<Rightarrow> bool" where
  "is_send (Submitted _) = True"
| "is_send (ResultSent _) = True"
| "is_send _ = False"

definition submits :: "SessionEvent list \<Rightarrow> nat" where
  "submits tr = length (filter is_submit tr)"

definition posts :: "SessionEvent list \<Rightarrow> nat" where
  "posts tr = length (filter is_send tr)"

text \<open>
  \<open>session_reach config t tr s w\<close>: a session on the transport \<open>t\<close> whose calls since its
  construction made it count \<open>tr\<close>. Other threads and sessions run between the calls
  (rule \<open>others\<close>) and during a poll.
\<close>

inductive session_reach ::
    "WorkerSessionConfig \<Rightarrow> nat \<Rightarrow> SessionEvent list \<Rightarrow> WorkerSession \<Rightarrow> 'w rdma_world_scheme \<Rightarrow> bool"
  for config t where
  start: "WorkerSession_new config (Some t) w = (s, w') \<Longrightarrow> buffers (session_buffer_pool config) < 2 ^ 64 \<Longrightarrow>
     session_reach config t [] s w'"
| submit: "session_reach config t tr s w \<Longrightarrow>
     Suc (buffers (session_buffer_pool config) + submits tr) < 2 ^ 64 \<Longrightarrow>
     WorkerSession_Submit task s w = (res, s', w') \<Longrightarrow>
     session_reach config t (tr @ [Submitted (length (TaskMessage_Serialize task))]) s' w'"
| send_result: "session_reach config t tr s w \<Longrightarrow> WorkerSession_SendResult result s w = (ok, s', w') \<Longrightarrow>
     session_reach config t (tr @ [ResultSent (length (ResultMessage_Serialize result))]) s' w'"
| poll_task: "session_reach config t tr s w \<Longrightarrow> \<forall>e \<in> set others. \<forall>v. heap_mono v (e v) \<Longrightarrow>
     TransportRdma_PollReceive others t (ws_node s) w = (received, w1) \<Longrightarrow>
     WorkerSession_PollTask others s w = (task, s', w') \<Longrightarrow>
     session_reach config t
       (tr @ (case received of
                None \<Rightarrow> []
              | Some msg \<Rightarrow> if msg_payload msg = None then [] else [TaskPolled (Message_size msg w1)])) s' w'"
| poll_completion: "session_reach config t tr s w \<Longrightarrow>
     WorkerSession_PollCompletion others s = (event, s') \<Longrightarrow>
     session_reach config t (tr @ (case event of None \<Rightarrow> [] | Some e \<Rightarrow> [CompletionPolled e])) s' w"
| others: "session_reach config t tr s w \<Longrightarrow> heap_mono w w' \<Longrightarrow> session_reach config t tr s w'"

definition session_inv ::
    "WorkerSessionConfig \<Rightarrow> nat \<Rightarrow> SessionEvent list \<Rightarrow> WorkerSession \<Rightarrow> 'w rdma_world_scheme \<Rightarrow> bool" where
  "session_inv config t tr s w \<longleftrightarrow>
     ws_config s = config \<and> ws_transport s = Some t \<and> session_peers.peers_ok s \<and>
     pool_ok (buffers (session_buffer_pool config) + submits tr) (ws_buffer_pool s) (ws_registry s) w \<and>
     BufferPool_Available (ws_buffer_pool s) = buffers (session_buffer_pool config) \<and>
     MemoryRegistry_Size (ws_registry s) = buffers (session_buffer_pool config) + submits tr \<and>
     ws_next_work_request_id s = word_of_nat (Suc (posts tr)) \<and>
     ws_metrics s = metrics_totals (map event_call tr)"

lemma session_start:
  assumes "WorkerSession_new config (Some t) w = (s, w')" "buffers (session_buffer_pool config) < 2 ^ 64"
  shows "session_inv config t [] s w'"
proof -
  obtain p r w1 where new: "BufferPool_new (session_buffer_pool config) MemoryRegistry_new w = (p, r, w1)"
    by (metis prod_cases3)
  note ok = BufferPool_new_ok [OF registry_ok_new [of w] _ new]
  have "MemoryRegistry_Size r = buffers (session_buffer_pool config)"
    using BufferPool_fill_Size [OF registry_ok_new [of w] _ new [unfolded BufferPool_new_def]] assms(2)
    by (simp add: MemoryRegistry_Size_def MemoryRegistry_new_def)
  with ok assms show ?thesis
    by (auto simp: new WorkerSession_new_def session_inv_def session_peers.peers_ok_def
        BufferPool_Available_def submits_def posts_def Metrics_new_def metrics_totals_def)
qed

lemma session_submit:
  fixes w :: "'b rdma_world_scheme"
  assumes "session_inv config t tr s w" "Suc (buffers (session_buffer_pool config) + submits tr) < 2 ^ 64"
    "WorkerSession_Submit task s w = (res, s', w')"
  shows "session_inv config t (tr @ [Submitted (length (TaskMessage_Serialize task))]) s' w'" "sr_success res"
proof -
  let ?n = "buffers (session_buffer_pool config) + submits tr"
  have inv: "ws_transport s = Some t" "session_peers.peers_ok s"
    "pool_ok ?n (ws_buffer_pool s) (ws_registry s) w" "registry_ok ?n (ws_registry s) w"
    using assms(1) by (auto simp: session_inv_def pool_ok_def)
  have "session_inv config t (tr @ [Submitted (length (TaskMessage_Serialize task))]) s' w' \<and> sr_success res"
  proof (rule Submit_effect [OF inv(1,2) assms(3)])
    fix msg registry1 region and w1 :: "'b rdma_world_scheme"
    let ?w2 = "snd (make_shared (TaskMessage_Serialize task) w1)"
    assume send: "TransportRdma_PostSend t (ready_qp (ws_node s) (task_peer s task)) msg (ws_completions s) ?w2
        = (ws_completions s', w')"
      and reg: "MemoryRegistry_Register (TaskMessage_Serialize task) (ws_registry s) w1 = (region, registry1, ?w2)"
      and res: "res = \<lparr>sr_task_id = tm_task_id task, sr_success = True,
            sr_detail = ''task submitted through rdma session'', sr_work_request_id = ws_next_work_request_id s\<rparr>"
      and s': "session_peers.peers_ok s'" "ws_config s' = ws_config s" "ws_transport s' = ws_transport s"
        "ws_buffer_pool s' = ws_buffer_pool s" "ws_registry s' = registry1"
        "ws_next_work_request_id s' = ws_next_work_request_id s + 1"
        "ws_metrics s' = Metrics_RecordSend (length (TaskMessage_Serialize task)) (ws_metrics s)"
      and mono: "heap_mono w w1"
    have ok1: "registry_ok ?n (ws_registry s) w1" using registry_ok_mono [OF inv(4) mono] .
    note step = RegisterSize_step [OF ok1 assms(2) reg]
    have "registry_ok (Suc ?n) registry1 w'"
      using registry_ok_mono [OF step(1) PostSend_heap(1) [OF send]] .
    then have "pool_ok (Suc ?n) (ws_buffer_pool s) registry1 w'"
      using inv(3) step(3) by (auto simp: pool_ok_def)
    moreover have "MemoryRegistry_Size registry1 = Suc (MemoryRegistry_Size (ws_registry s))"
      by (rule Register_Size [OF ok1 assms(2) reg])
    ultimately show ?thesis
      using assms(1) s' res
      by (auto simp: session_inv_def submits_def posts_def Metrics_RecordSend_def call_steps_total
          metrics_totals_append simp del: call_steps.simps)
  qed
  then show "session_inv config t (tr @ [Submitted (length (TaskMessage_Serialize task))]) s' w'" "sr_success res"
    by simp_all
qed

lemma session_inv_mono: "session_inv config t tr s w \<Longrightarrow> heap_mono w w' \<Longrightarrow> session_inv config t tr s w'"
  by (auto simp: session_inv_def pool_ok_def intro: registry_ok_mono)

lemma session_send_result:
  assumes "session_inv config t tr s w" "WorkerSession_SendResult result s w = (ok, s', w')"
  shows "session_inv config t (tr @ [ResultSent (length (ResultMessage_Serialize result))]) s' w'" "ok"
proof -
  have inv: "ws_transport s = Some t" "session_peers.peers_ok s" using assms(1) by (auto simp: session_inv_def)
  note eff = SendResult_session_effect [OF inv assms(2)]
  show "ok" by (rule eff(1))
  show "session_inv config t (tr @ [ResultSent (length (ResultMessage_Serialize result))]) s' w'"
    using session_inv_mono [OF assms(1) eff(9)] eff
    by (auto simp: session_inv_def submits_def posts_def Metrics_RecordSend_def call_steps_total
          metrics_totals_append simp del: call_steps.simps)
qed

lemma session_poll_task:
  assumes "session_inv config t tr s w" "\<forall>e \<in> set others. \<forall>v. heap_mono v (e v)"
    "TransportRdma_PollReceive others t (ws_node s) w = (received, w1)"
    "WorkerSession_PollTask others s w = (task, s', w')"
  shows "session_inv config t
     (tr @ (case received of
              None \<Rightarrow> []
            | Some msg \<Rightarrow> if msg_payload msg = None then [] else [TaskPolled (Message_size msg w1)])) s' w'"
proof -
  have "ws_transport s = Some t" using assms(1) by (simp add: session_inv_def)
  with assms(3,4) have eq: "w' = w1" "s' = (case received of None \<Rightarrow> s
      | Some msg \<Rightarrow> if msg_payload msg = None then s
          else s\<lparr>ws_metrics := Metrics_RecordReceive (Message_size msg w1) (ws_metrics s)\<rparr>)"
    by (auto simp: WorkerSession_PollTask_def split: option.splits if_splits)
  have "heap_mono w w1" by (rule PollReceive_heap [OF _ assms(3)]) (use assms(2) in blast)
  then have "session_inv config t tr s w1" by (rule session_inv_mono [OF assms(1)])
  then show ?thesis
    by (auto simp: eq session_inv_def session_peers.peers_ok_def submits_def posts_def Metrics_RecordReceive_def
        call_steps_total metrics_totals_append simp del: call_steps.simps split: option.splits)
qed

lemma session_poll_completion:
  assumes "session_inv config t tr s w" "WorkerSession_PollCompletion others s = (event, s')"
  shows "session_inv config t (tr @ (case event of None \<Rightarrow> [] | Some e \<Rightarrow> [CompletionPolled e])) s' w"
  using assms
  by (auto simp: WorkerSession_PollCompletion_def session_inv_def session_peers.peers_ok_def submits_def
      posts_def Metrics_RecordCompletion_def call_steps_total metrics_totals_append
      simp del: call_steps.simps split: option.splits prod.splits)

lemma session_reach_inv: "session_reach config t tr s w \<Longrightarrow> session_inv config t tr s w"
proof (induction rule: session_reach.induct)
  case (start w s w')
  then show ?case by (rule session_start)
next
  case (submit tr s w task res s' w')
  show ?case by (rule session_submit(1) [OF submit.IH submit.hyps(2,3)])
next
  case (send_result tr s w result ok s' w')
  show ?case by (rule session_send_result(1) [OF send_result.IH send_result.hyps(2)])
next
  case (poll_task tr s w others received w1 task s' w')
  show ?case by (rule session_poll_task [OF poll_task.IH poll_task.hyps(2-4)])
next
  case (poll_completion tr s w others event s')
  show ?case by (rule session_poll_completion [OF poll_completion.IH poll_completion.hyps(2)])
next
  case (others tr s w w')
  show ?case by (rule session_inv_mono [OF others.IH others.hyps(2)])
qed

section \<open>Properties\<close>


lemma session_reach_sample:
  "\<exists>s. \<exists>w :: rdma_world. session_reach WorkerSessionConfig_default 0 [Submitted (length (TaskMessage_Serialize sample_task))] s w"
proof -
  obtain s0 w0 where new: "WorkerSession_new WorkerSessionConfig_default (Some 0) empty_world = (s0, w0)"
    by (metis surj_pair)
  obtain res s1 w1 where sub: "WorkerSession_Submit sample_task s0 w0 = (res, s1, w1)" by (metis prod_cases3)
  have "session_reach WorkerSessionConfig_default 0 [] s0 w0"
    by (rule session_reach.start [OF new]) (simp add: WorkerSessionConfig_default_def BufferPoolConfig_default_def)
  from session_reach.submit [OF this _ sub] show ?thesis
    by (auto simp: WorkerSessionConfig_default_def BufferPoolConfig_default_def submits_def)
qed


text \<open>
  Every submission registers a region that the session never releases, and the session never
  draws from its buffer pool: the registry's size is the number of pool buffers plus
  the number of submissions made so far, and all pool buffers stay available.
\<close>

theorem session_registry_grows_with_submissions:
  assumes "session_reach config t tr s w"
  shows "MemoryRegistry_Size (ws_registry s) = buffers (session_buffer_pool config) + submits tr \<and>
    BufferPool_Available (ws_buffer_pool s) = buffers (session_buffer_pool config)"
  using session_reach_inv [OF assms] by (simp add: session_inv_def)

theorem session_registry_grows_with_submissions_witness:
  "\<exists>s. \<exists>w :: rdma_world. session_reach WorkerSessionConfig_default 0
      [Submitted (length (TaskMessage_Serialize sample_task))] s w \<and> MemoryRegistry_Size (ws_registry s) = 9"
proof -
  obtain s and w :: rdma_world where reach: "session_reach WorkerSessionConfig_default 0
      [Submitted (length (TaskMessage_Serialize sample_task))] s w" using session_reach_sample by blast
  have "MemoryRegistry_Size (ws_registry s) = 9"
    using session_registry_grows_with_submissions [OF reach]
    by (simp add: submits_def WorkerSessionConfig_default_def BufferPoolConfig_default_def)
  with reach show ?thesis by blast
qed

text \<open>
  A session without a transport refuses: \<open>Submit\<close> returns an unsuccessful result that names the
  task and the reason, \<open>SendResult\<close> returns false, \<open>PollTask\<close> nothing, and no state changes.
\<close>

theorem session_without_transport_refuses:
  assumes "ws_transport s = None"
  shows "WorkerSession_Submit task s w =
      (\<lparr>sr_task_id = tm_task_id task, sr_success = False, sr_detail = ''transport is not configured'',
        sr_work_request_id = 0\<rparr>, s, w) \<and>
    WorkerSession_SendResult result s w = (False, s, w) \<and> WorkerSession_PollTask others s w = (None, s, w)"
  using assms by (simp add: WorkerSession_Submit_def WorkerSession_SendResult_def WorkerSession_PollTask_def)

theorem session_without_transport_refuses_witness:
  "\<exists>s w. WorkerSession_new WorkerSessionConfig_default None empty_world = (s, w) \<and>
     WorkerSession_SendResult sample_result s w = (False, s, w)"
proof -
  obtain s w where new: "WorkerSession_new WorkerSessionConfig_default None empty_world = (s, w)"
    by (metis surj_pair)
  then have "ws_transport s = None" by (auto simp: WorkerSession_new_def split: prod.splits)
  from session_without_transport_refuses [OF this] new show ?thesis by blast
qed

end
