(* ===== verification/Rdma_Cluster.thy ===== *)
theory Rdma_Cluster
  imports Rdma_Worker_Session
begin

text \<open>
  Several worker sessions on one shared transport. The abstract specification is a network
  of bounded queues of task messages, one per node: a submission appends to the queue of
  the addressed node, a poll takes from the queue of the polling node. Every interleaving
  of \<open>Submit\<close> and \<open>PollTask\<close> calls of the sessions refines it, so serialisation,
  registered buffers, pointers, connections and completions are invisible to the tasks.
\<close>

section \<open>The abstract network\<close>

type_synonym network = "string \<Rightarrow> TaskMessage list"

definition net_send :: "nat \<Rightarrow> string \<Rightarrow> TaskMessage \<Rightarrow> network \<Rightarrow> network" where
  "net_send cap node task N = N(node := keep_last cap (N node @ [task]))"

definition net_recv :: "string \<Rightarrow> network \<Rightarrow> TaskMessage option \<times> network" where
  "net_recv node N =
     (case N node of [] \<Rightarrow> (None, N) | task # rest \<Rightarrow> (Some task, N(node := rest)))"

section \<open>Clusters of sessions\<close>

datatype ClusterOp = OpSubmit nat TaskMessage | OpPoll nat

datatype ClusterOut = OutSubmit SubmissionResult | OutPoll "TaskMessage option"

fun cluster_step ::
    "ClusterOp \<Rightarrow> (nat \<Rightarrow> WorkerSession) \<times> 'w rdma_world_scheme
       \<Rightarrow> ClusterOut \<times> (nat \<Rightarrow> WorkerSession) \<times> 'w rdma_world_scheme" where
  "cluster_step (OpSubmit i task) (S, w) =
     (case WorkerSession_Submit task (S i) w of (res, s, w1) \<Rightarrow> (OutSubmit res, S(i := s), w1))"
| "cluster_step (OpPoll i) (S, w) =
     (case WorkerSession_PollTask [] (S i) w of (res, s, w1) \<Rightarrow> (OutPoll res, S(i := s), w1))"

fun cluster_run ::
    "ClusterOp list \<Rightarrow> (nat \<Rightarrow> WorkerSession) \<times> 'w rdma_world_scheme
       \<Rightarrow> ClusterOut list \<times> (nat \<Rightarrow> WorkerSession) \<times> 'w rdma_world_scheme" where
  "cluster_run [] c = ([], c)"
| "cluster_run (op # ops) c =
     (case cluster_step op c of (out, c1) \<Rightarrow> case cluster_run ops c1 of (outs, c2) \<Rightarrow> (out # outs, c2))"

text \<open>The abstract run, with the nodes of the sessions: what each poll returns. A submission
  shows only that it succeeded.\<close>

fun net_run ::
    "nat \<Rightarrow> (nat \<Rightarrow> string) \<Rightarrow> ClusterOp list \<Rightarrow> network \<Rightarrow> (TaskMessage option + bool) list \<times> network" where
  "net_run cap node [] N = ([], N)"
| "net_run cap node (OpSubmit i task # ops) N =
     (case net_run cap node ops
             (net_send cap (if tm_target_node task = [] then node i else tm_target_node task) task N) of
        (outs, N') \<Rightarrow> (Inr True # outs, N'))"
| "net_run cap node (OpPoll i # ops) N =
     (case net_recv (node i) N of (res, N1) \<Rightarrow>
        case net_run cap node ops N1 of (outs, N') \<Rightarrow> (Inl res # outs, N'))"

fun out_view :: "ClusterOut \<Rightarrow> TaskMessage option + bool" where
  "out_view (OutSubmit res) = Inr (sr_success res)"
| "out_view (OutPoll res) = Inl res"

fun op_ok :: "ClusterOp \<Rightarrow> bool" where
  "op_ok (OpSubmit _ task) \<longleftrightarrow> TaskMessage_ok task"
| "op_ok (OpPoll _) \<longleftrightarrow> True"

section \<open>The refinement\<close>

definition net_abs :: "nat \<Rightarrow> 'w rdma_world_scheme \<Rightarrow> network" where
  "net_abs t w node = inbox_tasks t node w"

definition net_ok :: "nat \<Rightarrow> 'w rdma_world_scheme \<Rightarrow> bool" where
  "net_ok t w \<longleftrightarrow>
     (\<forall>node. inbox_valid t node w \<and> fits (tr_cap (transports w t)) (length (inbox_of node (transports w t))))"

definition cluster_ok :: "nat \<Rightarrow> (nat \<Rightarrow> WorkerSession) \<Rightarrow> 'w rdma_world_scheme \<Rightarrow> bool" where
  "cluster_ok t S w \<longleftrightarrow>
     net_ok t w \<and> (\<forall>i. ws_transport (S i) = Some t \<and> session_peers.peers_ok (S i))"

lemma Deserialize_cells:
  "cells w' = cells w \<Longrightarrow> TaskMessage_DeserializePtr p w' = TaskMessage_DeserializePtr p w"
  by (simp add: TaskMessage_DeserializePtr_def split: option.splits)

lemma Submit_refines:
  fixes w :: "'b rdma_world_scheme"
  assumes "net_ok t w" "ws_transport s = Some t" "session_peers.peers_ok s" "TaskMessage_ok task"
    "WorkerSession_Submit task s w = (res, s', w')"
  shows "net_ok t w'" "net_abs t w' = net_send (tr_cap (transports w t)) (task_peer s task) task (net_abs t w)"
    "tr_cap (transports w' t) = tr_cap (transports w t)" "sr_success res"
    "ws_transport s' = Some t" "session_peers.peers_ok s'" "ws_config s' = ws_config s"
proof -
  let ?k = "task_peer s task" and ?cap = "tr_cap (transports w t)"
  have "net_ok t w' \<and> net_abs t w' = net_send ?cap ?k task (net_abs t w) \<and> tr_cap (transports w' t) = ?cap
     \<and> sr_success res \<and> ws_transport s' = Some t \<and> session_peers.peers_ok s' \<and> ws_config s' = ws_config s"
  proof (rule Submit_effect [OF assms(2,3,5)])
    fix msg registry1 region and w1 :: "'b rdma_world_scheme"
    let ?qp = "ready_qp (ws_node s) ?k"
    assume send: "TransportRdma_PostSend t ?qp msg (ws_completions s)
        (snd (make_shared (TaskMessage_Serialize task) w1)) = (ws_completions s', w')"
      and msg: "msg_payload msg = Some (next_cell w1)"
      and s': "session_peers.peers_ok s'" "ws_transport s' = ws_transport s" "ws_config s' = ws_config s"
      and res: "res = \<lparr>sr_task_id = tm_task_id task, sr_success = True,
            sr_detail = ''task submitted through rdma session'', sr_work_request_id = ws_next_work_request_id s\<rparr>"
      and w1: "cells w1 = cells w" "next_cell w1 = next_cell w"
        "\<And>node t. inbox_of node (transports w1 t) = inbox_of node (transports w t)"
        "\<And>t. tr_config (transports w1 t) = tr_config (transports w t)"
    have ok1: "inbox_valid t node w1" "fits (tr_cap (transports w1 t)) (length (inbox_of node (transports w1 t)))"
      "inbox_tasks t node w1 = inbox_tasks t node w" for node
      using assms(1) by (auto simp: net_ok_def inbox_valid_def w1 inbox_tasks_def Deserialize_cells [OF w1(1)])
    note at = send_new_task [OF _ msg send assms(4) _ ok1(1) ok1(2), simplified]
    note eff = send_new_payload [OF _ msg send, simplified]
    have other: "inbox_of node (transports w' t) = inbox_of node (transports w t)" if "node \<noteq> ?k" for node
    proof -
      have "inbox_of node (transports w' t) = inbox_of node (transports w1 t)"
        using locked_deliver_other [OF that] by (simp add: eff(7) inbox_of_def)
      then show ?thesis by (simp add: w1(3))
    qed
    have valid: "inbox_valid t node w'" for node
      using at(1) other ok1(1) [of node] eff(2) w1(3)
      by (cases "node = ?k") (auto simp: inbox_valid_def less_Suc_eq)
    moreover have "fits ?cap (length (inbox_of node (transports w' t)))" for node
      using at(4) other ok1(2) [of node] w1(3,4) by (cases "node = ?k") auto
    moreover have "inbox_tasks t node w' = inbox_tasks t node w" if "node \<noteq> ?k" for node
      using inbox_tasks_extend [OF ok1(1) eff(1), of "inbox_of node (transports w t)" node]
      by (simp add: inbox_tasks_def [of _ _ w'] other [OF that] w1(3) flip: ok1(3))
        (simp add: inbox_tasks_def w1(3))
    then have "net_abs t w' = net_send ?cap ?k task (net_abs t w)"
      using at(2) ok1(3) w1(4) by (auto simp: net_abs_def net_send_def fun_eq_iff)
    ultimately show ?thesis
      using at(3) s' res w1(4) assms(2) by (simp add: net_ok_def)
  qed
  then show "net_ok t w'" "net_abs t w' = net_send ?cap ?k task (net_abs t w)"
    "tr_cap (transports w' t) = ?cap" "sr_success res"
    "ws_transport s' = Some t" "session_peers.peers_ok s'" "ws_config s' = ws_config s"
    by simp_all
qed

lemma PollTask_refines:
  assumes "net_ok t w" "ws_transport s = Some t" "WorkerSession_PollTask [] s w = (res, s', w')"
  shows "net_ok t w'" "(res, net_abs t w') = net_recv (ws_node s) (net_abs t w)"
    "tr_cap (transports w' t) = tr_cap (transports w t)"
    "ws_transport s' = Some t" "ws_config s' = ws_config s" "ws_peers s' = ws_peers s"
proof -
  let ?k = "ws_node s" and ?tr = "transports w t"
  have "net_ok t w' \<and> (res, net_abs t w') = net_recv ?k (net_abs t w) \<and> tr_cap (transports w' t) = tr_cap ?tr
     \<and> ws_transport s' = Some t \<and> ws_config s' = ws_config s \<and> ws_peers s' = ws_peers s"
  proof (cases "inbox_of ?k ?tr")
    case Nil
    have eq: "res = None" "s' = s" "w' = set_transport t (?tr\<lparr>inboxes := emplace ?k [] (inboxes ?tr)\<rparr>) w"
      using assms(2,3) Nil by (auto simp: WorkerSession_PollTask_def PollReceive_undisturbed inbox_pop_def)
    then show ?thesis
      using assms(1,2) Nil
      by (simp add: net_ok_def inbox_valid_def net_abs_def inbox_tasks_def net_recv_def fun_eq_iff
          Deserialize_cells [of "set_transport t _ w" w])
  next
    case (Cons msg rest)
    then obtain a where a: "msg_payload msg = Some a"
      using assms(1) unfolding net_ok_def inbox_valid_def by (metis list.set_intros(1))
    let ?tr' = "?tr\<lparr>inboxes := (inboxes ?tr)(?k \<mapsto> rest)\<rparr>"
    have eq: "res = Some (TaskMessage_DeserializePtr (msg_payload msg) w)"
      "s' = s\<lparr>ws_metrics := Metrics_RecordReceive (length (cells w a)) (ws_metrics s)\<rparr>"
      "w' = set_transport t ?tr' w"
      using PollTask_session_ready [OF assms(2) Cons a, of "[]"] assms(3) a
      by (auto simp: TaskMessage_DeserializePtr_def)
    have box: "inbox_of node ?tr' = (if node = ?k then rest else inbox_of node ?tr)" for node
      by (simp add: inbox_of_def)
    have "fits (tr_cap ?tr) (length (inbox_of node ?tr'))" for node
      using assms(1) Cons by (auto simp: net_ok_def box fits_def dest: spec [of _ ?k])
    moreover have "inbox_valid t node w'" for node
      using assms(1) Cons by (auto simp: net_ok_def inbox_valid_def eq box dest: spec [of _ ?k])
    moreover have "(res, net_abs t w') = net_recv ?k (net_abs t w)"
      using Cons by (auto simp: net_abs_def inbox_tasks_def net_recv_def fun_eq_iff eq box
          Deserialize_cells [of "set_transport t ?tr' w" w])
    ultimately show ?thesis using assms(2) by (simp add: net_ok_def eq)
  qed
  then show "net_ok t w'" "(res, net_abs t w') = net_recv ?k (net_abs t w)"
    "tr_cap (transports w' t) = tr_cap ?tr" "ws_transport s' = Some t" "ws_config s' = ws_config s"
    "ws_peers s' = ws_peers s"
    by simp_all
qed

lemma cluster_step_refines:
  assumes "cluster_ok t S w" "op_ok op" "cluster_step op (S, w) = (out, S', w')"
  shows "cluster_ok t S' w'" "tr_cap (transports w' t) = tr_cap (transports w t)"
    "(\<lambda>i. ws_node (S' i)) = (\<lambda>i. ws_node (S i))"
    "net_run cap node (op # ops) N =
       (case net_run cap node [op] N of (os, N1) \<Rightarrow> case net_run cap node ops N1 of (outs, N') \<Rightarrow> (os @ outs, N'))"
    "net_run (tr_cap (transports w t)) (\<lambda>i. ws_node (S i)) [op] (net_abs t w) = ([out_view out], net_abs t w')"
proof -
  have "cluster_ok t S' w' \<and> tr_cap (transports w' t) = tr_cap (transports w t) \<and>
    (\<lambda>i. ws_node (S' i)) = (\<lambda>i. ws_node (S i)) \<and>
    net_run (tr_cap (transports w t)) (\<lambda>i. ws_node (S i)) [op] (net_abs t w) = ([out_view out], net_abs t w')"
  proof (cases op)
    case (OpSubmit i task)
    obtain res s w1 where sub: "WorkerSession_Submit task (S i) w = (res, s, w1)" by (metis prod_cases3)
    have "out = OutSubmit res" "S' = S(i := s)" "w' = w1" using assms(3) OpSubmit sub by auto
    then show ?thesis
      using Submit_refines [OF _ _ _ _ sub, of t] assms(1,2) OpSubmit
      by (auto simp: cluster_ok_def task_peer_def fun_eq_iff)
  next
    case (OpPoll i)
    obtain res s w1 where poll: "WorkerSession_PollTask [] (S i) w = (res, s, w1)" by (metis prod_cases3)
    have out: "out = OutPoll res" "S' = S(i := s)" "w' = w1" using assms(3) OpPoll poll by auto
    have ok: "net_ok t w" "ws_transport (S i) = Some t" "session_peers.peers_ok (S i)"
      using assms(1) by (auto simp: cluster_ok_def)
    note ref = PollTask_refines [OF ok(1,2) poll]
    have "session_peers.peers_ok s" using ok(3) ref(5,6) by (simp add: session_peers.peers_ok_def)
    then show ?thesis
      using ref assms(1) OpPoll out by (auto simp: cluster_ok_def fun_eq_iff simp flip: ref(2))
  qed
  then show "cluster_ok t S' w'" "tr_cap (transports w' t) = tr_cap (transports w t)"
    "(\<lambda>i. ws_node (S' i)) = (\<lambda>i. ws_node (S i))"
    "net_run (tr_cap (transports w t)) (\<lambda>i. ws_node (S i)) [op] (net_abs t w) = ([out_view out], net_abs t w')"
    by blast+
  show "net_run cap node (op # ops) N =
       (case net_run cap node [op] N of (os, N1) \<Rightarrow> case net_run cap node ops N1 of (outs, N') \<Rightarrow> (os @ outs, N'))"
    by (cases op) (simp_all split: prod.splits)
qed

lemma cluster_run_refines:
  assumes "cluster_ok t S w" "\<forall>op \<in> set ops. op_ok op" "cluster_run ops (S, w) = (outs, S', w')"
  shows "cluster_ok t S' w' \<and>
    net_run (tr_cap (transports w t)) (\<lambda>i. ws_node (S i)) ops (net_abs t w) = (map out_view outs, net_abs t w')"
  using assms
proof (induction ops arbitrary: S w outs)
  case (Cons op ops)
  obtain out S1 w1 where step: "cluster_step op (S, w) = (out, S1, w1)" by (metis prod_cases3)
  obtain outs1 where run: "cluster_run ops (S1, w1) = (outs1, S', w')" "outs = out # outs1"
    using Cons.prems(3) step by (auto split: prod.splits)
  have ok: "op_ok op" "\<forall>op \<in> set ops. op_ok op" using Cons.prems(2) by simp_all
  note ref = cluster_step_refines [OF Cons.prems(1) ok(1) step]
  show ?case
    using Cons.IH [OF ref(1) ok(2) run(1)] ref(2,3,5) run(2)
    by (simp add: ref(4) [of _ _ ops])
qed simp

section \<open>A burst of submissions\<close>

lemma net_run_submits:
  assumes "\<forall>task \<in> set ts. (if tm_target_node task = [] then node i else tm_target_node task) = k"
    "fits cap (length (N k))"
  shows "net_run cap node (map (OpSubmit i) ts) N =
    (replicate (length ts) (Inr True), N(k := keep_last cap (N k @ ts)))"
  using assms
proof (induction ts arbitrary: N)
  case (Cons task ts)
  have k: "(if tm_target_node task = [] then node i else tm_target_node task) = k"
    "\<forall>task \<in> set ts. (if tm_target_node task = [] then node i else tm_target_node task) = k"
    using Cons.prems(1) by auto
  have "fits cap (length (net_send cap k task N k))" by (simp add: net_send_def)
  note IH = Cons.IH [of "net_send cap k task N", OF k(2) this]
  have "keep_last cap (keep_last cap (N k @ [task]) @ ts) = keep_last cap (N k @ task # ts)"
    by (simp add: keep_last_append)
  then have upd: "(net_send cap k task N)(k := keep_last cap (net_send cap k task N k @ ts)) =
      N(k := keep_last cap (N k @ task # ts))"
    by (simp add: net_send_def)
  show ?case unfolding list.map net_run.simps k(1) IH upd by (simp add: fun_eq_iff)
qed simp

lemma net_run_polls:
  "net_run cap node (replicate n (OpPoll j)) N =
     (map (Inl \<circ> Some) (take n (N (node j))) @ replicate (n - length (N (node j))) (Inl None),
      N(node j := drop n (N (node j))))"
proof (induction n arbitrary: N)
  case (Suc n)
  show ?case
    by (cases "N (node j)") (simp_all add: Suc.IH net_recv_def fun_eq_iff)
qed simp

lemma net_run_append:
  "net_run cap node (ops @ ops') N =
     (case net_run cap node ops N of (outs, N1) \<Rightarrow>
        case net_run cap node ops' N1 of (outs', N') \<Rightarrow> (outs @ outs', N'))"
proof (induction ops arbitrary: N)
  case (Cons op ops)
  show ?case by (cases op) (simp_all add: Cons.IH split: prod.splits)
qed (simp split: prod.splits)

end
