(* ===== verification/Rdma_Poller.thy ===== *)
theory Rdma_Poller
  imports Rdma_Transport
begin

text \<open>
  The background poller of \<open>rdma/src/poller.cpp\<close>: a thread that hands the messages of a
  node's inbox and the events of a completion queue to two handlers. A handler is an
  update of the caller's state; an empty \<open>std::function\<close> is \<open>None\<close>. Completion queues
  are at addresses (the poller keeps a pointer), \<open>cqs\<close> is their state. The thread's
  loop takes one entry per iteration: what \<open>running_.load()\<close> reads, and what other threads do
  during the two waits.
\<close>

record 'h PollerThread =
  on_message :: "(Message \<Rightarrow> 'h \<Rightarrow> 'h) option"
  on_completion :: "(CompletionEvent \<Rightarrow> 'h \<Rightarrow> 'h) option"

record 'h Poller =
  po_transport :: "nat option"
  po_node_id :: string
  po_completions :: "nat option"
  po_running :: bool
  po_thread :: "'h PollerThread option"

definition Poller_new :: "nat option \<Rightarrow> string \<Rightarrow> nat option \<Rightarrow> 'h Poller" where
  "Poller_new transport node_id completions =
     \<lparr>po_transport = transport, po_node_id = node_id, po_completions = completions,
      po_running = False, po_thread = None\<rparr>"

definition Poller_Start ::
    "(Message \<Rightarrow> 'h \<Rightarrow> 'h) option \<Rightarrow> (CompletionEvent \<Rightarrow> 'h \<Rightarrow> 'h) option \<Rightarrow> 'h Poller \<Rightarrow> bool \<times> 'h Poller" where
  "Poller_Start om oc p =
     (if po_running p then (False, p\<lparr>po_running := True\<rparr>)
      else (True, p\<lparr>po_running := True, po_thread := Some \<lparr>on_message = om, on_completion = oc\<rparr>\<rparr>))"

text \<open>\<open>Stop()\<close> returns once the thread's loop has read the cleared flag and ended.\<close>

definition Poller_Stop :: "'h Poller \<Rightarrow> 'h Poller" where
  "Poller_Stop p = p\<lparr>po_running := False, po_thread := None\<rparr>"

record ('h, 'w) poller_world =
  pw_handled :: 'h
  pw_cqs :: "nat \<Rightarrow> CompletionQueue"
  pw_world :: "'w rdma_world_scheme"

definition poller_receive ::
    "('w rdma_world_scheme \<Rightarrow> 'w rdma_world_scheme) list \<Rightarrow> 'h Poller \<Rightarrow> 'h PollerThread
       \<Rightarrow> ('h, 'w) poller_world \<Rightarrow> ('h, 'w) poller_world" where
  "poller_receive others p th s =
     (case (po_transport p, on_message th) of
        (Some t, Some handler) \<Rightarrow>
          (case TransportRdma_PollReceive others t (po_node_id p) (pw_world s) of
             (None, w) \<Rightarrow> s\<lparr>pw_world := w\<rparr>
           | (Some message, w) \<Rightarrow> s\<lparr>pw_world := w, pw_handled := handler message (pw_handled s)\<rparr>)
      | _ \<Rightarrow> s)"

definition poller_complete ::
    "(CompletionQueue \<Rightarrow> CompletionQueue) list \<Rightarrow> 'h Poller \<Rightarrow> 'h PollerThread
       \<Rightarrow> ('h, 'w) poller_world \<Rightarrow> ('h, 'w) poller_world" where
  "poller_complete others p th s =
     (case (po_completions p, on_completion th) of
        (Some a, Some handler) \<Rightarrow>
          (case CompletionQueue_Poll others (pw_cqs s a) of
             (None, q) \<Rightarrow> s\<lparr>pw_cqs := (pw_cqs s)(a := q)\<rparr>
           | (Some event, q) \<Rightarrow>
               s\<lparr>pw_cqs := (pw_cqs s)(a := q), pw_handled := handler event (pw_handled s)\<rparr>)
      | _ \<Rightarrow> s)"

text \<open>The body of the thread; the final \<open>sleep_for\<close> changes nothing.\<close>

fun poller_loop ::
    "(bool \<times> ('w rdma_world_scheme \<Rightarrow> 'w rdma_world_scheme) list \<times> (CompletionQueue \<Rightarrow> CompletionQueue) list) list
       \<Rightarrow> 'h Poller \<Rightarrow> 'h PollerThread \<Rightarrow> ('h, 'w) poller_world \<Rightarrow> ('h, 'w) poller_world" where
  "poller_loop [] p th s = s"
| "poller_loop ((is_running, others_m, others_c) # rest) p th s =
     (if \<not> is_running then s
      else poller_loop rest p th (poller_complete others_c p th (poller_receive others_m p th s)))"

lemma poller_receive_undisturbed:
  assumes "po_transport p = Some t" "on_message th = Some handler"
  shows "poller_receive [] p th s =
    (case inbox_of (po_node_id p) (transports (pw_world s) t) of
       [] \<Rightarrow> s\<lparr>pw_world := snd (TransportRdma_PollReceive [] t (po_node_id p) (pw_world s))\<rparr>
     | msg # rest \<Rightarrow>
         s\<lparr>pw_world := snd (TransportRdma_PollReceive [] t (po_node_id p) (pw_world s)),
           pw_handled := handler msg (pw_handled s)\<rparr>)"
  using assms
  by (simp add: poller_receive_def PollReceive_undisturbed inbox_pop_def split: list.splits)

lemma inbox_after_receive:
  "inbox_of node (transports (snd (TransportRdma_PollReceive [] t node w)) t) =
   tl (inbox_of node (transports w t))"
  using inbox_fifo.pop_Nil [of node "transports w t"] inbox_fifo.pop_Cons [of node "transports w t"]
  by (cases "inbox_of node (transports w t)") (simp_all add: PollReceive_undisturbed)

text \<open>Handlers that record what they are given.\<close>

definition log_message :: "Message \<Rightarrow> Message list \<times> CompletionEvent list \<Rightarrow> Message list \<times> CompletionEvent list" where
  "log_message m h = (fst h @ [m], snd h)"

definition log_event :: "CompletionEvent \<Rightarrow> Message list \<times> CompletionEvent list \<Rightarrow> Message list \<times> CompletionEvent list" where
  "log_event e h = (fst h, snd h @ [e])"

lemma poller_iteration:
  assumes "po_transport p = Some t" "po_completions p = Some a"
    "on_message th = Some log_message" "on_completion th = Some log_event"
  shows "pw_handled (poller_complete [] p th (poller_receive [] p th s)) =
      (fst (pw_handled s) @ take 1 (inbox_of (po_node_id p) (transports (pw_world s) t)),
       snd (pw_handled s) @ take 1 (cq_queue (pw_cqs s a)))"
    "inbox_of (po_node_id p) (transports (pw_world (poller_complete [] p th (poller_receive [] p th s))) t) =
      tl (inbox_of (po_node_id p) (transports (pw_world s) t))"
    "cq_queue (pw_cqs (poller_complete [] p th (poller_receive [] p th s)) a) = tl (cq_queue (pw_cqs s a))"
  by (cases "inbox_of (po_node_id p) (transports (pw_world s) t)"; cases "cq_queue (pw_cqs s a)";
      simp add: poller_receive_undisturbed [OF assms(1,3)] poller_complete_def assms(2,4) inbox_after_receive
        CompletionQueue_Poll_def log_message_def log_event_def)+

lemma poller_loop_delivers:
  assumes "po_transport p = Some t" "po_completions p = Some a"
    "on_message th = Some log_message" "on_completion th = Some log_event"
  shows "pw_handled (poller_loop (replicate n (True, [], []) @ (False, om, oc) # rest) p th s) =
      (fst (pw_handled s) @ take n (inbox_of (po_node_id p) (transports (pw_world s) t)),
       snd (pw_handled s) @ take n (cq_queue (pw_cqs s a)))"
proof (induction n arbitrary: s)
  case (Suc n)
  show ?case
    using Suc.IH [of "poller_complete [] p th (poller_receive [] p th s)"] poller_iteration [OF assms, of s]
    by (cases "inbox_of (po_node_id p) (transports (pw_world s) t)"; cases "cq_queue (pw_cqs s a)") simp_all
qed simp

section \<open>Properties\<close>

text \<open>
  The poller's thread delivers in order and exactly once: until it sees the stop flag, its
  \<open>n\<close> iterations hand the first \<open>n\<close> messages of the inbox to the message handler and the
  first \<open>n\<close> events of the queue to the completion handler, and an iteration after the
  flag was read does not happen.
\<close>

theorem poller_delivers_in_order:
  assumes "po_transport p = Some t" "po_completions p = Some a"
    "on_message th = Some log_message" "on_completion th = Some log_event" "pw_handled s = ([], [])"
  shows "pw_handled (poller_loop (replicate n (True, [], []) @ (False, om, oc) # rest) p th s) =
      (take n (inbox_of (po_node_id p) (transports (pw_world s) t)), take n (cq_queue (pw_cqs s a)))"
  using poller_loop_delivers [OF assms(1-4), of n om oc rest s] assms(5) by simp

theorem poller_delivers_in_order_witness:
  "pw_handled (poller_loop [(True, [], []), (False, [], []), (True, [], [])]
      (Poller_new (Some 0) ''n'' (Some 0)) \<lparr>on_message = Some log_message, on_completion = Some log_event\<rparr>
      \<lparr>pw_handled = ([], []),
       pw_cqs = \<lambda>_. \<lparr>cq_config = \<lparr>depth = 4\<rparr>, cq_queue = [sample_event 1, sample_event 2], cq_channels = []\<rparr>,
       pw_world = empty_world\<rparr>) = ([], [sample_event 1])"
proof -
  let ?p = "Poller_new (Some 0) ''n'' (Some 0) :: (Message list \<times> CompletionEvent list) Poller"
  let ?th = "\<lparr>on_message = Some log_message, on_completion = Some log_event\<rparr>"
  let ?s = "\<lparr>pw_handled = ([], []),
       pw_cqs = \<lambda>_. \<lparr>cq_config = \<lparr>depth = 4\<rparr>, cq_queue = [sample_event 1, sample_event 2], cq_channels = []\<rparr>,
       pw_world = empty_world\<rparr>"
  show ?thesis
    using poller_delivers_in_order [of ?p 0 0 ?th ?s 1 "[]" "[]" "[(True, [], [])]"]
    by (simp add: Poller_new_def del: poller_loop.simps)
qed

end
