(* ===== verification/Rdma_Client_Server.thy ===== *)
theory Rdma_Client_Server
  imports Rdma_Peers
begin

text \<open>
  The client (\<open>rdma/src/rdma_client.cpp\<close>) and the server (\<open>rdma/src/rdma_server.cpp\<close>).
  \<open>transport_\<close> is a \<open>shared_ptr\<close>: \<open>None\<close> is the null pointer, \<open>Some t\<close> the transport at
  address \<open>t\<close> of the world.
\<close>

section \<open>RdmaClient\<close>

record RdmaClient =
  rc_config :: ClientConfig
  rc_transport :: "nat option"
  rc_connection :: Connection
  rc_registry :: MemoryRegistry
  rc_completions :: CompletionQueue
  rc_next_work_request_id :: WorkRequestId

definition RdmaClient_new :: "ClientConfig \<Rightarrow> nat option \<Rightarrow> RdmaClient" where
  "RdmaClient_new config transport =
     \<lparr>rc_config = config, rc_transport = transport,
      rc_connection = Connection_new (QueuePair_new
        \<lparr>local_node = client_node_id config, remote_node = server_node config,
         max_send_wr = 256, max_recv_wr = 256\<rparr>),
      rc_registry = MemoryRegistry_new,
      rc_completions = CompletionQueue_new CompletionQueueConfig_default,
      rc_next_work_request_id = 1\<rparr>"

definition RdmaClient_Connect ::
    "RdmaClient \<Rightarrow> 'w rdma_world_scheme \<Rightarrow> bool \<times> RdmaClient \<times> 'w rdma_world_scheme" where
  "RdmaClient_Connect c w =
     (case rc_transport c of
        None \<Rightarrow> (False, c, w)
      | Some t \<Rightarrow>
          (let request = Handshake_Build (qp_config (queue_pair (rc_connection c)));
               response = Handshake_Validate request
           in if \<not> accepted response then (False, c, w)
              else case Connection_Establish (rc_connection c) of (ok, conn) \<Rightarrow>
                (let c1 = c\<lparr>rc_connection := conn\<rparr>
                 in if \<not> ok then (False, c1, w)
                    else (True, c1, TransportRdma_Connect t (queue_pair conn) w))))"

definition RdmaClient_SubmitTask ::
    "TaskMessage \<Rightarrow> RdmaClient \<Rightarrow> 'w rdma_world_scheme
       \<Rightarrow> WorkRequestId \<times> RdmaClient \<times> 'w rdma_world_scheme" where
  "RdmaClient_SubmitTask task c w =
     (if \<not> established (rc_connection c) then (0, c, w)
      else case rc_transport c of
        None \<Rightarrow> (0, c, w)
      | Some t \<Rightarrow>
          (case MemoryRegistry_Register (TaskMessage_Serialize task) (rc_registry c) w of
             (region, registry1, w1) \<Rightarrow>
               (let work_request_id = rc_next_work_request_id c in
                case TransportRdma_PostSend t (queue_pair (rc_connection c))
                       \<lparr>msg_source = client_node_id (rc_config c),
                        msg_destination = server_node (rc_config c),
                        msg_topic = ''task'', msg_description = tm_description task,
                        msg_payload = mr_storage region,
                        msg_work_request_id = work_request_id, msg_operation = kSend\<rparr>
                       (rc_completions c) w1 of
                  (completions1, w2) \<Rightarrow>
                    (work_request_id,
                     c\<lparr>rc_registry := registry1, rc_completions := completions1,
                       rc_next_work_request_id := rc_next_work_request_id c + 1\<rparr>, w2))))"

definition RdmaClient_PollResult ::
    "('w rdma_world_scheme \<Rightarrow> 'w rdma_world_scheme) list \<Rightarrow> RdmaClient \<Rightarrow> 'w rdma_world_scheme
       \<Rightarrow> ResultMessage option \<times> 'w rdma_world_scheme" where
  "RdmaClient_PollResult others c w =
     (case rc_transport c of
        None \<Rightarrow> (None, w)
      | Some t \<Rightarrow>
          (case TransportRdma_PollReceive others t (client_node_id (rc_config c)) w of
             (None, w1) \<Rightarrow> (None, w1)
           | (Some message, w1) \<Rightarrow>
               if msg_payload message = None then (None, w1)
               else (Some (ResultMessage_DeserializePtr (msg_payload message) w1), w1)))"

definition RdmaClient_PollCompletion ::
    "(CompletionQueue \<Rightarrow> CompletionQueue) list \<Rightarrow> RdmaClient \<Rightarrow> CompletionEvent option \<times> RdmaClient" where
  "RdmaClient_PollCompletion others c =
     (case CompletionQueue_Poll others (rc_completions c) of (event, q) \<Rightarrow> (event, c\<lparr>rc_completions := q\<rparr>))"

text \<open>The connection of a client is the one over its own configuration, up or not yet.\<close>

definition client_ok :: "RdmaClient \<Rightarrow> bool" where
  "client_ok c \<longleftrightarrow>
     rc_connection c = ready_connection (client_node_id (rc_config c)) (server_node (rc_config c)) \<or>
     rc_connection c = Connection_new (QueuePair_new
       (peer_config (client_node_id (rc_config c)) (server_node (rc_config c))))"

lemma RdmaClient_new_ok: "client_ok (RdmaClient_new config transport)"
  by (simp add: client_ok_def RdmaClient_new_def peer_config_def)

lemma RdmaClient_Connect_eq:
  assumes "client_ok c"
  shows "RdmaClient_Connect c w =
    (case rc_transport c of
       None \<Rightarrow> (False, c, w)
     | Some t \<Rightarrow>
         if client_node_id (rc_config c) = [] \<or> server_node (rc_config c) = [] then (False, c, w)
         else (True,
               c\<lparr>rc_connection := ready_connection (client_node_id (rc_config c)) (server_node (rc_config c))\<rparr>,
               TransportRdma_Connect t (ready_qp (client_node_id (rc_config c)) (server_node (rc_config c))) w))"
proof -
  let ?n = "client_node_id (rc_config c)" and ?s = "server_node (rc_config c)"
  have cfg: "qp_config (queue_pair (rc_connection c)) = peer_config ?n ?s"
    using assms by (auto simp: client_ok_def Connection_new_def QueuePair_new_def ready_connection_def ready_qp_def)
  have "Connection_Establish (rc_connection c) = (True, ready_connection ?n ?s)"
    using assms
    by (auto simp: client_ok_def Establish_eq Connection_new_def QueuePair_new_def ready_connection_def ready_qp_def)
  then show ?thesis
    by (auto simp: RdmaClient_Connect_def Let_def cfg Validate_Build peer_config_def split: option.splits)
qed

lemma RdmaClient_Connect_ok:
  "client_ok c \<Longrightarrow> RdmaClient_Connect c w = (ok, c', w') \<Longrightarrow> client_ok c'"
  by (auto simp: RdmaClient_Connect_eq client_ok_def split: option.splits if_splits)

lemma SubmitTask_ready:
  assumes "rc_connection c = ready_connection (client_node_id (rc_config c)) (server_node (rc_config c))"
    "rc_transport c = Some t" "RdmaClient_SubmitTask task c w = (wid, c', w')"
  obtains msg cq where
    "TransportRdma_PostSend t (ready_qp (client_node_id (rc_config c)) (server_node (rc_config c))) msg
       (rc_completions c) (snd (make_shared (TaskMessage_Serialize task) w)) = (cq, w')"
    "msg_payload msg = Some (next_cell w)" "msg_work_request_id msg = wid" "msg_operation msg = kSend"
    "msg_topic msg = ''task''"
    "wid = rc_next_work_request_id c" "rc_completions c' = cq"
    "rc_next_work_request_id c' = wid + 1" "rc_connection c' = rc_connection c"
    "rc_config c' = rc_config c" "rc_transport c' = rc_transport c"
proof -
  obtain g r1 w1 where reg: "MemoryRegistry_Register (TaskMessage_Serialize task) (rc_registry c) w = (g, r1, w1)"
    by (metis prod_cases3)
  let ?msg = "\<lparr>msg_source = client_node_id (rc_config c), msg_destination = server_node (rc_config c),
      msg_topic = ''task'', msg_description = tm_description task, msg_payload = mr_storage g,
      msg_work_request_id = rc_next_work_request_id c, msg_operation = kSend\<rparr>"
  obtain cq w2 where send: "TransportRdma_PostSend t
      (ready_qp (client_node_id (rc_config c)) (server_node (rc_config c))) ?msg (rc_completions c) w1 = (cq, w2)"
    by (metis surj_pair)
  have "wid = rc_next_work_request_id c" "w' = w2"
    "c' = c\<lparr>rc_registry := r1, rc_completions := cq,
            rc_next_work_request_id := rc_next_work_request_id c + 1\<rparr>"
    using assms(3) send reg
    by (auto simp: RdmaClient_SubmitTask_def assms(1,2) ready_connection_def Let_def)
  with send show thesis
    using that [of ?msg cq] Register_world [OF reg] by simp
qed

text \<open>On an empty inbox of the server a submission is the only message there, whatever the
  capacity of the mailbox.\<close>

lemma SubmitTask_delivers:
  assumes "rc_connection c = ready_connection (client_node_id (rc_config c)) (server_node (rc_config c))"
    "rc_transport c = Some t" "inbox_of (server_node (rc_config c)) (transports w t) = []"
    "RdmaClient_SubmitTask task c w = (wid, c', w')"
  shows "wid = rc_next_work_request_id c"
    "\<exists>msg. inbox_of (server_node (rc_config c)) (transports w' t) = [msg] \<and> msg_payload msg = Some (next_cell w)"
    "cells w' (next_cell w) = TaskMessage_Serialize task"
    "node \<noteq> server_node (rc_config c) \<Longrightarrow> inbox_of node (transports w' t) = inbox_of node (transports w t)"
    "rc_transport c' = rc_transport c" "rc_config c' = rc_config c"
    "\<exists>e. rc_completions c' = CompletionQueue_locked_push e (rc_completions c) \<and>
         ce_status e = CS_kSuccess \<and> ce_work_request_id e = wid"
    "rc_connection c' = rc_connection c" "rc_next_work_request_id c' = wid + 1"
proof -
  let ?qp = "ready_qp (client_node_id (rc_config c)) (server_node (rc_config c))"
  obtain msg cq where msg: "TransportRdma_PostSend t ?qp msg
       (rc_completions c) (snd (make_shared (TaskMessage_Serialize task) w)) = (cq, w')"
    "msg_payload msg = Some (next_cell w)" "msg_work_request_id msg = wid" "wid = rc_next_work_request_id c"
    "rc_completions c' = cq" "rc_config c' = rc_config c" "rc_transport c' = rc_transport c"
    "rc_connection c' = rc_connection c" "rc_next_work_request_id c' = wid + 1"
    by (rule SubmitTask_ready [OF assms(1,2,4)])
  note eff = send_new_payload [OF _ msg(2,1), simplified]
  note box = PostSend_inbox(1) [OF _ msg(1), simplified]
  show "wid = rc_next_work_request_id c" "rc_transport c' = rc_transport c" "rc_config c' = rc_config c"
    "rc_connection c' = rc_connection c" "rc_next_work_request_id c' = wid + 1"
    by (fact msg)+
  show "cells w' (next_cell w) = TaskMessage_Serialize task" by (simp add: eff(1))
  show "\<exists>msg. inbox_of (server_node (rc_config c)) (transports w' t) = [msg] \<and> msg_payload msg = Some (next_cell w)"
    using box [of "server_node (rc_config c)" t] assms(3) msg(2) by simp
  show "node \<noteq> server_node (rc_config c) \<Longrightarrow> inbox_of node (transports w' t) = inbox_of node (transports w t)"
    using box [of node t] by simp
  show "\<exists>e. rc_completions c' = CompletionQueue_locked_push e (rc_completions c) \<and>
         ce_status e = CS_kSuccess \<and> ce_work_request_id e = wid"
    using eff(5) msg(3,5) by (auto simp: send_completion_def)
qed

section \<open>RdmaServer\<close>

record RdmaServer =
  rs_config :: ServerConfig
  rs_transport :: "nat option"
  rs_completions :: CompletionQueue
  rs_peers :: "string \<rightharpoonup> Connection"

definition RdmaServer_new :: "ServerConfig \<Rightarrow> nat option \<Rightarrow> RdmaServer" where
  "RdmaServer_new config transport =
     \<lparr>rs_config = config, rs_transport = transport,
      rs_completions = CompletionQueue_new CompletionQueueConfig_default, rs_peers = Map.empty\<rparr>"

definition RdmaServer_EnsurePeer ::
    "string \<Rightarrow> RdmaServer \<Rightarrow> 'w rdma_world_scheme \<Rightarrow> Connection \<times> RdmaServer \<times> 'w rdma_world_scheme" where
  "RdmaServer_EnsurePeer client_node s w =
     (case rs_peers s client_node of
        Some connection \<Rightarrow> (connection, s, w)
      | None \<Rightarrow>
          (let connection = snd (Connection_Establish (Connection_new (QueuePair_new
                 \<lparr>local_node = server_node_id (rs_config s), remote_node = client_node,
                  max_send_wr = 256, max_recv_wr = 256\<rparr>)));
               w1 = (case rs_transport s of
                       None \<Rightarrow> w
                     | Some t \<Rightarrow> TransportRdma_Connect t (queue_pair connection) w)
           in (connection, s\<lparr>rs_peers := emplace client_node connection (rs_peers s)\<rparr>, w1)))"

definition RdmaServer_Accept ::
    "string \<Rightarrow> RdmaServer \<Rightarrow> 'w rdma_world_scheme \<Rightarrow> bool \<times> RdmaServer \<times> 'w rdma_world_scheme" where
  "RdmaServer_Accept client_node s w =
     (if rs_transport s = None then (False, s, w)
      else case RdmaServer_EnsurePeer client_node s w of (_, s1, w1) \<Rightarrow> (True, s1, w1))"

definition RdmaServer_PollTask ::
    "('w rdma_world_scheme \<Rightarrow> 'w rdma_world_scheme) list \<Rightarrow> RdmaServer \<Rightarrow> 'w rdma_world_scheme
       \<Rightarrow> TaskMessage option \<times> 'w rdma_world_scheme" where
  "RdmaServer_PollTask others s w =
     (case rs_transport s of
        None \<Rightarrow> (None, w)
      | Some t \<Rightarrow>
          (case TransportRdma_PollReceive others t (server_node_id (rs_config s)) w of
             (None, w1) \<Rightarrow> (None, w1)
           | (Some message, w1) \<Rightarrow>
               if msg_payload message = None then (None, w1)
               else (Some (TaskMessage_DeserializePtr (msg_payload message) w1), w1)))"

definition RdmaServer_SendResult ::
    "string \<Rightarrow> ResultMessage \<Rightarrow> RdmaServer \<Rightarrow> 'w rdma_world_scheme
       \<Rightarrow> bool \<times> RdmaServer \<times> 'w rdma_world_scheme" where
  "RdmaServer_SendResult client_node result s w =
     (case rs_transport s of
        None \<Rightarrow> (False, s, w)
      | Some t \<Rightarrow>
          (case RdmaServer_EnsurePeer client_node s w of (connection, s1, w1) \<Rightarrow>
             (case make_shared (ResultMessage_Serialize result) w1 of (payload, w2) \<Rightarrow>
                (case TransportRdma_PostSend t (queue_pair connection)
                        \<lparr>msg_source = server_node_id (rs_config s1), msg_destination = client_node,
                         msg_topic = ''result'', msg_description = rm_detail result,
                         msg_payload = payload, msg_work_request_id = 0, msg_operation = kResult\<rparr>
                        (rs_completions s1) w2 of
                   (completions1, w3) \<Rightarrow> (True, s1\<lparr>rs_completions := completions1\<rparr>, w3)))))"

definition RdmaServer_PollCompletion ::
    "(CompletionQueue \<Rightarrow> CompletionQueue) list \<Rightarrow> RdmaServer \<Rightarrow> CompletionEvent option \<times> RdmaServer" where
  "RdmaServer_PollCompletion others s =
     (case CompletionQueue_Poll others (rs_completions s) of (event, q) \<Rightarrow> (event, s\<lparr>rs_completions := q\<rparr>))"

interpretation server_peers: peer_table RdmaServer_EnsurePeer rs_peers
  "\<lambda>s. server_node_id (rs_config s)" ready_connection
  by unfold_locales
    (auto simp: RdmaServer_EnsurePeer_def Let_def establish_ready [unfolded peer_config_def] emplace_def
      split: option.splits)

lemma RdmaServer_EnsurePeer_frame:
  assumes "RdmaServer_EnsurePeer k s w = (c, s', w')"
  shows "rs_config s' = rs_config s" "rs_transport s' = rs_transport s"
    "rs_completions s' = rs_completions s" "cells w' = cells w" "next_cell w' = next_cell w"
    "inbox_of node (transports w' t) = inbox_of node (transports w t)"
    "tr_config (transports w' t) = tr_config (transports w t)" "heap_mono w w'"
  using assms
  by (auto simp: RdmaServer_EnsurePeer_def Let_def heap_mono_def split: option.splits)

lemma PollTask_ready:
  assumes "rs_transport s = Some t" "inbox_of (server_node_id (rs_config s)) (transports w t) = msg # rest"
    "msg_payload msg = Some a"
  shows "RdmaServer_PollTask others s w =
    (Some (TaskMessage_Deserialize (cells w a)),
     set_transport t ((transports w t)\<lparr>inboxes := (inboxes (transports w t))(server_node_id (rs_config s) \<mapsto> rest)\<rparr>) w)"
  using assms(1,3) PollReceive_ready [OF assms(2), of others]
  by (simp add: RdmaServer_PollTask_def TaskMessage_DeserializePtr_def)

lemma SendResult_effect:
  assumes "rs_transport s = Some t" "server_peers.peers_ok s"
    "RdmaServer_SendResult node result s w = (ok, s', w')"
  shows "ok" "server_peers.peers_ok s'" "rs_config s' = rs_config s" "rs_transport s' = rs_transport s"
    "\<exists>msg. inbox_of node (transports w' t) =
        (if 0 < tr_cap (transports w t) \<and> tr_cap (transports w t) \<le> length (inbox_of node (transports w t))
         then tl (inbox_of node (transports w t)) else inbox_of node (transports w t)) @ [msg] \<and>
      msg_payload msg = Some (next_cell w) \<and> msg_topic msg = ''result'' \<and> msg_operation msg = kResult"
    "cells w' = (cells w)(next_cell w := ResultMessage_Serialize result)"
    "next_cell w' = Suc (next_cell w)"
    "n \<noteq> node \<Longrightarrow> inbox_of n (transports w' t) = inbox_of n (transports w t)"
proof -
  obtain c s1 w1 where ens: "RdmaServer_EnsurePeer node s w = (c, s1, w1)" by (metis prod_cases3)
  note fr = RdmaServer_EnsurePeer_frame [OF ens]
  have c: "c = ready_connection (server_node_id (rs_config s)) node"
    using server_peers.ensure_fresh [OF assms(2), of node w] ens by simp
  let ?b = "ResultMessage_Serialize result"
  let ?msg = "\<lparr>msg_source = server_node_id (rs_config s1), msg_destination = node, msg_topic = ''result'',
      msg_description = rm_detail result, msg_payload = Some (next_cell w1), msg_work_request_id = 0,
      msg_operation = kResult\<rparr>"
  let ?qp = "ready_qp (server_node_id (rs_config s)) node"
  obtain cq w3 where send: "TransportRdma_PostSend t ?qp ?msg (rs_completions s1) (snd (make_shared ?b w1)) = (cq, w3)"
    by (metis surj_pair)
  define w2 where "w2 = snd (make_shared ?b w1)"
  have ms: "make_shared ?b w1 = (Some (next_cell w1), w2)"
    by (simp add: w2_def make_shared_def)
  have res: "ok" "s' = s1\<lparr>rs_completions := cq\<rparr>" "w' = w3"
    using assms(3) unfolding RdmaServer_SendResult_def assms(1)
    by (simp_all add: ens c ms send [folded w2_def])
  show "ok" by (rule res(1))
  have "server_peers.peers_ok s1"
    using server_peers.ensure_ok [OF assms(2), of node w] ens by simp
  then show "server_peers.peers_ok s'" by (simp add: res(2) server_peers.peers_ok_def)
  show "rs_config s' = rs_config s" "rs_transport s' = rs_transport s" by (simp_all add: res(2) fr)
  note eff = send_new_payload [OF _ _ send, simplified]
  show "cells w' = (cells w)(next_cell w := ?b)" "next_cell w' = Suc (next_cell w)"
    using eff(1,2) by (simp_all add: res(3) fr)
  show "n \<noteq> node \<Longrightarrow> inbox_of n (transports w' t) = inbox_of n (transports w t)"
    using locked_deliver_other [of n node "addressed ?qp ?msg" "transports w1 t"] eff(7) fr(6) [of n t]
    by (simp add: res(3) inbox_of_def)
  have "inbox_of node (transports w' t) =
      (if 0 < tr_cap (transports w t) \<and> tr_cap (transports w t) \<le> length (inbox_of node (transports w t))
       then tl (inbox_of node (transports w t)) else inbox_of node (transports w t)) @ [addressed ?qp ?msg]"
    using inbox_fifo.items_push [of node "addressed ?qp ?msg" "transports w1 t"] eff(7)
    by (simp add: res(3) fr)
  then show "\<exists>msg. inbox_of node (transports w' t) =
        (if 0 < tr_cap (transports w t) \<and> tr_cap (transports w t) \<le> length (inbox_of node (transports w t))
         then tl (inbox_of node (transports w t)) else inbox_of node (transports w t)) @ [msg] \<and>
      msg_payload msg = Some (next_cell w) \<and> msg_topic msg = ''result'' \<and> msg_operation msg = kResult"
    using fr(5) by auto
qed

lemma PollResult_ready:
  assumes "rc_transport c = Some t" "inbox_of (client_node_id (rc_config c)) (transports w t) = msg # rest"
    "msg_payload msg = Some a"
  shows "RdmaClient_PollResult others c w =
    (Some (ResultMessage_Deserialize (cells w a)),
     set_transport t ((transports w t)\<lparr>inboxes := (inboxes (transports w t))(client_node_id (rc_config c) \<mapsto> rest)\<rparr>) w)"
  using assms(1,3) PollReceive_ready [OF assms(2), of others]
  by (simp add: RdmaClient_PollResult_def ResultMessage_DeserializePtr_def)

section \<open>Properties\<close>

text \<open>
  At every moment of a client's life \<open>Connect\<close> succeeds exactly when it has a transport and both
  node names are non-empty; a refused connect changes nothing, and after a successful one the
  connection is established and its queue pair ready to send.
\<close>

theorem client_connect_total:
  assumes "client_ok c" "RdmaClient_Connect c w = (ok, c', w')"
  shows "(ok \<longleftrightarrow> rc_transport c \<noteq> None \<and> client_node_id (rc_config c) \<noteq> [] \<and> server_node (rc_config c) \<noteq> []) \<and>
    (\<not> ok \<longrightarrow> c' = c \<and> w' = w) \<and>
    (ok \<longrightarrow> established (rc_connection c') \<and> QueuePair_IsReadyToSend (queue_pair (rc_connection c'))) \<and>
    client_ok c'"
  using assms RdmaClient_Connect_ok [OF assms]
  by (auto simp: RdmaClient_Connect_eq QueuePair_IsReadyToSend_def ready_connection_def
      split: option.splits if_splits)

theorem client_connect_total_witness:
  "fst (RdmaClient_Connect (RdmaClient_new ClientConfig_default (Some 0)) empty_world) \<and>
   \<not> fst (RdmaClient_Connect (RdmaClient_new (ClientConfig_default\<lparr>server_node := ''''\<rparr>) (Some 0)) empty_world)"
proof -
  obtain ok c' w' where a: "RdmaClient_Connect (RdmaClient_new ClientConfig_default (Some 0)) empty_world = (ok, c', w')"
    by (metis prod_cases3)
  obtain ok2 c2 w2 where b: "RdmaClient_Connect (RdmaClient_new (ClientConfig_default\<lparr>server_node := ''''\<rparr>) (Some 0))
      empty_world = (ok2, c2, w2)" by (metis prod_cases3)
  have "ok" "\<not> ok2"
    using client_connect_total [OF RdmaClient_new_ok a] client_connect_total [OF RdmaClient_new_ok b]
    by (simp_all add: RdmaClient_new_def ClientConfig_default_def)
  with a b show ?thesis by simp
qed

text \<open>
  A client without an established connection or without a transport, and a server without a
  transport, refuse every operation by its documented value (0, false or nothing)
  and change nothing.
\<close>

theorem unconnected_operations_refuse:
  "(\<not> established (rc_connection c) \<or> rc_transport c = None \<longrightarrow> RdmaClient_SubmitTask task c w = (0, c, w)) \<and>
   (rc_transport c = None \<longrightarrow>
      RdmaClient_Connect c w = (False, c, w) \<and> RdmaClient_PollResult others c w = (None, w)) \<and>
   (rs_transport s = None \<longrightarrow>
      RdmaServer_Accept node s w = (False, s, w) \<and> RdmaServer_PollTask others s w = (None, w) \<and>
      RdmaServer_SendResult node result s w = (False, s, w))"
  by (auto simp: RdmaClient_SubmitTask_def RdmaClient_Connect_def RdmaClient_PollResult_def RdmaServer_Accept_def
      RdmaServer_PollTask_def RdmaServer_SendResult_def split: option.splits)

theorem unconnected_operations_refuse_witness:
  "RdmaClient_SubmitTask sample_task (RdmaClient_new ClientConfig_default (Some 0)) empty_world =
     (0, RdmaClient_new ClientConfig_default (Some 0), empty_world) \<and>
   RdmaServer_SendResult ''c'' sample_result (RdmaServer_new ServerConfig_default None) empty_world =
     (False, RdmaServer_new ServerConfig_default None, empty_world)"
  using unconnected_operations_refuse [of "RdmaClient_new ClientConfig_default (Some 0)" sample_task empty_world "[]"
      "RdmaServer_new ServerConfig_default None" "''c''" sample_result]
  by (simp add: RdmaClient_new_def Connection_new_def RdmaServer_new_def)

text \<open>
  Nothing tells a receiver which kind of message it polls: a result sent to the node of a server
  with an empty inbox is returned by that server's \<open>PollTask\<close> as a task that has the
  result's id, target and metadata.
\<close>

theorem server_polls_result_as_task:
  assumes "rs_transport s = Some t" "server_peers.peers_ok s" "rs_transport s2 = Some t" "ResultMessage_ok result"
    "inbox_of (server_node_id (rs_config s2)) (transports w t) = []"
    "RdmaServer_SendResult (server_node_id (rs_config s2)) result s w = (ok, s', w')"
  shows "ok \<and> fst (RdmaServer_PollTask others s2 w') =
    Some (TaskMessage_default\<lparr>tm_task_id := rm_task_id result, tm_target_node := rm_target_node result,
                              tm_metadata := rm_metadata result\<rparr>)"
proof -
  note eff = SendResult_effect [OF assms(1,2,6)]
  obtain msg where msg: "inbox_of (server_node_id (rs_config s2)) (transports w' t) = [msg]"
    "msg_payload msg = Some (next_cell w)"
    using eff(5) assms(5) by auto
  show ?thesis
    using PollTask_ready [OF assms(3) msg, of others] eff(1,6) result_as_task [OF assms(4)] by simp
qed

lemma RdmaServer_new_peers: "server_peers.peers_ok (RdmaServer_new config transport)"
  by (simp add: server_peers.peers_ok_def RdmaServer_new_def)

theorem server_polls_result_as_task_witness:
  "\<exists>ok s' w'. RdmaServer_SendResult ''rdma-server'' sample_result (RdmaServer_new ServerConfig_default (Some 0)) empty_world
      = (ok, s', w') \<and>
    fst (RdmaServer_PollTask [] (RdmaServer_new ServerConfig_default (Some 0)) w') =
      Some (TaskMessage_default\<lparr>tm_task_id := ''t-1'', tm_target_node := ''a'', tm_metadata := [(''k'', ''v'')]\<rparr>)"
proof -
  let ?s = "RdmaServer_new ServerConfig_default (Some 0)"
  obtain ok s' w' where run: "RdmaServer_SendResult (server_node_id (rs_config ?s)) sample_result ?s empty_world = (ok, s', w')"
    by (metis prod_cases3)
  have "fst (RdmaServer_PollTask [] ?s w') =
      Some (TaskMessage_default\<lparr>tm_task_id := ''t-1'', tm_target_node := ''a'', tm_metadata := [(''k'', ''v'')]\<rparr>)"
    using server_polls_result_as_task [OF _ RdmaServer_new_peers _ sample_result_ok _ run, of 0 "[]"]
    by (simp add: RdmaServer_new_def sample_result_def)
  with run show ?thesis by (simp add: RdmaServer_new_def ServerConfig_default_def)
qed

end
