(* ===== verification/Rdma_Examples.thy ===== *)
theory Rdma_Examples
  imports Rdma_Client_Server Rdma_Worker_Session
begin

text \<open>
  The programs under \<open>rdma/examples\<close>. Each starts with a transport of its own, at an address
  \<open>t\<close>, and its \<open>main\<close> is a function from the world to the exit code and the lines it prints.
  \<open>send_recv_demo\<close> and \<open>worker_transport_demo\<close> have one thread; \<open>write_demo\<close> and \<open>pingpong\<close>
  have two, whose timed waits may end before the other thread has acted.
\<close>

definition make_transport :: "nat \<Rightarrow> 'w rdma_world_scheme \<Rightarrow> 'w rdma_world_scheme" where
  "make_transport t w = set_transport t (TransportRdma_new TransportConfig_default) w"

lemma make_transport_simps [simp]:
  "inbox_of node (transports (make_transport t w) t) = []"
  "tr_config (transports (make_transport t w) t) = TransportConfig_default"
  by (simp_all add: make_transport_def inbox_of_def TransportRdma_new_def)

section \<open>Programs with timed waits\<close>

text \<open>
  What the programs with several threads have in common: an invariant, a number of steps that are left, and, as long as no wait has
  run out, always a step that does not time out until the program has come to its proper end. Then no run is longer than
  the number says, and from every state without a timeout the proper end can be reached without one.
\<close>

locale timed_program =
  fixes step :: "'s \<Rightarrow> 's \<Rightarrow> bool" and inv :: "'s \<Rightarrow> bool" and left :: "'s \<Rightarrow> nat"
    and timeouts :: "'s \<Rightarrow> nat" and ended :: "'s \<Rightarrow> bool"
  assumes step_inv: "inv s \<Longrightarrow> step s s' \<Longrightarrow> inv s'"
    and step_left: "inv s \<Longrightarrow> step s s' \<Longrightarrow> left s' < left s"
    and progress: "inv s \<Longrightarrow> timeouts s = 0 \<Longrightarrow> \<not> ended s \<Longrightarrow> \<exists>s'. step s s' \<and> timeouts s' = 0"
begin

lemma run_bounded: "(step ^^ n) s s' \<Longrightarrow> inv s \<Longrightarrow> inv s' \<and> n + left s' \<le> left s"
proof (induction n arbitrary: s')
  case (Suc n)
  then obtain u where u: "(step ^^ n) s u" "step u s'" by auto
  with Suc.IH [OF u(1)] Suc.prems(2) step_inv [OF _ u(2)] step_left [OF _ u(2)] show ?case by fastforce
qed simp

lemma can_end:
  assumes "inv s" "timeouts s = 0"
  shows "\<exists>s'. step\<^sup>*\<^sup>* s s' \<and> inv s' \<and> timeouts s' = 0 \<and> ended s'"
  using assms
proof (induction "left s" arbitrary: s rule: less_induct)
  case less
  show ?case
  proof (cases "ended s")
    case False
    with progress less.prems obtain u where u: "step s u" "timeouts u = 0" by blast
    with less.hyps [OF step_left [OF less.prems(1) u(1)] step_inv [OF less.prems(1) u(1)] u(2)]
    show ?thesis by (meson converse_rtranclp_into_rtranclp)
  qed (use less.prems in blast)
qed

end

section \<open>\<open>send_recv_demo.cpp\<close>\<close>

definition session_config :: "string \<Rightarrow> WorkerSessionConfig" where
  "session_config node = WorkerSessionConfig_default\<lparr>session_node_id := node\<rparr>"

definition send_recv_task :: TaskMessage where
  "send_recv_task =
     \<lparr>tm_task_id = ''task-1'', tm_kind = ''send_recv'', tm_source_node = ''demo-sender'',
      tm_target_node = ''demo-receiver'', tm_description = ''hello from sender'',
      tm_metadata = [(''payload_bytes'', ''18'')]\<rparr>"

definition send_recv_demo :: "nat \<Rightarrow> 'w rdma_world_scheme \<Rightarrow> int \<times> string list" where
  "send_recv_demo t w =
     (case WorkerSession_new (session_config ''demo-sender'') (Some t) (make_transport t w) of (sender, w1) \<Rightarrow>
      case WorkerSession_new (session_config ''demo-receiver'') (Some t) w1 of (receiver, w2) \<Rightarrow>
      case WorkerSession_Submit send_recv_task sender w2 of (submitted, sender1, w3) \<Rightarrow>
      case WorkerSession_PollCompletion [] sender1 of (completion, sender2) \<Rightarrow>
      case WorkerSession_PollTask [] receiver w3 of (message, receiver1, w4) \<Rightarrow>
        if \<not> sr_success submitted \<or> completion = None \<or> message = None
        then (1, [''send/recv demo failed''])
        else (0, [''send/recv demo'',
                  ''task_id: '' @ tm_task_id (the message),
                  ''kind: '' @ tm_kind (the message),
                  ''from: '' @ tm_source_node (the message),
                  ''to: '' @ tm_target_node (the message),
                  ''detail: '' @ tm_description (the message),
                  ''completion_status: '' @ CompletionStatus_ToString (ce_status (the completion))]))"

section \<open>\<open>worker_transport_demo.cpp\<close>\<close>

definition broadcast_task :: TaskMessage where
  "broadcast_task =
     \<lparr>tm_task_id = ''job-42'', tm_kind = ''broadcast'', tm_source_node = ''controller'',
      tm_target_node = ''worker-a'', tm_description = ''ship one tensor shard'',
      tm_metadata = map_put ''dtype'' ''fp16'' (map_put ''tensor'' ''layer-12'' [])\<rparr>"

definition broadcast_result :: "TaskMessage \<Rightarrow> string \<Rightarrow> ResultMessage" where
  "broadcast_result task node =
     \<lparr>rm_task_id = tm_task_id task, rm_worker_node = node, rm_target_node = ''controller'',
      rm_success = True, rm_detail = ''task executed by worker session'',
      rm_metadata = [(''status'', ''done'')]\<rparr>"

definition worker_transport_demo :: "nat \<Rightarrow> 'w rdma_world_scheme \<Rightarrow> int \<times> string list" where
  "worker_transport_demo t w =
     (case WorkerSession_new (session_config ''controller'') (Some t) (make_transport t w) of (controller, w1) \<Rightarrow>
      case WorkerSession_new (session_config ''worker-a'') (Some t) w1 of (worker, w2) \<Rightarrow>
      case WorkerSession_Submit broadcast_task controller w2 of (submitted, controller1, w3) \<Rightarrow>
      case WorkerSession_PollCompletion [] controller1 of (completion, controller2) \<Rightarrow>
      case WorkerSession_PollTask [] worker w3 of (task, worker1, w4) \<Rightarrow>
        if \<not> sr_success submitted \<or> completion = None \<or> task = None
        then (1, [''worker transport demo failed during task delivery''])
        else
          case WorkerSession_SendResult (broadcast_result (the task) (ws_node worker1)) worker1 w4 of
            (_, worker2, w5) \<Rightarrow>
          case TransportRdma_PollReceive [] t ''controller'' w5 of (raw_result, w6) \<Rightarrow>
            if raw_result = None \<or> msg_payload (the raw_result) = None
            then (1, [''worker transport demo failed during result delivery''])
            else
              let result = ResultMessage_DeserializePtr (msg_payload (the raw_result)) w6;
                  worker_metrics = WorkerSession_metrics worker2
              in (if rm_success result then 0 else 1,
                  [''worker transport demo'',
                   ''task_id: '' @ tm_task_id (the task),
                   ''worker: '' @ rm_worker_node result,
                   ''detail: '' @ rm_detail result,
                   ''worker_receives: '' @ to_string (unat (receives worker_metrics)),
                   ''worker_sends: '' @ to_string (unat (sends worker_metrics))]))"

section \<open>\<open>write_demo.cpp\<close>\<close>

definition ReadyQueuePair :: "string \<Rightarrow> string \<Rightarrow> QueuePair" where
  "ReadyQueuePair local remote =
     snd (QueuePair_BringUp (QueuePair_new
       \<lparr>local_node = local, remote_node = remote, max_send_wr = 64, max_recv_wr = 64\<rparr>))"

text \<open>\<open>std::fill\<close> over the storage of a region.\<close>

definition fill_region :: "MemoryRegion \<Rightarrow> byte \<Rightarrow> 'w rdma_world_scheme \<Rightarrow> 'w rdma_world_scheme" where
  "fill_region region b w =
     (case mr_storage region of
        None \<Rightarrow> w
      | Some a \<Rightarrow> w\<lparr>cells := (cells w)(a := replicate (length (cells w a)) b)\<rparr>)"

text \<open>The receiver's lambda. Its wait is over at the moment this runs.\<close>

definition write_receiver ::
    "nat \<Rightarrow> MemoryRegion \<Rightarrow> 'w rdma_world_scheme \<Rightarrow> bool \<times> 'w rdma_world_scheme" where
  "write_receiver t region w =
     (case TransportRdma_PollReceive [] t ''write-dst'' w of
        (None, w1) \<Rightarrow> (False, w1)
      | (Some message, w1) \<Rightarrow>
          (msg_operation message = kWrite \<and> Message_size message w1 = MemoryRegion_size region w1, w1))"

text \<open>\<open>gave_up\<close>: the second the receiver waits is over before \<open>main\<close> posts the write.\<close>

definition write_demo :: "bool \<Rightarrow> nat \<Rightarrow> 'w rdma_world_scheme \<Rightarrow> int \<times> string list" where
  "write_demo gave_up t w =
     (let qp = ReadyQueuePair ''write-src'' ''write-dst'';
          w1 = TransportRdma_Connect t qp (make_transport t w)
      in case MemoryRegistry_RegisterSize 4096 MemoryRegistry_new w1 of (region, registry, w2) \<Rightarrow>
         let w3 = fill_region region 0x3C w2 in
         case (if gave_up then write_receiver t region w3 else (False, w3)) of (early, w4) \<Rightarrow>
         case TransportRdma_PostWrite t qp region ''tensor-write''
                (CompletionQueue_new CompletionQueueConfig_default) 1 w4 of (cq, w5) \<Rightarrow>
         case CompletionQueue_Poll [] cq of (completion, cq1) \<Rightarrow>
         case (if gave_up then (early, w5) else write_receiver t region w5) of (received, w6) \<Rightarrow>
           if \<not> received \<or> completion = None then (1, [''write demo failed''])
           else (0, [''write demo'',
                     ''backend: '' @ TransportRdma_BackendName (transports w6 t),
                     ''bytes: '' @ to_string (MemoryRegion_size region w6),
                     ''completion_status: '' @ CompletionStatus_ToString (ce_status (the completion))]))"

section \<open>\<open>pingpong.cpp\<close>\<close>

definition kRounds :: nat where
  "kRounds = 128"

definition ping_task :: "nat \<Rightarrow> TaskMessage" where
  "ping_task i =
     \<lparr>tm_task_id = ''ping-'' @ to_string (i + 1), tm_kind = ''pingpong'',
      tm_source_node = ''pingpong-client'', tm_target_node = ''pingpong-server'',
      tm_description = ''ping'', tm_metadata = [(''round'', to_string (i + 1))]\<rparr>"

definition pong_result :: "TaskMessage \<Rightarrow> string \<Rightarrow> nat \<Rightarrow> ResultMessage" where
  "pong_result task node i =
     \<lparr>rm_task_id = tm_task_id task, rm_worker_node = node, rm_target_node = ''pingpong-client'',
      rm_success = True, rm_detail = ''pong'', rm_metadata = [(''round'', to_string (i + 1))]\<rparr>"

text \<open>Where the two threads are: at the loop head or in its first call of round \<open>i\<close>, with the
  task in hand (server), waiting for the result (client), behind the loop, gone.\<close>

datatype ServerPc = SPoll nat | SSend nat TaskMessage | SDone
datatype ClientPc = CSubmit nat | CPoll nat | CJoin | CExit int

text \<open>\<open>pp_results\<close> (the results the client has polled) and \<open>pp_timeouts\<close> (the polls that came
  back empty) are history: no step reads them.\<close>

record PingPong =
  pp_server :: RdmaServer
  pp_client :: RdmaClient
  pp_world :: rdma_world
  pp_spc :: ServerPc
  pp_cpc :: ClientPc
  pp_received :: nat
  pp_results :: "ResultMessage list"
  pp_timeouts :: nat

definition pingpong_start :: "nat \<Rightarrow> rdma_world \<Rightarrow> PingPong option" where
  "pingpong_start t w =
     (let w0 = make_transport t w;
          server = RdmaServer_new (ServerConfig_default\<lparr>server_node_id := ''pingpong-server''\<rparr>) (Some t);
          client = RdmaClient_new (ClientConfig_default\<lparr>client_node_id := ''pingpong-client'',
                                      server_node := ''pingpong-server''\<rparr>) (Some t)
      in case RdmaServer_Accept ''pingpong-client'' server w0 of (accept_ok, server1, w1) \<Rightarrow>
           if \<not> accept_ok then None
           else case RdmaClient_Connect client w1 of (connect_ok, client1, w2) \<Rightarrow>
             if \<not> connect_ok then None
             else Some \<lparr>pp_server = server1, pp_client = client1, pp_world = w2, pp_spc = SPoll 0,
                        pp_cpc = CSubmit 0, pp_received = 0, pp_results = [], pp_timeouts = 0\<rparr>)"

text \<open>One step of the server's thread. A poll is a step at the moment its wait is over: with a
  task when there is one, empty-handed when the two seconds have passed without one.\<close>

fun server_step :: "ServerPc \<Rightarrow> PingPong \<Rightarrow> PingPong option" where
  "server_step (SPoll i) st =
     (if \<not> i < kRounds then Some (st\<lparr>pp_spc := SDone\<rparr>)
      else case RdmaServer_PollTask [] (pp_server st) (pp_world st) of
        (None, w) \<Rightarrow> Some (st\<lparr>pp_spc := SDone, pp_world := w, pp_timeouts := Suc (pp_timeouts st)\<rparr>)
      | (Some task, w) \<Rightarrow> Some (st\<lparr>pp_spc := SSend i task, pp_world := w\<rparr>))"
| "server_step (SSend i task) st =
     (case RdmaServer_SendResult ''pingpong-client''
             (pong_result task (server_node_id (rs_config (pp_server st))) i) (pp_server st) (pp_world st) of
        (_, server, w) \<Rightarrow> Some (st\<lparr>pp_spc := SPoll (i + 1), pp_server := server, pp_world := w\<rparr>))"
| "server_step SDone st = None"

text \<open>One step of \<open>main\<close>, with \<open>server_thread.join()\<close> and the exit code as its last.\<close>

fun client_step :: "ClientPc \<Rightarrow> PingPong \<Rightarrow> PingPong option" where
  "client_step (CSubmit i) st =
     (if \<not> i < kRounds then Some (st\<lparr>pp_cpc := CJoin\<rparr>)
      else case RdmaClient_SubmitTask (ping_task i) (pp_client st) (pp_world st) of
        (work_request_id, client, w) \<Rightarrow>
          Some (st\<lparr>pp_cpc := (if work_request_id = 0 then CJoin else CPoll i),
                   pp_client := client, pp_world := w\<rparr>))"
| "client_step (CPoll i) st =
     (case RdmaClient_PollResult [] (pp_client st) (pp_world st) of
        (None, w) \<Rightarrow> Some (st\<lparr>pp_cpc := CJoin, pp_world := w, pp_timeouts := Suc (pp_timeouts st)\<rparr>)
      | (Some result, w) \<Rightarrow>
          Some (st\<lparr>pp_cpc := CSubmit (i + 1), pp_world := w, pp_received := pp_received st + 1,
                   pp_results := pp_results st @ [result]\<rparr>))"
| "client_step CJoin st =
     (if pp_spc st = SDone then Some (st\<lparr>pp_cpc := CExit (if pp_received st = kRounds then 0 else 1)\<rparr>)
      else None)"
| "client_step (CExit code) st = None"

inductive pp_step :: "PingPong \<Rightarrow> PingPong \<Rightarrow> bool" where
  server: "server_step (pp_spc st) st = Some st' \<Longrightarrow> pp_step st st'"
| client: "client_step (pp_cpc st) st = Some st' \<Longrightarrow> pp_step st st'"

text \<open>The states after \<open>n\<close> steps of the two threads.\<close>

definition pp_run :: "nat \<Rightarrow> rdma_world \<Rightarrow> nat \<Rightarrow> PingPong \<Rightarrow> bool" where
  "pp_run t w n st \<longleftrightarrow> (\<exists>st0. pingpong_start t w = Some st0 \<and> (pp_step ^^ n) st0 st)"

section \<open>The demos with one thread succeed\<close>

lemma BufferPool_fill_transports [simp]:
  "transports (snd (snd (BufferPool_fill n p r w))) = transports w"
proof (induction n arbitrary: p r w)
  case (Suc n)
  obtain g r1 w1 where "MemoryRegistry_Register (replicate (buffer_size (bp_config p)) 0) r w = (g, r1, w1)"
    by (metis prod_cases3)
  with Suc Register_world [OF this] show ?case by (simp add: MemoryRegistry_RegisterSize_def)
qed simp

lemma WorkerSession_new_effect:
  assumes "WorkerSession_new (session_config node) (Some t) w = (s, w')"
  shows "ws_node s = node" "ws_transport s = Some t" "session_peers.peers_ok s"
    "cq_queue (ws_completions s) = []" "ws_metrics s = Metrics_new" "transports w' = transports w"
proof -
  obtain p r w1 where new: "BufferPool_new (session_buffer_pool (session_config node)) MemoryRegistry_new w = (p, r, w1)"
    by (metis prod_cases3)
  have "transports w1 = transports w"
    using new BufferPool_fill_transports by (metis BufferPool_new_def snd_conv)
  then show "ws_node s = node" "ws_transport s = Some t" "session_peers.peers_ok s"
    "cq_queue (ws_completions s) = []" "ws_metrics s = Metrics_new" "transports w' = transports w"
    using assms new
    by (auto simp: WorkerSession_new_def session_config_def CompletionQueue_new_def session_peers.peers_ok_def)
qed

text \<open>A submission to an idle peer: the task is there, and the next poll of the session's own
  completion queue, empty until now, reports success.\<close>

lemma Submit_delivers:
  assumes "ws_transport s = Some t" "session_peers.peers_ok s" "cq_queue (ws_completions s) = []"
    "inbox_of (task_peer s task) (transports w t) = []" "WorkerSession_Submit task s w = (res, s', w')"
  shows "sr_success res"
    "\<exists>msg. inbox_of (task_peer s task) (transports w' t) = [msg] \<and> msg_payload msg = Some (next_cell w)"
    "cells w' (next_cell w) = TaskMessage_Serialize task"
    "node \<noteq> task_peer s task \<Longrightarrow> inbox_of node (transports w' t) = inbox_of node (transports w t)"
    "\<exists>e s2. WorkerSession_PollCompletion [] s' = (Some e, s2) \<and> ce_status e = CS_kSuccess"
proof -
  obtain msg w1 where eff: "TransportRdma_PostSend t (ready_qp (ws_node s) (task_peer s task)) msg (ws_completions s)
       (snd (make_shared (TaskMessage_Serialize task) w1)) = (ws_completions s', w')"
    "msg_payload msg = Some (next_cell w1)" "sr_success res" "next_cell w1 = next_cell w"
    "\<And>node t. inbox_of node (transports w1 t) = inbox_of node (transports w t)"
    by (rule Submit_effect [OF assms(1,2,5)]) simp
  note new = send_new_payload [OF _ eff(2,1), simplified]
  note box = PostSend_inbox(1) [OF _ eff(1), simplified]
  show "sr_success res" by (fact eff)
  show "\<exists>msg. inbox_of (task_peer s task) (transports w' t) = [msg] \<and> msg_payload msg = Some (next_cell w)"
    using box [of "task_peer s task" t] assms(4) eff(2,4,5) by simp
  show "cells w' (next_cell w) = TaskMessage_Serialize task" using new(1) eff(4) by simp
  show "node \<noteq> task_peer s task \<Longrightarrow> inbox_of node (transports w' t) = inbox_of node (transports w t)"
    using box [of node t] eff(5) by simp
  show "\<exists>e s2. WorkerSession_PollCompletion [] s' = (Some e, s2) \<and> ce_status e = CS_kSuccess"
    using assms(3) by (simp add: WorkerSession_PollCompletion_def CompletionQueue_Poll_def new(5)
        CompletionQueue_locked_push_def Let_def send_completion_def)
qed

lemma demo_messages_ok:
  "TaskMessage_ok send_recv_task" "TaskMessage_ok broadcast_task"
  "NL \<notin> set node \<Longrightarrow> ResultMessage_ok (broadcast_result broadcast_task node)"
  by (simp_all add: TaskMessage_ok_def ResultMessage_ok_def send_recv_task_def broadcast_task_def
      broadcast_result_def metadata_ok_def map_ok_def)

text \<open>Two fresh sessions on an idle transport: the first submits, polls its completion, and the
  second polls the task. Both one-threaded programs begin like this.\<close>

lemma demo_delivery:
  assumes "WorkerSession_new (session_config a) (Some t) (make_transport t w) = (sender, w1)"
    "WorkerSession_new (session_config b) (Some t) w1 = (receiver, w2)"
    "WorkerSession_Submit task sender w2 = (submitted, sender1, w3)"
    "TaskMessage_ok task" "tm_target_node task = b" "b \<noteq> []" "a \<noteq> b"
  obtains e sender2 w4 where "sr_success submitted"
    "WorkerSession_PollCompletion [] sender1 = (Some e, sender2)" "ce_status e = CS_kSuccess"
    "WorkerSession_PollTask [] receiver w3 = (Some task,
       receiver\<lparr>ws_metrics := Metrics_RecordReceive (length (TaskMessage_Serialize task)) Metrics_new\<rparr>, w4)"
    "inbox_of a (transports w4 t) = []"
proof -
  note s = WorkerSession_new_effect [OF assms(1)] and r = WorkerSession_new_effect [OF assms(2)]
  have peer: "task_peer sender task = b" by (simp add: task_peer_def assms(5,6))
  have idle: "inbox_of node (transports w2 t) = []" for node by (simp add: s(6) r(6))
  note d = Submit_delivers [OF s(2-4) idle assms(3), unfolded peer]
  obtain msg where msg: "inbox_of b (transports w3 t) = [msg]" "msg_payload msg = Some (next_cell w2)"
    using d(2) by blast
  define w4 where "w4 = set_transport t ((transports w3 t)\<lparr>inboxes := (inboxes (transports w3 t))(b \<mapsto> [])\<rparr>) w3"
  have "WorkerSession_PollTask [] receiver w3 = (Some task,
     receiver\<lparr>ws_metrics := Metrics_RecordReceive (length (TaskMessage_Serialize task)) Metrics_new\<rparr>, w4)"
    using PollTask_session_ready [OF r(2) msg(1) [folded r(1)] msg(2), of "[]"] r(1,5) d(3)
    by (simp add: w4_def task_codec.roundtrip [OF assms(4)])
  moreover have "inbox_of a (transports w4 t) = []"
    using d(4) [OF assms(7)] idle [of a] assms(7) by (simp add: w4_def inbox_of_def)
  ultimately show thesis using that d(1,5) by blast
qed

theorem send_recv_demo_succeeds:
  "send_recv_demo t w =
     (0, [''send/recv demo'', ''task_id: task-1'', ''kind: send_recv'', ''from: demo-sender'',
          ''to: demo-receiver'', ''detail: hello from sender'', ''completion_status: success''])"
proof -
  obtain sender w1 where s: "WorkerSession_new (session_config ''demo-sender'') (Some t) (make_transport t w) = (sender, w1)"
    by (metis surj_pair)
  obtain receiver w2 where r: "WorkerSession_new (session_config ''demo-receiver'') (Some t) w1 = (receiver, w2)"
    by (metis surj_pair)
  obtain submitted sender1 w3 where sub: "WorkerSession_Submit send_recv_task sender w2 = (submitted, sender1, w3)"
    by (metis prod_cases3)
  obtain e sender2 w4 where "sr_success submitted"
    "WorkerSession_PollCompletion [] sender1 = (Some e, sender2)" "ce_status e = CS_kSuccess"
    "WorkerSession_PollTask [] receiver w3 = (Some send_recv_task,
       receiver\<lparr>ws_metrics := Metrics_RecordReceive (length (TaskMessage_Serialize send_recv_task)) Metrics_new\<rparr>, w4)"
    by (rule demo_delivery [OF s r sub]) (simp_all add: demo_messages_ok, simp_all add: send_recv_task_def)
  with s r sub show ?thesis
    by (simp add: send_recv_demo_def) (simp add: send_recv_task_def)
qed

text \<open>A result sent to an idle peer is the only message there, and one send is counted.\<close>

lemma SendResult_delivers:
  assumes "ws_transport s = Some t" "session_peers.peers_ok s"
    "inbox_of (result_peer s result) (transports w t) = []"
    "WorkerSession_SendResult result s w = (res, s', w')"
  shows "\<exists>msg. inbox_of (result_peer s result) (transports w' t) = [msg] \<and> msg_payload msg = Some (next_cell w)"
    "cells w' (next_cell w) = ResultMessage_Serialize result"
proof -
  obtain msg w1 where eff: "TransportRdma_PostSend t (ready_qp (ws_node s) (result_peer s result)) msg (ws_completions s)
       (snd (make_shared (ResultMessage_Serialize result) w1)) = (ws_completions s', w')"
    "msg_payload msg = Some (next_cell w1)" "next_cell w1 = next_cell w"
    "\<forall>node t. inbox_of node (transports w1 t) = inbox_of node (transports w t)"
    using SendResult_session_effect(10) [OF assms(1,2,4)] by auto
  show "\<exists>msg. inbox_of (result_peer s result) (transports w' t) = [msg] \<and> msg_payload msg = Some (next_cell w)"
    using PostSend_inbox(1) [OF _ eff(1), simplified, of "result_peer s result" t] assms(3) eff(2-4) by simp
  show "cells w' (next_cell w) = ResultMessage_Serialize result"
    using send_new_payload(1) [OF _ eff(2,1), simplified] eff(3) by simp
qed

theorem worker_transport_demo_succeeds:
  "worker_transport_demo t w =
     (0, [''worker transport demo'', ''task_id: job-42'', ''worker: worker-a'',
          ''detail: task executed by worker session'', ''worker_receives: 1'', ''worker_sends: 1''])"
proof -
  obtain controller w1 where c: "WorkerSession_new (session_config ''controller'') (Some t) (make_transport t w) = (controller, w1)"
    by (metis surj_pair)
  obtain worker w2 where wk: "WorkerSession_new (session_config ''worker-a'') (Some t) w1 = (worker, w2)"
    by (metis surj_pair)
  obtain submitted controller1 w3 where sub: "WorkerSession_Submit broadcast_task controller w2 = (submitted, controller1, w3)"
    by (metis prod_cases3)
  define worker1 where "worker1 = worker\<lparr>ws_metrics :=
      Metrics_RecordReceive (length (TaskMessage_Serialize broadcast_task)) Metrics_new\<rparr>"
  obtain e controller2 w4 where del: "sr_success submitted"
    "WorkerSession_PollCompletion [] controller1 = (Some e, controller2)" "ce_status e = CS_kSuccess"
    "WorkerSession_PollTask [] worker w3 = (Some broadcast_task, worker1, w4)"
    "inbox_of ''controller'' (transports w4 t) = []"
    unfolding worker1_def
    by (rule demo_delivery [OF c wk sub]) (simp_all add: demo_messages_ok, simp_all add: broadcast_task_def)
  note wk_eff = WorkerSession_new_effect [OF wk]
  have w1: "ws_transport worker1 = Some t" "session_peers.peers_ok worker1" "ws_node worker1 = ''worker-a''"
    using wk_eff by (simp_all add: worker1_def session_peers.peers_ok_def)
  let ?r = "broadcast_result broadcast_task ''worker-a''"
  have peer: "result_peer worker1 ?r = ''controller''" by (simp add: result_peer_def broadcast_result_def)
  obtain ok worker2 w5 where send: "WorkerSession_SendResult ?r worker1 w4 = (ok, worker2, w5)"
    by (metis prod_cases3)
  note sd = SendResult_delivers [OF w1(1,2) _ send, unfolded peer, OF del(5)]
  obtain msg where msg: "inbox_of ''controller'' (transports w5 t) = [msg]" "msg_payload msg = Some (next_cell w4)"
    using sd(1) by blast
  have met: "receives (WorkerSession_metrics worker2) = 1" "sends (WorkerSession_metrics worker2) = 1"
    using SendResult_session_effect(8) [OF w1(1,2) send]
    by (simp_all add: WorkerSession_metrics_def Metrics_Snapshot_def Metrics_RecordSend_def worker1_def
        Metrics_RecordReceive_def Metrics_new_def)
  have "ResultMessage_ok ?r" by (simp add: demo_messages_ok)
  then show ?thesis
    using c wk sub del(1,2,4) send PollReceive_ready [OF msg(1), of "[]"] msg(2) sd(2) met
    by (simp add: worker_transport_demo_def w1(3) ResultMessage_DeserializePtr_def result_codec.roundtrip)
      (simp add: broadcast_result_def broadcast_task_def to_string.simps digit_chars)
qed

section \<open>The write demo\<close>

lemma ReadyQueuePair_simps [simp]:
  "qp_state (ReadyQueuePair a b) = kReadyToSend"
  "local_node (qp_config (ReadyQueuePair a b)) = a" "remote_node (qp_config (ReadyQueuePair a b)) = b"
  by (simp_all add: ReadyQueuePair_def BringUp_eq QueuePair_new_def)

lemma fill_region_transports [simp]: "transports (fill_region g b w) = transports w"
  by (simp add: fill_region_def split: option.split)

text \<open>
  The write demo prints the 4096 bytes and a success completion, and exits with 0, exactly when
  the receiver did not give up before the write was posted.
\<close>

theorem write_demo_result:
  "write_demo gave_up t w =
     (if gave_up then (1, [''write demo failed''])
      else (0, [''write demo'', ''backend: in-memory-rdma'', ''bytes: '' @ to_string 4096,
                ''completion_status: success'']))"
proof -
  let ?qp = "ReadyQueuePair ''write-src'' ''write-dst''"
  define n :: nat where "n = 4096"
  define w1 where "w1 = TransportRdma_Connect t ?qp (make_transport t w)"
  obtain g r w2 where reg: "MemoryRegistry_RegisterSize n MemoryRegistry_new w1 = (g, r, w2)"
    by (metis prod_cases3)
  have w2: "w2 = snd (make_shared (replicate n 0) w1)" "mr_storage g = Some (next_cell w1)"
    using reg Register_world [of "replicate n 0" MemoryRegistry_new w1 g r w2]
    by (simp_all add: MemoryRegistry_RegisterSize_def)
  have size: "MemoryRegion_size g (fill_region g 0x3C w2) = n"
    by (simp add: w2 fill_region_def MemoryRegion_size_def buf_size_def make_shared_simps)
  define w3 where "w3 = fill_region g 0x3C w2"
  have idle: "inbox_of ''write-dst'' (transports w3 t) = []" "tr_config (transports w3 t) = TransportConfig_default"
    by (simp_all add: w3_def w2 w1_def)
  define w4 where "w4 = (if gave_up then snd (write_receiver t g w3) else w3)"
  have early: "(if gave_up then write_receiver t g w3 else (False, w3)) = (False, w4)"
    using idle by (simp add: w4_def write_receiver_def PollReceive_undisturbed inbox_pop_def)
  have w4: "inbox_of ''write-dst'' (transports w4 t) = []" "tr_config (transports w4 t) = TransportConfig_default"
    "cells w4 = cells w3"
    using idle by (simp_all add: w4_def write_receiver_def PollReceive_undisturbed inbox_pop_def)
  let ?msg = "\<lparr>msg_source = ''write-src'', msg_destination = ''write-dst'', msg_topic = ''tensor-write'',
      msg_description = mr_key g, msg_payload = mr_storage g, msg_work_request_id = 1, msg_operation = kWrite\<rparr>"
  obtain cq w5 where post: "TransportRdma_PostSend t ?qp ?msg (CompletionQueue_new CompletionQueueConfig_default) w4 = (cq, w5)"
    by (metis surj_pair)
  note sent = PostSend_ready [OF _ post, simplified]
  have box: "inbox_of ''write-dst'' (transports w5 t) = [addressed ?qp ?msg]"
    "tr_config (transports w5 t) = TransportConfig_default"
    using PostSend_inbox(1) [OF _ post, of "''write-dst''" t] PostSend_inbox(2) [OF _ post, of t] w4
    by simp_all
  obtain e q where poll: "CompletionQueue_Poll [] cq = (Some e, q)" "ce_status e = CS_kSuccess"
    by (simp add: sent(1) CompletionQueue_Poll_def CompletionQueue_locked_push_def Let_def
        CompletionQueue_new_def send_completion_def)
  define w6 where "w6 = set_transport t ((transports w5 t)\<lparr>inboxes := (inboxes (transports w5 t))(''write-dst'' \<mapsto> [])\<rparr>) w5"
  have late: "write_receiver t g w5 = (True, w6)"
    using PollReceive_ready [OF box(1), of "[]"]
    by (simp add: write_receiver_def w6_def Message_size_def MemoryRegion_size_def buf_size_def)
  have n6: "MemoryRegion_size g w6 = n"
    using size w4(3) sent(3) by (simp add: w6_def MemoryRegion_size_def w3_def buf_size_def w2(2))
  show ?thesis
    unfolding write_demo_def TransportRdma_PostWrite_def Let_def n_def [symmetric]
      w1_def [symmetric] reg prod.case w3_def [symmetric] early
    by (simp add: post poll late n6) (simp add: w6_def TransportRdma_BackendName_def box(2) TransportConfig_default_def)
qed

section \<open>The rounds of the ping-pong\<close>

definition pong :: "nat \<Rightarrow> ResultMessage" where
  "pong i = pong_result (ping_task i) ''pingpong-server'' i"

lemma round_messages_ok: "TaskMessage_ok (ping_task i)" "ResultMessage_ok (pong i)"
proof -
  have "NL \<notin> set (to_string (Suc i))"
    using to_string_digits [of "Suc i"] by (auto simp: is_digit_def)
  then show "TaskMessage_ok (ping_task i)" "ResultMessage_ok (pong i)"
    by (simp_all add: TaskMessage_ok_def ResultMessage_ok_def ping_task_def pong_def pong_result_def
        metadata_ok_def map_ok_def)
qed

text \<open>What a state of the program always has: the two ends of one transport, and the next work
  request of the client, which no round makes zero.\<close>

abbreviation server_box :: "nat \<Rightarrow> PingPong \<Rightarrow> Message list" where
  "server_box t st \<equiv> inbox_of ''pingpong-server'' (transports (pp_world st) t)"

abbreviation client_box :: "nat \<Rightarrow> PingPong \<Rightarrow> Message list" where
  "client_box t st \<equiv> inbox_of ''pingpong-client'' (transports (pp_world st) t)"

fun requests :: "ClientPc \<Rightarrow> 64 word \<Rightarrow> bool" where
  "requests (CSubmit i) next_id \<longleftrightarrow> i \<le> kRounds \<and> next_id = word_of_nat (Suc i)"
| "requests (CPoll i) next_id \<longleftrightarrow> i < kRounds \<and> next_id = word_of_nat (Suc (Suc i))"
| "requests _ _ \<longleftrightarrow> True"

fun server_round :: "ServerPc \<Rightarrow> bool" where
  "server_round (SPoll i) \<longleftrightarrow> i \<le> kRounds"
| "server_round (SSend i _) \<longleftrightarrow> i < kRounds"
| "server_round SDone \<longleftrightarrow> True"

definition ends_ok :: "nat \<Rightarrow> PingPong \<Rightarrow> bool" where
  "ends_ok t st \<longleftrightarrow>
     rs_transport (pp_server st) = Some t \<and> server_node_id (rs_config (pp_server st)) = ''pingpong-server'' \<and>
     server_peers.peers_ok (pp_server st) \<and>
     rc_transport (pp_client st) = Some t \<and> client_node_id (rc_config (pp_client st)) = ''pingpong-client'' \<and>
     server_node (rc_config (pp_client st)) = ''pingpong-server'' \<and>
     rc_connection (pp_client st) = ready_connection ''pingpong-client'' ''pingpong-server'' \<and>
     requests (pp_cpc st) (rc_next_work_request_id (pp_client st)) \<and> server_round (pp_spc st) \<and>
     pp_received st = length (pp_results st)"

text \<open>Where a round stands as long as no poll has come back empty.\<close>

fun round_ok :: "ClientPc \<Rightarrow> ServerPc \<Rightarrow> nat \<Rightarrow> PingPong \<Rightarrow> bool" where
  "round_ok (CSubmit i) spc t st \<longleftrightarrow>
     (spc = SPoll i \<or> i = kRounds \<and> spc = SDone) \<and> server_box t st = [] \<and> client_box t st = [] \<and>
     pp_results st = map pong [0..<i]"
| "round_ok (CPoll i) spc t st \<longleftrightarrow>
     pp_results st = map pong [0..<i] \<and>
     (spc = SPoll i \<and> client_box t st = [] \<and>
        (\<exists>msg a. server_box t st = [msg] \<and> msg_payload msg = Some a \<and>
                 cells (pp_world st) a = TaskMessage_Serialize (ping_task i)) \<or>
      spc = SSend i (ping_task i) \<and> server_box t st = [] \<and> client_box t st = [] \<or>
      (spc = SPoll (Suc i) \<or> Suc i = kRounds \<and> spc = SDone) \<and> server_box t st = [] \<and>
        (\<exists>msg a. client_box t st = [msg] \<and> msg_payload msg = Some a \<and>
                 cells (pp_world st) a = ResultMessage_Serialize (pong i)))"
| "round_ok CJoin spc t st \<longleftrightarrow>
     pp_results st = map pong [0..<kRounds] \<and> (spc = SPoll kRounds \<or> spc = SDone)"
| "round_ok (CExit code) spc t st \<longleftrightarrow>
     pp_results st = map pong [0..<kRounds] \<and> spc = SDone \<and> code = 0"

definition pp_inv :: "nat \<Rightarrow> PingPong \<Rightarrow> bool" where
  "pp_inv t st \<longleftrightarrow> ends_ok t st \<and> (pp_timeouts st = 0 \<longrightarrow> round_ok (pp_cpc st) (pp_spc st) t st)"

lemma pingpong_starts: "\<exists>st. pingpong_start t w = Some st \<and> pp_inv t st"
proof -
  let ?sc = "ServerConfig_default\<lparr>server_node_id := ''pingpong-server''\<rparr>"
  let ?cc = "ClientConfig_default\<lparr>client_node_id := ''pingpong-client'', server_node := ''pingpong-server''\<rparr>"
  let ?s = "RdmaServer_new ?sc (Some t)" and ?c = "RdmaClient_new ?cc (Some t)"
  obtain k s1 w1 where ens: "RdmaServer_EnsurePeer ''pingpong-client'' ?s (make_transport t w) = (k, s1, w1)"
    by (metis prod_cases3)
  note fr = RdmaServer_EnsurePeer_frame [OF ens]
  have s1: "server_peers.peers_ok s1"
    using server_peers.ensure_ok [OF RdmaServer_new_peers, of "''pingpong-client''" ?sc "Some t" "make_transport t w"] ens
    by simp
  have acc: "RdmaServer_Accept ''pingpong-client'' ?s (make_transport t w) = (True, s1, w1)"
    using ens by (simp add: RdmaServer_Accept_def RdmaServer_new_def)
  let ?c1 = "?c\<lparr>rc_connection := ready_connection ''pingpong-client'' ''pingpong-server''\<rparr>"
  let ?w2 = "TransportRdma_Connect t (ready_qp ''pingpong-client'' ''pingpong-server'') w1"
  have con: "RdmaClient_Connect ?c w1 = (True, ?c1, ?w2)"
    unfolding RdmaClient_Connect_eq [OF RdmaClient_new_ok] by (simp add: RdmaClient_new_def)
  have "pingpong_start t w = Some \<lparr>pp_server = s1, pp_client = ?c1, pp_world = ?w2, pp_spc = SPoll 0,
      pp_cpc = CSubmit 0, pp_received = 0, pp_results = [], pp_timeouts = 0\<rparr>" (is "_ = Some ?st")
    by (simp add: pingpong_start_def Let_def acc con)
  moreover have "pp_inv t ?st"
    using s1 fr by (simp add: pp_inv_def ends_ok_def) (simp add: RdmaServer_new_def RdmaClient_new_def)
  ultimately show ?thesis by blast
qed

text \<open>The polls of the two threads, on an empty inbox and on one with a single message.\<close>

lemma inbox_after_pop [simp]:
  "inbox_of n (tr\<lparr>inboxes := (inboxes tr)(node \<mapsto> rest)\<rparr>) = (if n = node then rest else inbox_of n tr)"
  by (simp add: inbox_of_def)

lemma server_poll_empty:
  "ends_ok t st \<Longrightarrow> server_box t st = [] \<Longrightarrow> fst (RdmaServer_PollTask [] (pp_server st) (pp_world st)) = None"
  by (simp add: ends_ok_def RdmaServer_PollTask_def PollReceive_undisturbed inbox_pop_def)

lemma client_poll_empty:
  "ends_ok t st \<Longrightarrow> client_box t st = [] \<Longrightarrow> fst (RdmaClient_PollResult [] (pp_client st) (pp_world st)) = None"
  by (simp add: ends_ok_def RdmaClient_PollResult_def PollReceive_undisturbed inbox_pop_def)

lemma server_poll_one:
  assumes "ends_ok t st" "server_box t st = [msg]" "msg_payload msg = Some a"
    "cells (pp_world st) a = TaskMessage_Serialize (ping_task i)"
    "RdmaServer_PollTask [] (pp_server st) (pp_world st) = (res, w')"
  shows "res = Some (ping_task i)" "inbox_of ''pingpong-server'' (transports w' t) = []"
    "inbox_of ''pingpong-client'' (transports w' t) = client_box t st" "cells w' = cells (pp_world st)"
proof -
  have "RdmaServer_PollTask [] (pp_server st) (pp_world st) = (Some (ping_task i),
      set_transport t ((transports (pp_world st) t)\<lparr>inboxes :=
        (inboxes (transports (pp_world st) t))(''pingpong-server'' \<mapsto> [])\<rparr>) (pp_world st))"
    using PollTask_ready [of "pp_server st" t "pp_world st" msg "[]" a "[]"] assms
    by (simp add: ends_ok_def task_codec.roundtrip [OF round_messages_ok(1)])
  with assms(5) show "res = Some (ping_task i)" "inbox_of ''pingpong-server'' (transports w' t) = []"
    "inbox_of ''pingpong-client'' (transports w' t) = client_box t st" "cells w' = cells (pp_world st)"
    by auto
qed

lemma client_poll_one:
  assumes "ends_ok t st" "client_box t st = [msg]" "msg_payload msg = Some a"
    "cells (pp_world st) a = ResultMessage_Serialize (pong i)"
    "RdmaClient_PollResult [] (pp_client st) (pp_world st) = (res, w')"
  shows "res = Some (pong i)" "inbox_of ''pingpong-client'' (transports w' t) = []"
    "inbox_of ''pingpong-server'' (transports w' t) = server_box t st"
proof -
  have "RdmaClient_PollResult [] (pp_client st) (pp_world st) = (Some (pong i),
      set_transport t ((transports (pp_world st) t)\<lparr>inboxes :=
        (inboxes (transports (pp_world st) t))(''pingpong-client'' \<mapsto> [])\<rparr>) (pp_world st))"
    using PollResult_ready [of "pp_client st" t "pp_world st" msg "[]" a "[]"] assms
    by (simp add: ends_ok_def result_codec.roundtrip [OF round_messages_ok(2)])
  with assms(5) show "res = Some (pong i)" "inbox_of ''pingpong-client'' (transports w' t) = []"
    "inbox_of ''pingpong-server'' (transports w' t) = server_box t st"
    by auto
qed

lemma server_poll_inv:
  assumes "pp_inv t st" "pp_spc st = SPoll i" "server_step (SPoll i) st = Some st'"
  shows "pp_inv t st'"
proof (cases "i < kRounds")
  case False
  then have "i = kRounds" "st' = st\<lparr>pp_spc := SDone\<rparr>" using assms by (auto simp: pp_inv_def ends_ok_def)
  with assms(1,2) show ?thesis
    by (cases "pp_cpc st") (auto simp: pp_inv_def ends_ok_def)
next
  case True
  have ends: "ends_ok t st" using assms(1) by (simp add: pp_inv_def)
  obtain res w' where poll: "RdmaServer_PollTask [] (pp_server st) (pp_world st) = (res, w')" by (metis surj_pair)
  show ?thesis
  proof (cases res)
    case None
    then show ?thesis using assms True poll by (auto simp: pp_inv_def ends_ok_def)
  next
    case (Some task)
    then have st': "st' = st\<lparr>pp_spc := SSend i task, pp_world := w'\<rparr>" using assms(3) True poll by simp
    have ends': "ends_ok t st'" using ends True by (simp add: st' ends_ok_def)
    have some: "server_box t st \<noteq> []" using server_poll_empty [OF ends] poll Some by auto
    have "round_ok (pp_cpc st') (pp_spc st') t st'" if 0: "pp_timeouts st = 0"
    proof -
      have "round_ok (pp_cpc st) (SPoll i) t st" using assms(1,2) 0 by (simp add: pp_inv_def)
      with some True obtain msg a where "pp_cpc st = CPoll i" "pp_results st = map pong [0..<i]"
        "client_box t st = []" "server_box t st = [msg]" "msg_payload msg = Some a"
        "cells (pp_world st) a = TaskMessage_Serialize (ping_task i)"
        by (cases "pp_cpc st") auto
      with server_poll_one [OF ends _ _ _ poll] Some show ?thesis by (simp add: st')
    qed
    with ends' show ?thesis by (simp add: pp_inv_def st')
  qed
qed

lemma server_send_inv:
  assumes "pp_inv t st" "pp_spc st = SSend i task" "server_step (SSend i task) st = Some st'"
  shows "pp_inv t st'"
proof -
  have ends: "ends_ok t st" using assms(1) by (simp add: pp_inv_def)
  let ?r = "pong_result task ''pingpong-server'' i"
  obtain ok s' w' where send: "RdmaServer_SendResult ''pingpong-client'' ?r (pp_server st) (pp_world st) = (ok, s', w')"
    by (metis prod_cases3)
  have st': "st' = st\<lparr>pp_spc := SPoll (Suc i), pp_server := s', pp_world := w'\<rparr>"
    using assms(3) send ends by (simp add: ends_ok_def)
  have pre: "rs_transport (pp_server st) = Some t" "server_peers.peers_ok (pp_server st)"
    using ends by (simp_all add: ends_ok_def)
  note eff = SendResult_effect [OF pre send]
  have ends': "ends_ok t st'" using ends eff(2-4) assms(2) by (simp add: st' ends_ok_def Suc_le_eq)
  have "round_ok (pp_cpc st') (pp_spc st') t st'" if 0: "pp_timeouts st = 0"
  proof -
    have "round_ok (pp_cpc st) (SSend i task) t st" using assms(1,2) 0 by (simp add: pp_inv_def)
    then have "pp_cpc st = CPoll i" "pp_results st = map pong [0..<i]" "task = ping_task i"
      "client_box t st = []" "server_box t st = []"
      by (cases "pp_cpc st"; auto)+
    with eff(5-7) eff(8) [of "''pingpong-server''"] show ?thesis by (auto simp: st' pong_def)
  qed
  with ends' show ?thesis by (simp add: pp_inv_def st')
qed

lemma client_submit_inv:
  assumes "pp_inv t st" "pp_cpc st = CSubmit i" "client_step (CSubmit i) st = Some st'"
  shows "pp_inv t st'"
proof (cases "i < kRounds")
  case False
  then have "i = kRounds" "st' = st\<lparr>pp_cpc := CJoin\<rparr>" using assms by (auto simp: pp_inv_def ends_ok_def)
  with assms(1,2) show ?thesis by (auto simp: pp_inv_def ends_ok_def)
next
  case True
  have ends: "ends_ok t st" using assms(1) by (simp add: pp_inv_def)
  obtain wid c' w' where sub: "RdmaClient_SubmitTask (ping_task i) (pp_client st) (pp_world st) = (wid, c', w')"
    by (metis prod_cases3)
  have c: "rc_connection (pp_client st) = ready_connection (client_node_id (rc_config (pp_client st)))
        (server_node (rc_config (pp_client st)))" "rc_transport (pp_client st) = Some t"
    "server_node (rc_config (pp_client st)) = ''pingpong-server''"
    using ends by (simp_all add: ends_ok_def)
  obtain msg where frame: "wid = rc_next_work_request_id (pp_client st)" "rc_next_work_request_id c' = wid + 1"
    "rc_connection c' = rc_connection (pp_client st)" "rc_config c' = rc_config (pp_client st)"
    "rc_transport c' = rc_transport (pp_client st)"
    by (rule SubmitTask_ready [OF c(1,2) sub])
  have wid: "wid = word_of_nat (Suc i)" using frame(1) ends assms(2) by (simp add: ends_ok_def)
  have "(word_of_nat (Suc i) :: 64 word) \<noteq> 0"
    using True unfolding word_of_nat_eq_0_iff by (auto simp: kRounds_def dest: dvd_imp_le)
  then have st': "st' = st\<lparr>pp_cpc := CPoll i, pp_client := c', pp_world := w'\<rparr>"
    using assms(3) True sub wid by simp
  have ends': "ends_ok t st'"
    using ends True frame wid by (simp add: st' ends_ok_def add.commute)
  have "round_ok (pp_cpc st') (pp_spc st') t st'" if 0: "pp_timeouts st = 0"
  proof -
    have r: "pp_spc st = SPoll i" "server_box t st = []" "client_box t st = []" "pp_results st = map pong [0..<i]"
      using assms(1,2) 0 True by (auto simp: pp_inv_def)
    note d = SubmitTask_delivers [OF c(1,2) _ sub, unfolded c(3), OF r(2)]
    show ?thesis using d(2,3) d(4) [of "''pingpong-client''"] r by (auto simp: st')
  qed
  with ends' show ?thesis by (simp add: pp_inv_def st')
qed

lemma client_poll_inv:
  assumes "pp_inv t st" "pp_cpc st = CPoll i" "client_step (CPoll i) st = Some st'"
  shows "pp_inv t st'"
proof -
  have ends: "ends_ok t st" using assms(1) by (simp add: pp_inv_def)
  obtain res w' where poll: "RdmaClient_PollResult [] (pp_client st) (pp_world st) = (res, w')" by (metis surj_pair)
  show ?thesis
  proof (cases res)
    case None
    then show ?thesis using assms poll by (auto simp: pp_inv_def ends_ok_def)
  next
    case (Some result)
    then have st': "st' = st\<lparr>pp_cpc := CSubmit (Suc i), pp_world := w', pp_received := pp_received st + 1,
        pp_results := pp_results st @ [result]\<rparr>" using assms(3) poll by simp
    have ends': "ends_ok t st'" using ends assms(2) by (simp add: st' ends_ok_def)
    have some: "client_box t st \<noteq> []" using client_poll_empty [OF ends] poll Some by auto
    have "round_ok (pp_cpc st') (pp_spc st') t st'" if 0: "pp_timeouts st = 0"
    proof -
      have "round_ok (CPoll i) (pp_spc st) t st" using assms(1,2) 0 by (simp add: pp_inv_def)
      with some obtain msg a where "pp_results st = map pong [0..<i]"
        "pp_spc st = SPoll (Suc i) \<or> Suc i = kRounds \<and> pp_spc st = SDone" "server_box t st = []"
        "client_box t st = [msg]" "msg_payload msg = Some a"
        "cells (pp_world st) a = ResultMessage_Serialize (pong i)"
        by auto
      with client_poll_one [OF ends _ _ _ poll] Some show ?thesis by (auto simp: st')
    qed
    with ends' show ?thesis by (simp add: pp_inv_def st')
  qed
qed

lemma client_join_inv:
  assumes "pp_inv t st" "pp_cpc st = CJoin" "client_step CJoin st = Some st'"
  shows "pp_inv t st'"
  using assms by (auto simp: pp_inv_def ends_ok_def split: if_splits)

lemma pp_step_inv:
  assumes "pp_inv t st" "pp_step st st'"
  shows "pp_inv t st'"
  using assms(2)
proof cases
  case server
  then show ?thesis
    using server_poll_inv [OF assms(1)] server_send_inv [OF assms(1)] by (cases "pp_spc st") auto
next
  case client
  then show ?thesis
    using client_submit_inv [OF assms(1)] client_poll_inv [OF assms(1)] client_join_inv [OF assms(1)]
    by (cases "pp_cpc st") auto
qed

text \<open>How many steps are left at most.\<close>

fun server_left :: "ServerPc \<Rightarrow> nat" where
  "server_left (SPoll i) = 2 * (kRounds - i) + 1"
| "server_left (SSend i _) = 2 * (kRounds - i)"
| "server_left SDone = 0"

fun client_left :: "ClientPc \<Rightarrow> nat" where
  "client_left (CSubmit i) = 2 * (kRounds - i) + 2"
| "client_left (CPoll i) = 2 * (kRounds - i) + 1"
| "client_left CJoin = 1"
| "client_left (CExit _) = 0"

abbreviation steps_left :: "PingPong \<Rightarrow> nat" where
  "steps_left st \<equiv> server_left (pp_spc st) + client_left (pp_cpc st)"

lemma server_step_left:
  "server_round (pp_spc st) \<Longrightarrow> server_step (pp_spc st) st = Some st' \<Longrightarrow>
   server_left (pp_spc st') < server_left (pp_spc st) \<and> pp_cpc st' = pp_cpc st"
  by (cases "pp_spc st") (auto split: if_splits prod.splits option.splits)

lemma client_step_left:
  "requests (pp_cpc st) n \<Longrightarrow> client_step (pp_cpc st) st = Some st' \<Longrightarrow>
   client_left (pp_cpc st') < client_left (pp_cpc st) \<and> pp_spc st' = pp_spc st"
  by (cases "pp_cpc st") (auto split: if_splits prod.splits option.splits)

lemma pp_step_left:
  assumes "pp_inv t st" "pp_step st st'"
  shows "steps_left st' < steps_left st"
  using assms(2)
proof cases
  case server
  with server_step_left [of st st'] assms(1) show ?thesis by (simp add: pp_inv_def ends_ok_def)
next
  case client
  with client_step_left [of st _ st'] assms(1) show ?thesis by (auto simp: pp_inv_def ends_ok_def)
qed

text \<open>As long as no poll has come back empty, a thread that waits for the other does not wait in
  vain: some step that does not time out is possible until the program has ended.\<close>

lemma pp_progress:
  assumes "pp_inv t st" "pp_timeouts st = 0" "\<forall>code. pp_cpc st \<noteq> CExit code"
  shows "\<exists>st'. pp_step st st' \<and> pp_timeouts st' = 0"
proof -
  have ends: "ends_ok t st" and r: "round_ok (pp_cpc st) (pp_spc st) t st"
    using assms by (simp_all add: pp_inv_def)
  have srv: "\<exists>st'. pp_step st st' \<and> pp_timeouts st' = 0"
    if "\<exists>st'. server_step (pp_spc st) st = Some st' \<and> pp_timeouts st' = 0"
    using that pp_step.server by blast
  have cli: "\<exists>st'. pp_step st st' \<and> pp_timeouts st' = 0"
    if "\<exists>st'. client_step (pp_cpc st) st = Some st' \<and> pp_timeouts st' = 0"
    using that pp_step.client by blast
  show ?thesis
  proof (cases "pp_cpc st")
    case (CSubmit i)
    then show ?thesis using assms(2) by (cases "i < kRounds"; intro cli) (auto split: prod.splits)
  next
    case (CPoll i)
    obtain res w' where sp: "RdmaServer_PollTask [] (pp_server st) (pp_world st) = (res, w')" by (metis surj_pair)
    obtain res' w'' where cp: "RdmaClient_PollResult [] (pp_client st) (pp_world st) = (res', w'')" by (metis surj_pair)
    have "i < kRounds" using ends CPoll by (simp add: ends_ok_def)
    with r CPoll consider
      msg a where "pp_spc st = SPoll i" "server_box t st = [msg]" "msg_payload msg = Some a"
        "cells (pp_world st) a = TaskMessage_Serialize (ping_task i)"
      | "pp_spc st = SSend i (ping_task i)"
      | msg a where "client_box t st = [msg]" "msg_payload msg = Some a"
        "cells (pp_world st) a = ResultMessage_Serialize (pong i)"
      by auto
    then show ?thesis
    proof cases
      case 1
      then show ?thesis using server_poll_one(1) [OF ends 1(2-4) sp] sp \<open>i < kRounds\<close> assms(2) by (intro srv) auto
    next
      case 2
      then show ?thesis using assms(2) by (intro srv) (auto split: prod.splits)
    next
      case 3
      then show ?thesis using client_poll_one(1) [OF ends 3 cp] cp CPoll assms(2) by (intro cli) auto
    qed
  next
    case CJoin
    show ?thesis
    proof (cases "pp_spc st = SDone")
      case True
      then show ?thesis using CJoin assms(2) by (intro cli) simp
    next
      case False
      then show ?thesis using CJoin r assms(2) by (intro srv) auto
    qed
  qed (use assms(3) in auto)
qed

text \<open>The proper end: exit code 0 and the answer of every round.\<close>

definition pp_ended :: "PingPong \<Rightarrow> bool" where
  "pp_ended st \<longleftrightarrow> pp_cpc st = CExit 0 \<and> pp_results st = map pong [0..<kRounds]"

lemma pp_exit_ended:
  "pp_inv t st \<Longrightarrow> pp_timeouts st = 0 \<Longrightarrow> pp_cpc st = CExit code \<Longrightarrow> pp_ended st"
  by (auto simp: pp_inv_def pp_ended_def)

interpretation pp_program: timed_program pp_step "pp_inv t" "\<lambda>st. steps_left st" pp_timeouts pp_ended for t
proof unfold_locales
  show "\<exists>s'. pp_step s s' \<and> pp_timeouts s' = 0" if "pp_inv t s" "pp_timeouts s = 0" "\<not> pp_ended s" for s
    using pp_progress [OF that(1,2)] pp_exit_ended [OF that(1,2)] that(3) by blast
qed (fact pp_step_inv, fact pp_step_left)

lemma pp_stuck_only_at_exit:
  assumes "\<forall>code. pp_cpc st \<noteq> CExit code"
  shows "\<exists>st'. pp_step st st'"
proof (cases "pp_spc st = SDone")
  case True
  then have "\<exists>st'. client_step (pp_cpc st) st = Some st'"
    using assms by (cases "pp_cpc st") (auto split: prod.splits option.splits)
  then show ?thesis using pp_step.client by blast
next
  case False
  then have "\<exists>st'. server_step (pp_spc st) st = Some st'"
    by (cases "pp_spc st") (auto split: prod.splits option.splits)
  then show ?thesis using pp_step.server by blast
qed

lemma pp_run_inv:
  assumes "pp_run t w n st"
  shows "pp_inv t st" "n \<le> 4 * kRounds + 3"
proof -
  obtain st0 where st0: "pingpong_start t w = Some st0" "(pp_step ^^ n) st0 st" using assms by (auto simp: pp_run_def)
  have "pp_spc st0 = SPoll 0" "pp_cpc st0 = CSubmit 0"
    using st0(1) by (auto simp: pingpong_start_def Let_def split: prod.splits if_splits)
  moreover have "pp_inv t st0" using pingpong_starts [of t w] st0(1) by auto
  ultimately show "pp_inv t st" "n \<le> 4 * kRounds + 3" using pp_program.run_bounded [OF st0(2), of t] by auto
qed

text \<open>
  C14. The ping-pong program completes. It starts, and under every interleaving of its two threads a run has at most 515 steps
  and can only stop at the exit. From every state in which no wait has run out, the program can reach its exit without one:
  the two threads never both wait for a message that is not coming. If none has run out by the exit, the exit
  code is 0 and the client has polled the 128 results, the answer to its own task of each round, in order.
\<close>

theorem pingpong_completes:
  assumes "pp_run t w n st"
  shows "n \<le> 4 * kRounds + 3 \<and>
    ((\<exists>code. pp_cpc st = CExit code) \<or> (\<exists>st'. pp_step st st')) \<and>
    (pp_timeouts st = 0 \<longrightarrow>
       (\<exists>st'. pp_step\<^sup>*\<^sup>* st st' \<and> pp_timeouts st' = 0 \<and> pp_cpc st' = CExit 0) \<and>
       (\<forall>code. pp_cpc st = CExit code \<longrightarrow> code = 0 \<and>
          pp_results st = map (\<lambda>i. pong_result (ping_task i) ''pingpong-server'' i) [0..<kRounds]))"
proof -
  note inv = pp_run_inv [OF assms]
  have "\<exists>st'. pp_step\<^sup>*\<^sup>* st st' \<and> pp_timeouts st' = 0 \<and> pp_cpc st' = CExit 0" if "pp_timeouts st = 0"
    using pp_program.can_end [OF inv(1) that] by (auto simp: pp_ended_def)
  moreover have "code = 0 \<and> pp_results st = map pong [0..<kRounds]" if "pp_timeouts st = 0" "pp_cpc st = CExit code" for code
    using pp_exit_ended [OF inv(1) that] that(2) by (simp add: pp_ended_def)
  moreover have "(\<exists>code. pp_cpc st = CExit code) \<or> (\<exists>st'. pp_step st st')" using pp_stuck_only_at_exit by blast
  ultimately show ?thesis using inv(2) by (simp add: pong_def [abs_def])
qed

theorem pingpong_completes_witness:
  "\<exists>st st'. pp_run 0 empty_world 0 st \<and> pp_step\<^sup>*\<^sup>* st st' \<and> pp_timeouts st' = 0 \<and> pp_cpc st' = CExit 0"
proof -
  obtain st where st: "pingpong_start 0 empty_world = Some st" using pingpong_starts by blast
  then have run: "pp_run 0 empty_world 0 st" by (simp add: pp_run_def)
  have "pp_timeouts st = 0"
    using st by (auto simp: pingpong_start_def Let_def split: prod.splits if_splits)
  with pingpong_completes [OF run] run show ?thesis by blast
qed

end
