(* ===== verification/Rdma_Benchmarks.thy ===== *)
theory Rdma_Benchmarks
  imports Rdma_Examples
begin

text \<open>
  The programs under \<open>rdma/benchmark\<close>: one thread posts the same message many times over one or several connections, one
  receiver per connection polls as often. The three programs differ in their numbers and names only, which \<open>BenchConfig\<close>
  collects. The measured times are not modelled; the exit code is.
\<close>

record BenchConfig =
  bn_connections :: nat
  bn_rounds :: nat
  bn_wr :: "32 word"
  bn_src :: "nat \<Rightarrow> string"
  bn_dst :: "nat \<Rightarrow> string"
  bn_topic :: string
  bn_description :: string
  bn_bytes :: nat
  bn_fill :: byte
  bn_register_first :: bool

definition latency_bench :: BenchConfig where
  "latency_bench =
     \<lparr>bn_connections = 1, bn_rounds = 5000, bn_wr = 512, bn_src = (\<lambda>_. ''latency-src''), bn_dst = (\<lambda>_. ''latency-dst''),
      bn_topic = ''latency'', bn_description = ''4KB ping'', bn_bytes = 4 * 1024, bn_fill = 0x2A, bn_register_first = False\<rparr>"

definition throughput_bench :: BenchConfig where
  "throughput_bench =
     \<lparr>bn_connections = 1, bn_rounds = 1024, bn_wr = 512, bn_src = (\<lambda>_. ''throughput-src''), bn_dst = (\<lambda>_. ''throughput-dst''),
      bn_topic = ''throughput'', bn_description = ''1MB block'', bn_bytes = 1 * 1024 * 1024, bn_fill = 0x5A,
      bn_register_first = False\<rparr>"

definition multi_conn_bench :: BenchConfig where
  "multi_conn_bench =
     \<lparr>bn_connections = 8, bn_rounds = 512, bn_wr = 256, bn_src = (\<lambda>i. ''multi-src-'' @ to_string i),
      bn_dst = (\<lambda>i. ''multi-dst-'' @ to_string i), bn_topic = ''multi-conn'', bn_description = ''64KB fanout'',
      bn_bytes = 64 * 1024, bn_fill = 0x11, bn_register_first = True\<rparr>"

definition bench_qp :: "BenchConfig \<Rightarrow> nat \<Rightarrow> QueuePair" where
  "bench_qp cfg i =
     snd (QueuePair_BringUp (QueuePair_new
       \<lparr>local_node = bn_src cfg i, remote_node = bn_dst cfg i, max_send_wr = bn_wr cfg, max_recv_wr = bn_wr cfg\<rparr>))"

text \<open>\<open>bs_polls\<close> is how often each receiver has polled with success, \<open>None\<close> once its thread has returned;
  \<open>bs_timeouts\<close> is history.\<close>

record BenchState =
  bs_world :: rdma_world
  bs_completions :: CompletionQueue
  bs_region :: MemoryRegion
  bs_round :: nat
  bs_conn :: nat
  bs_polls :: "nat \<Rightarrow> nat option"
  bs_received :: nat
  bs_exit :: "int option"
  bs_timeouts :: nat

definition bench_connect :: "BenchConfig \<Rightarrow> nat \<Rightarrow> rdma_world \<Rightarrow> rdma_world" where
  "bench_connect cfg t w = fold (\<lambda>i. TransportRdma_Connect t (bench_qp cfg i)) [0..<bn_connections cfg] w"

definition bench_register :: "BenchConfig \<Rightarrow> rdma_world \<Rightarrow> MemoryRegion \<times> rdma_world" where
  "bench_register cfg w =
     (case MemoryRegistry_RegisterSize (bn_bytes cfg) MemoryRegistry_new w of
        (region, registry, w1) \<Rightarrow> (region, fill_region region (bn_fill cfg) w1))"

definition bench_start :: "BenchConfig \<Rightarrow> nat \<Rightarrow> rdma_world \<Rightarrow> BenchState" where
  "bench_start cfg t w =
     (case (if bn_register_first cfg
            then (case bench_register cfg (make_transport t w) of (region, w1) \<Rightarrow> (region, bench_connect cfg t w1))
            else bench_register cfg (bench_connect cfg t (make_transport t w))) of
        (region, w2) \<Rightarrow>
          \<lparr>bs_world = w2, bs_completions = CompletionQueue_new CompletionQueueConfig_default, bs_region = region,
           bs_round = 0, bs_conn = 0, bs_polls = (\<lambda>_. Some 0), bs_received = 0, bs_exit = None, bs_timeouts = 0\<rparr>)"

text \<open>One round of the inner loop of the posting thread.\<close>

definition bench_message :: "BenchConfig \<Rightarrow> BenchState \<Rightarrow> Message" where
  "bench_message cfg st =
     \<lparr>msg_source = bn_src cfg (bs_conn st), msg_destination = bn_dst cfg (bs_conn st), msg_topic = bn_topic cfg,
      msg_description = bn_description cfg, msg_payload = mr_storage (bs_region st),
      msg_work_request_id = word_of_nat (bs_round st * bn_connections cfg + bs_conn st + 1), msg_operation = kSend\<rparr>"

definition post_step :: "BenchConfig \<Rightarrow> nat \<Rightarrow> BenchState \<Rightarrow> BenchState option" where
  "post_step cfg t st =
     (if bs_round st < bn_rounds cfg then
        case TransportRdma_PostSend t (bench_qp cfg (bs_conn st)) (bench_message cfg st) (bs_completions st) (bs_world st) of
          (cq, w) \<Rightarrow>
            Some (st\<lparr>bs_world := w, bs_completions := cq,
                     bs_round := (if Suc (bs_conn st) < bn_connections cfg then bs_round st else Suc (bs_round st)),
                     bs_conn := (if Suc (bs_conn st) < bn_connections cfg then Suc (bs_conn st) else 0)\<rparr>)
      else None)"

text \<open>One round of the \<open>j\<close>-th receiver, at the moment its wait is over.\<close>

definition receive_step :: "BenchConfig \<Rightarrow> nat \<Rightarrow> nat \<Rightarrow> BenchState \<Rightarrow> BenchState option" where
  "receive_step cfg t j st =
     (case bs_polls st j of
        None \<Rightarrow> None
      | Some r \<Rightarrow>
          if r < bn_rounds cfg then
            (case TransportRdma_PollReceive [] t (bn_dst cfg j) (bs_world st) of
               (None, w) \<Rightarrow> Some (st\<lparr>bs_world := w, bs_polls := (bs_polls st)(j := None),
                                     bs_timeouts := Suc (bs_timeouts st)\<rparr>)
             | (Some message, w) \<Rightarrow> Some (st\<lparr>bs_world := w, bs_polls := (bs_polls st)(j := Some (Suc r)),
                                             bs_received := Suc (bs_received st)\<rparr>))
          else Some (st\<lparr>bs_polls := (bs_polls st)(j := None)\<rparr>))"

text \<open>The joins behind the posting loop and the exit code.\<close>

definition join_step :: "BenchConfig \<Rightarrow> BenchState \<Rightarrow> BenchState option" where
  "join_step cfg st =
     (if bs_exit st = None \<and> bs_round st = bn_rounds cfg \<and>
         list_all (\<lambda>j. bs_polls st j = None) [0..<bn_connections cfg]
      then Some (st\<lparr>bs_exit := Some (if bs_received st = bn_connections cfg * bn_rounds cfg then 0 else 1)\<rparr>)
      else None)"

inductive bench_step :: "BenchConfig \<Rightarrow> nat \<Rightarrow> BenchState \<Rightarrow> BenchState \<Rightarrow> bool" for cfg t where
  post: "post_step cfg t st = Some st' \<Longrightarrow> bench_step cfg t st st'"
| receive: "j < bn_connections cfg \<Longrightarrow> receive_step cfg t j st = Some st' \<Longrightarrow> bench_step cfg t st st'"
| join: "join_step cfg st = Some st' \<Longrightarrow> bench_step cfg t st st'"

text \<open>The states after \<open>n\<close> steps of the threads.\<close>

definition bench_run :: "BenchConfig \<Rightarrow> nat \<Rightarrow> rdma_world \<Rightarrow> nat \<Rightarrow> BenchState \<Rightarrow> bool" where
  "bench_run cfg t w n st \<longleftrightarrow> (bench_step cfg t ^^ n) (bench_start cfg t w) st"

lemma bench_run_start: "bench_run cfg t w 0 (bench_start cfg t w)"
  by (simp add: bench_run_def)

lemma bench_run_step: "bench_run cfg t w n st \<Longrightarrow> bench_step cfg t st st' \<Longrightarrow> bench_run cfg t w (Suc n) st'"
  by (auto simp: bench_run_def)

section \<open>What the inboxes hold\<close>

lemma bench_qp_simps [simp]:
  "qp_state (bench_qp cfg i) = kReadyToSend" "remote_node (qp_config (bench_qp cfg i)) = bn_dst cfg i"
  by (simp_all add: bench_qp_def BringUp_eq QueuePair_new_def)

definition bench_sent :: "BenchState \<Rightarrow> nat \<Rightarrow> nat" where
  "bench_sent st j = bs_round st + (if j < bs_conn st then 1 else 0)"

definition bench_taken :: "BenchConfig \<Rightarrow> BenchState \<Rightarrow> nat \<Rightarrow> nat" where
  "bench_taken cfg st j = (case bs_polls st j of None \<Rightarrow> bn_rounds cfg | Some r \<Rightarrow> r)"

text \<open>The numbers that no interleaving exceeds, and, as long as no wait has run out, the exact account: what has been posted
  to a receiver and not taken is in its inbox.\<close>

definition bench_bounds :: "BenchConfig \<Rightarrow> nat \<Rightarrow> BenchState \<Rightarrow> bool" where
  "bench_bounds cfg t st \<longleftrightarrow>
     tr_cap (transports (bs_world st) t) = 4096 \<and> bs_conn st < bn_connections cfg \<and> bs_round st \<le> bn_rounds cfg \<and>
     (bs_round st = bn_rounds cfg \<longrightarrow> bs_conn st = 0) \<and>
     (\<forall>j < bn_connections cfg. bench_taken cfg st j \<le> bn_rounds cfg)"

definition bench_account :: "BenchConfig \<Rightarrow> nat \<Rightarrow> BenchState \<Rightarrow> bool" where
  "bench_account cfg t st \<longleftrightarrow>
     (\<forall>j < bn_connections cfg. bench_taken cfg st j \<le> bench_sent st j \<and>
        length (inbox_of (bn_dst cfg j) (transports (bs_world st) t)) = bench_sent st j - bench_taken cfg st j) \<and>
     bs_received st = (\<Sum>j < bn_connections cfg. bench_taken cfg st j) \<and>
     (bs_exit st = None \<or>
      bs_exit st = Some 0 \<and> bs_received st = bn_connections cfg * bn_rounds cfg \<and>
        (\<forall>j < bn_connections cfg. bs_polls st j = None))"

definition bench_inv :: "BenchConfig \<Rightarrow> nat \<Rightarrow> BenchState \<Rightarrow> bool" where
  "bench_inv cfg t st \<longleftrightarrow> bench_bounds cfg t st \<and> (bs_timeouts st = 0 \<longrightarrow> bench_account cfg t st)"

definition bench_fits :: "BenchConfig \<Rightarrow> bool" where
  "bench_fits cfg \<longleftrightarrow> 0 < bn_connections cfg \<and> bn_rounds cfg \<le> 4096 \<and> inj_on (bn_dst cfg) {..<bn_connections cfg}"

lemma bench_connect_simps:
  "inbox_of node (transports (bench_connect cfg t w) t') = inbox_of node (transports w t')"
  "tr_config (transports (bench_connect cfg t w) t') = tr_config (transports w t')"
proof -
  have "inbox_of node (transports (fold (\<lambda>i. TransportRdma_Connect t (bench_qp cfg i)) is w) t') = inbox_of node (transports w t') \<and>
    tr_config (transports (fold (\<lambda>i. TransportRdma_Connect t (bench_qp cfg i)) is w) t') = tr_config (transports w t')" for "is"
    by (induction "is" arbitrary: w) simp_all
  then show "inbox_of node (transports (bench_connect cfg t w) t') = inbox_of node (transports w t')"
    "tr_config (transports (bench_connect cfg t w) t') = tr_config (transports w t')"
    by (simp_all add: bench_connect_def)
qed

lemma bench_register_transports: "transports (snd (bench_register cfg w)) = transports w"
proof -
  obtain g r w1 where "MemoryRegistry_Register (replicate (bn_bytes cfg) 0) MemoryRegistry_new w = (g, r, w1)"
    by (metis prod_cases3)
  with Register_world [OF this] show ?thesis
    by (simp add: bench_register_def MemoryRegistry_RegisterSize_def)
qed

lemma bench_start_simps:
  "inbox_of node (transports (bs_world (bench_start cfg t w)) t) = []"
  "tr_cap (transports (bs_world (bench_start cfg t w)) t) = 4096"
  "bs_round (bench_start cfg t w) = 0" "bs_conn (bench_start cfg t w) = 0" "bs_polls (bench_start cfg t w) = (\<lambda>_. Some 0)"
  "bs_received (bench_start cfg t w) = 0" "bs_exit (bench_start cfg t w) = None" "bs_timeouts (bench_start cfg t w) = 0"
  using bench_register_transports [of cfg "make_transport t w"]
    bench_register_transports [of cfg "bench_connect cfg t (make_transport t w)"]
  by (auto simp: bench_start_def bench_connect_simps TransportConfig_default_def split: prod.splits)

section \<open>Every message arrives if the rounds fit the mailbox\<close>

lemma post_step_sent:
  assumes "post_step cfg t st = Some st'" "bs_conn st < bn_connections cfg" "j < bn_connections cfg"
  shows "bench_sent st' j = bench_sent st j + (if j = bs_conn st then 1 else 0)"
  using assms by (auto simp: post_step_def bench_sent_def split: if_splits prod.splits)

lemma post_step_frame:
  assumes "post_step cfg t st = Some st'"
  shows "bs_polls st' = bs_polls st" "bs_received st' = bs_received st" "bs_exit st' = bs_exit st"
    "bs_timeouts st' = bs_timeouts st" "bs_round st < bn_rounds cfg"
  using assms by (auto simp: post_step_def split: if_splits prod.splits)

lemma post_step_world:
  assumes "post_step cfg t st = Some st'"
  shows "inbox_of node (transports (bs_world st') t) =
      (if node = bn_dst cfg (bs_conn st)
       then (if 0 < tr_cap (transports (bs_world st) t) \<and>
                tr_cap (transports (bs_world st) t) \<le> length (inbox_of node (transports (bs_world st) t))
             then tl (inbox_of node (transports (bs_world st) t)) else inbox_of node (transports (bs_world st) t))
            @ [addressed (bench_qp cfg (bs_conn st)) (bench_message cfg st)]
       else inbox_of node (transports (bs_world st) t))"
    "tr_config (transports (bs_world st') t) = tr_config (transports (bs_world st) t)"
proof -
  obtain cq w where send: "TransportRdma_PostSend t (bench_qp cfg (bs_conn st)) (bench_message cfg st)
      (bs_completions st) (bs_world st) = (cq, w)" by (metis surj_pair)
  have "bs_world st' = w" using assms send by (auto simp: post_step_def split: if_splits)
  then show "inbox_of node (transports (bs_world st') t) =
      (if node = bn_dst cfg (bs_conn st)
       then (if 0 < tr_cap (transports (bs_world st) t) \<and>
                tr_cap (transports (bs_world st) t) \<le> length (inbox_of node (transports (bs_world st) t))
             then tl (inbox_of node (transports (bs_world st) t)) else inbox_of node (transports (bs_world st) t))
            @ [addressed (bench_qp cfg (bs_conn st)) (bench_message cfg st)]
       else inbox_of node (transports (bs_world st) t))"
    "tr_config (transports (bs_world st') t) = tr_config (transports (bs_world st) t)"
    using PostSend_inbox(1) [OF _ send, of node t] PostSend_inbox(2) [OF _ send, of t] by simp_all
qed

lemma post_inv:
  assumes "bench_fits cfg" "bench_inv cfg t st" "post_step cfg t st = Some st'"
  shows "bench_inv cfg t st'"
proof -
  let ?i = "bs_conn st"
  have b: "bench_bounds cfg t st" using assms(2) by (simp add: bench_inv_def)
  note fr = post_step_frame [OF assms(3)] and wd = post_step_world [OF assms(3)]
  have i: "?i < bn_connections cfg" using b by (simp add: bench_bounds_def)
  have same_taken: "bench_taken cfg st' = bench_taken cfg st" by (rule ext) (simp add: bench_taken_def fr(1))
  have "bench_bounds cfg t st'"
    using b fr(5) assms(3) wd(2) unfolding bench_bounds_def same_taken
    by (auto simp: post_step_def split: if_splits prod.splits)
  moreover have "bench_account cfg t st'" if "bs_timeouts st = 0"
  proof -
    have a: "bench_account cfg t st" using assms(2) that by (simp add: bench_inv_def)
    have acc: "bench_taken cfg st j \<le> bench_sent st j"
      "length (inbox_of (bn_dst cfg j) (transports (bs_world st) t)) = bench_sent st j - bench_taken cfg st j"
      if "j < bn_connections cfg" for j
      using a that by (simp_all add: bench_account_def)
    have cap: "tr_cap (transports (bs_world st) t) = 4096" using b by (simp add: bench_bounds_def)
    have room: "length (inbox_of (bn_dst cfg ?i) (transports (bs_world st) t)) < 4096"
      using a i fr(5) assms(1) by (auto simp: bench_account_def bench_fits_def bench_sent_def)
    have "length (inbox_of (bn_dst cfg j) (transports (bs_world st') t)) = bench_sent st' j - bench_taken cfg st' j \<and>
        bench_taken cfg st' j \<le> bench_sent st' j" if j: "j < bn_connections cfg" for j
    proof (cases "j = ?i")
      case True
      then show ?thesis
        using acc [OF i] cap room wd(1) [of "bn_dst cfg j"] post_step_sent [OF assms(3) i i]
        by (simp add: same_taken Suc_diff_le)
    next
      case False
      then have "bn_dst cfg j \<noteq> bn_dst cfg ?i"
        using assms(1) i j by (auto simp: bench_fits_def inj_on_def)
      then show ?thesis
        using a j False wd(1) [of "bn_dst cfg j"] post_step_sent [OF assms(3) i j]
        by (simp add: bench_account_def same_taken)
    qed
    then show ?thesis using a by (auto simp: bench_account_def same_taken fr(1-3))
  qed
  ultimately show ?thesis by (simp add: bench_inv_def fr(4))
qed

text \<open>A receiver takes the oldest message of its own inbox.\<close>

lemma receive_poll:
  assumes "TransportRdma_PollReceive [] t node w = (res, w')"
  shows "res = None \<longleftrightarrow> inbox_of node (transports w t) = []"
    "inbox_of n (transports w' t) = (if n = node then tl (inbox_of node (transports w t)) else inbox_of n (transports w t))"
    "tr_config (transports w' t) = tr_config (transports w t)"
  using assms by (auto simp: PollReceive_undisturbed inbox_pop_def split: list.splits)

lemma receive_step_frame:
  assumes "receive_step cfg t j st = Some st'"
  shows "bs_round st' = bs_round st" "bs_conn st' = bs_conn st" "bs_exit st' = bs_exit st"
    "tr_config (transports (bs_world st') t) = tr_config (transports (bs_world st) t)"
    "bs_timeouts st \<le> bs_timeouts st'" "i \<noteq> j \<Longrightarrow> bs_polls st' i = bs_polls st i"
    "bench_taken cfg st j \<le> bn_rounds cfg \<Longrightarrow> bench_taken cfg st' j \<le> bn_rounds cfg"
  using assms receive_poll(3) [of t "bn_dst cfg j" "bs_world st"]
  by (auto simp: receive_step_def bench_taken_def split: option.splits if_splits prod.splits)

lemma sum_bump:
  fixes f g :: "nat \<Rightarrow> nat"
  assumes "j < k" "g j = Suc (f j)" "\<And>i. i \<noteq> j \<Longrightarrow> g i = f i"
  shows "(\<Sum>i < k. g i) = Suc (\<Sum>i < k. f i)"
  using assms by (simp add: sum.remove [of "{..<k}" j])

lemma receive_inv:
  assumes "bench_fits cfg" "bench_inv cfg t st" "j < bn_connections cfg" "receive_step cfg t j st = Some st'"
  shows "bench_inv cfg t st'"
proof -
  have b: "bench_bounds cfg t st" using assms(2) by (simp add: bench_inv_def)
  note fr = receive_step_frame [OF assms(4)]
  have other: "bench_taken cfg st' i = bench_taken cfg st i" if "i \<noteq> j" for i using fr(6) [OF that] by (simp add: bench_taken_def)
  have same_sent: "bench_sent st' = bench_sent st" by (rule ext) (simp add: bench_sent_def fr)
  have "bench_taken cfg st' i \<le> bn_rounds cfg" if "i < bn_connections cfg" for i
    using b that other [of i] fr(7) assms(3) by (cases "i = j") (auto simp: bench_bounds_def)
  then have "bench_bounds cfg t st'" using b by (simp add: bench_bounds_def fr)
  moreover have "bench_account cfg t st'" if 0: "bs_timeouts st' = 0"
  proof -
    have a: "bench_account cfg t st" using assms(2) fr(5) 0 by (simp add: bench_inv_def)
    obtain r where r: "bs_polls st j = Some r" using assms(4) by (auto simp: receive_step_def split: option.splits)
    have going: "bs_exit st = None" using a r assms(3) by (auto simp: bench_account_def)
    obtain res w where poll: "TransportRdma_PollReceive [] t (bn_dst cfg j) (bs_world st) = (res, w)" by (metis surj_pair)
    note p = receive_poll [OF poll]
    show ?thesis
    proof (cases "r < bn_rounds cfg")
      case False
      then have "r = bn_rounds cfg" using b r assms(3) by (auto simp: bench_bounds_def bench_taken_def)
      then have "st' = st\<lparr>bs_polls := (bs_polls st)(j := None)\<rparr>" "bench_taken cfg st' = bench_taken cfg st"
        using assms(4) r False by (auto simp: receive_step_def bench_taken_def fun_eq_iff)
      with a going show ?thesis by (simp add: bench_account_def bench_sent_def)
    next
      case True
      with assms(4) r poll 0 obtain m where m: "res = Some m"
        and st': "st' = st\<lparr>bs_world := w, bs_polls := (bs_polls st)(j := Some (Suc r)), bs_received := Suc (bs_received st)\<rparr>"
        by (cases res) (auto simp: receive_step_def)
      have ne: "inbox_of (bn_dst cfg j) (transports (bs_world st) t) \<noteq> []" using p(1) m by auto
      have tk: "bench_taken cfg st j = r" "bench_taken cfg st' j = Suc r" by (simp_all add: bench_taken_def r st')
      have "length (inbox_of (bn_dst cfg i) (transports w t)) = bench_sent st i - bench_taken cfg st' i \<and> bench_taken cfg st' i \<le> bench_sent st i"
        if i: "i < bn_connections cfg" for i
      proof (cases "i = j")
        case True
        have "0 < length (inbox_of (bn_dst cfg j) (transports (bs_world st) t))" using ne by simp
        moreover have "length (inbox_of (bn_dst cfg j) (transports (bs_world st) t)) = bench_sent st j - r"
          using a assms(3) tk(1) by (simp add: bench_account_def)
        ultimately show ?thesis using True p(2) [of "bn_dst cfg j"] tk(2) by simp
      next
        case False
        then have "bn_dst cfg i \<noteq> bn_dst cfg j" using assms(1,3) i by (auto simp: bench_fits_def inj_on_def)
        then show ?thesis using a i other [OF False] p(2) [of "bn_dst cfg i"] by (simp add: bench_account_def)
      qed
      moreover have "(\<Sum>i < bn_connections cfg. bench_taken cfg st' i) = Suc (\<Sum>i < bn_connections cfg. bench_taken cfg st i)"
        by (rule sum_bump [OF assms(3)]) (simp_all add: tk other)
      moreover have "bs_world st' = w" "bs_received st' = Suc (bs_received st)" "bs_exit st' = bs_exit st"
        by (simp_all add: st')
      ultimately show ?thesis using a going by (simp add: bench_account_def same_sent)
    qed
  qed
  ultimately show ?thesis by (simp add: bench_inv_def)
qed

lemma join_inv:
  assumes "bench_inv cfg t st" "join_step cfg st = Some st'"
  shows "bench_inv cfg t st'"
proof -
  have gone: "\<forall>j < bn_connections cfg. bs_polls st j = None"
    and st': "st' = st\<lparr>bs_exit := Some (if bs_received st = bn_connections cfg * bn_rounds cfg then 0 else 1)\<rparr>"
    using assms(2) by (auto simp: join_step_def list_all_iff split: if_splits)
  have "(\<Sum>j < bn_connections cfg. bench_taken cfg st j) = bn_connections cfg * bn_rounds cfg"
    using gone by (simp add: bench_taken_def)
  moreover have "bench_taken cfg st' = bench_taken cfg st" "bench_sent st' = bench_sent st" by (auto simp: bench_taken_def bench_sent_def st')
  ultimately show ?thesis
    using assms(1) gone by (auto simp: bench_inv_def bench_bounds_def bench_account_def st')
qed

lemma bench_step_inv:
  assumes "bench_fits cfg" "bench_inv cfg t st" "bench_step cfg t st st'"
  shows "bench_inv cfg t st'"
  using assms(3)
  by cases (use post_inv [OF assms(1,2)] receive_inv [OF assms(1,2)] join_inv [OF assms(2)] in blast)+

text \<open>How many steps are left at most.\<close>

definition posts_left :: "BenchConfig \<Rightarrow> BenchState \<Rightarrow> nat" where
  "posts_left cfg st = bn_connections cfg * (bn_rounds cfg - bs_round st) - bs_conn st"

definition polls_left :: "BenchConfig \<Rightarrow> BenchState \<Rightarrow> nat \<Rightarrow> nat" where
  "polls_left cfg st j = (case bs_polls st j of None \<Rightarrow> 0 | Some r \<Rightarrow> Suc (bn_rounds cfg - r))"

definition bench_left :: "BenchConfig \<Rightarrow> BenchState \<Rightarrow> nat" where
  "bench_left cfg st =
     posts_left cfg st + (\<Sum>j < bn_connections cfg. polls_left cfg st j) + (if bs_exit st = None then 1 else 0)"

lemma post_left:
  assumes "bench_bounds cfg t st" "post_step cfg t st = Some st'"
  shows "posts_left cfg st' < posts_left cfg st"
proof -
  obtain d where d: "bn_rounds cfg - bs_round st = Suc d"
    using post_step_frame(5) [OF assms(2)] by (metis Suc_diff_Suc)
  then have d': "bn_rounds cfg - Suc (bs_round st) = d" by simp
  have "bs_conn st < bn_connections cfg" using assms(1) by (simp add: bench_bounds_def)
  then show ?thesis
    using assms(2) d d' by (auto simp: post_step_def posts_left_def split: if_splits prod.splits)
qed

lemma receive_left:
  assumes "j < bn_connections cfg" "receive_step cfg t j st = Some st'"
  shows "(\<Sum>i < bn_connections cfg. polls_left cfg st' i) < (\<Sum>i < bn_connections cfg. polls_left cfg st i)"
proof -
  have "polls_left cfg st' j < polls_left cfg st j"
    using assms(2) by (auto simp: receive_step_def polls_left_def split: option.splits if_splits prod.splits)
  moreover have "polls_left cfg st' i = polls_left cfg st i" if "i \<noteq> j" for i
    using receive_step_frame(6) [OF assms(2) that] by (simp add: polls_left_def)
  ultimately show ?thesis using assms(1) by (simp add: sum.remove [of _ j])
qed

lemma bench_step_left:
  assumes "bench_inv cfg t st" "bench_step cfg t st st'"
  shows "bench_left cfg st' < bench_left cfg st"
  using assms(2)
proof cases
  case post
  have "polls_left cfg st' = polls_left cfg st"
    by (rule ext) (simp add: polls_left_def post_step_frame(1) [OF post])
  then show ?thesis
    using post_left [OF _ post] assms(1) post_step_frame(3) [OF post] by (simp add: bench_left_def bench_inv_def)
next
  case (receive j)
  note fr = receive_step_frame [OF receive(2)]
  show ?thesis using receive_left [OF receive] by (simp add: bench_left_def posts_left_def fr(1-3))
next
  case join
  then show ?thesis
    by (auto simp: join_step_def bench_left_def posts_left_def polls_left_def split: if_splits)
qed

lemma bench_start_inv: "bench_fits cfg \<Longrightarrow> bench_inv cfg t (bench_start cfg t w)"
  by (simp add: bench_inv_def bench_bounds_def bench_account_def bench_start_simps bench_taken_def bench_sent_def bench_fits_def)

lemma bench_progress:
  assumes "bench_inv cfg t st" "bs_timeouts st = 0" "bs_exit st = None"
  shows "\<exists>st'. bench_step cfg t st st' \<and> bs_timeouts st' = 0"
proof (cases "bs_round st < bn_rounds cfg")
  case True
  then have "\<exists>st'. post_step cfg t st = Some st'" by (auto simp: post_step_def split: prod.splits)
  then obtain st' where st': "post_step cfg t st = Some st'" by blast
  then show ?thesis using bench_step.post post_step_frame(4) assms(2) by metis
next
  case False
  have b: "bench_bounds cfg t st" and a: "bench_account cfg t st" using assms by (simp_all add: bench_inv_def)
  have fin: "bs_round st = bn_rounds cfg" "bs_conn st = 0" using b False by (auto simp: bench_bounds_def)
  show ?thesis
  proof (cases "\<exists>j < bn_connections cfg. bs_polls st j \<noteq> None")
    case True
    then obtain j r where j: "j < bn_connections cfg" "bs_polls st j = Some r" by auto
    obtain res w where poll: "TransportRdma_PollReceive [] t (bn_dst cfg j) (bs_world st) = (res, w)" by (metis surj_pair)
    have "r < bn_rounds cfg \<Longrightarrow> res \<noteq> None"
      using receive_poll(1) [OF poll] a j fin by (auto simp: bench_account_def bench_sent_def bench_taken_def)
    then obtain st' where "receive_step cfg t j st = Some st'" "bs_timeouts st' = 0"
      using j(2) poll assms(2) by (cases "r < bn_rounds cfg") (auto simp: receive_step_def)
    then show ?thesis using bench_step.receive [OF j(1)] by blast
  next
    case False
    then obtain st' where "join_step cfg st = Some st'" "bs_timeouts st' = 0"
      using assms(2,3) fin by (auto simp: join_step_def list_all_iff)
    then show ?thesis using bench_step.join by blast
  qed
qed

definition bench_ended :: "BenchConfig \<Rightarrow> BenchState \<Rightarrow> bool" where
  "bench_ended cfg st \<longleftrightarrow> bs_exit st = Some 0 \<and> bs_received st = bn_connections cfg * bn_rounds cfg"

lemma bench_exit_ended:
  "bench_inv cfg t st \<Longrightarrow> bs_timeouts st = 0 \<Longrightarrow> bs_exit st = Some code \<Longrightarrow> bench_ended cfg st \<and> code = 0"
  by (auto simp: bench_inv_def bench_account_def bench_ended_def)

interpretation bench_program: timed_program "bench_step cfg t" "\<lambda>st. bench_fits cfg \<and> bench_inv cfg t st"
  "bench_left cfg" bs_timeouts "bench_ended cfg" for cfg t
proof unfold_locales
  show "\<exists>s'. bench_step cfg t s s' \<and> bs_timeouts s' = 0"
    if "bench_fits cfg \<and> bench_inv cfg t s" "bs_timeouts s = 0" "\<not> bench_ended cfg s" for s
    using bench_progress [of cfg t s] bench_exit_ended [of cfg t s] that by (cases "bs_exit s") auto
qed (use bench_step_inv bench_step_left in blast)+

text \<open>
  C15. A benchmark whose rounds fit the mailbox of 4096 messages receives everything: under every interleaving of the posting
  thread and the receivers a run ends after a bounded number of steps, from every state in which no wait has run out the exit can be
  reached without one, and if none has run out by the exit, every message of every connection was received and the exit
  code is 0.
\<close>

theorem bench_receives_all:
  assumes "bench_fits cfg" "bench_run cfg t w n st"
  shows "n \<le> bn_connections cfg * (2 * bn_rounds cfg + 1) + 1 \<and>
    (bs_timeouts st = 0 \<longrightarrow>
       (\<exists>st'. (bench_step cfg t)\<^sup>*\<^sup>* st st' \<and> bs_timeouts st' = 0 \<and> bs_exit st' = Some 0) \<and>
       (\<forall>code. bs_exit st = Some code \<longrightarrow> code = 0 \<and> bs_received st = bn_connections cfg * bn_rounds cfg))"
proof -
  have run: "(bench_step cfg t ^^ n) (bench_start cfg t w) st" using assms(2) by (simp add: bench_run_def)
  have left: "bench_left cfg (bench_start cfg t w) = bn_connections cfg * (2 * bn_rounds cfg + 1) + 1"
    by (simp add: bench_left_def posts_left_def polls_left_def bench_start_simps algebra_simps)
  note inv = bench_program.run_bounded [OF run, unfolded left] bench_start_inv [OF assms(1)] assms(1)
  have "\<exists>st'. (bench_step cfg t)\<^sup>*\<^sup>* st st' \<and> bs_timeouts st' = 0 \<and> bs_exit st' = Some 0" if "bs_timeouts st = 0"
    using bench_program.can_end [of cfg t st] inv that by (auto simp: bench_ended_def)
  moreover have "code = 0 \<and> bs_received st = bn_connections cfg * bn_rounds cfg"
    if "bs_timeouts st = 0" "bs_exit st = Some code" for code
    using bench_exit_ended [of cfg t st code] inv that by (simp add: bench_ended_def)
  ultimately show ?thesis using inv by simp
qed

theorem bench_receives_all_witness:
  "bench_fits throughput_bench \<and> bench_fits multi_conn_bench \<and>
   (\<exists>st'. (bench_step multi_conn_bench 0)\<^sup>*\<^sup>* (bench_start multi_conn_bench 0 empty_world) st' \<and> bs_exit st' = Some 0)"
proof -
  have fits: "bench_fits throughput_bench" "bench_fits multi_conn_bench"
    by (auto simp: bench_fits_def throughput_bench_def multi_conn_bench_def inj_on_def)
  show ?thesis
    using bench_receives_all [OF fits(2) bench_run_start [of multi_conn_bench 0 empty_world]] fits
    by (auto simp: bench_start_simps)
qed

section \<open>The latency benchmark can lose messages\<close>

text \<open>One connection, everything posted before the receiver takes its first message: the mailbox holds the last 4096.\<close>

definition all_idle :: "nat \<Rightarrow> BenchState \<Rightarrow> bool" where
  "all_idle r st \<longleftrightarrow> bs_conn st = 0 \<and> bs_polls st 0 = Some r \<and> bs_received st = r \<and> bs_exit st = None \<and> bs_timeouts st = 0"

abbreviation bench_box :: "BenchConfig \<Rightarrow> nat \<Rightarrow> BenchState \<Rightarrow> Message list" where
  "bench_box cfg t st \<equiv> inbox_of (bn_dst cfg 0) (transports (bs_world st) t)"

lemma posts_first:
  assumes "bn_connections cfg = 1" "m \<le> bn_rounds cfg"
  shows "\<exists>st. bench_run cfg t w m st \<and> bs_round st = m \<and> all_idle 0 st \<and>
    tr_cap (transports (bs_world st) t) = 4096 \<and> length (bench_box cfg t st) = min m 4096"
  using assms(2)
proof (induction m)
  case 0
  then show ?case
    using bench_run_start [of cfg t w] by (intro exI [of _ "bench_start cfg t w"]) (simp add: all_idle_def bench_start_simps)
next
  case (Suc m)
  then obtain st where st: "bench_run cfg t w m st" "bs_round st = m" "all_idle 0 st"
    "tr_cap (transports (bs_world st) t) = 4096" "length (bench_box cfg t st) = min m 4096" by auto
  have "\<exists>st'. post_step cfg t st = Some st'"
    using st(2) Suc.prems by (auto simp: post_step_def split: prod.splits)
  then obtain st' where post: "post_step cfg t st = Some st'" by blast
  have "bs_round st' = Suc m" "bs_conn st' = 0"
    using post st(2,3) assms(1) by (auto simp: post_step_def all_idle_def split: if_splits prod.splits)
  moreover have "length (bench_box cfg t st') = min (Suc m) 4096" "tr_cap (transports (bs_world st') t) = 4096"
    using post_step_world(1) [OF post, of "bn_dst cfg 0"] post_step_world(2) [OF post] st(3-5) by (auto simp: all_idle_def)
  ultimately show ?case
    using bench_run_step [OF st(1) bench_step.post [OF post]] post_step_frame [OF post] st(3)
    by (intro exI [of _ st']) (simp add: all_idle_def)
qed

lemma polls_then:
  assumes "bn_connections cfg = 1" "4096 < bn_rounds cfg" "r \<le> 4096"
  shows "\<exists>st. bench_run cfg t w (bn_rounds cfg + r) st \<and> bs_round st = bn_rounds cfg \<and> all_idle r st \<and>
    length (bench_box cfg t st) = 4096 - r"
  using assms(3)
proof (induction r)
  case 0
  then show ?case using posts_first [OF assms(1), of "bn_rounds cfg" t w] assms(2) by auto
next
  case (Suc r)
  then obtain st where st: "bench_run cfg t w (bn_rounds cfg + r) st" "bs_round st = bn_rounds cfg" "all_idle r st"
    "length (bench_box cfg t st) = 4096 - r" by auto
  obtain res w' where poll: "TransportRdma_PollReceive [] t (bn_dst cfg 0) (bs_world st) = (res, w')" by (metis surj_pair)
  note p = receive_poll [OF poll]
  obtain m where m: "res = Some m" using p(1) st(4) Suc.prems by (cases res) auto
  let ?st' = "st\<lparr>bs_world := w', bs_polls := (bs_polls st)(0 := Some (Suc r)), bs_received := Suc (bs_received st)\<rparr>"
  have step: "receive_step cfg t 0 st = Some ?st'"
    using st(3) poll m Suc.prems assms(2) by (simp add: receive_step_def all_idle_def)
  have "length (bench_box cfg t ?st') = 4096 - Suc r" using p(2) [of "bn_dst cfg 0"] st(4) by simp
  then show ?case
    using bench_run_step [OF st(1) bench_step.receive [OF _ step]] st(2,3) assms(1)
    by (intro exI [of _ ?st']) (simp add: all_idle_def)
qed

text \<open>
  C16. The latency benchmark posts 5000 messages into a mailbox of 4096. It has a run in which no wait runs out before everything
  has been posted and every message that is left has been received, and still the receiver then waits for messages that
  were dropped: its poll comes back empty, 4096 messages are counted and the program exits with 1.
\<close>

theorem latency_bench_can_fail:
  "\<exists>n st st'. bench_run latency_bench t w n st \<and> bs_round st = bn_rounds latency_bench \<and> bs_timeouts st = 0 \<and>
     bench_box latency_bench t st = [] \<and> bs_polls st 0 = Some 4096 \<and>
     bench_run latency_bench t w (n + 2) st' \<and> bs_received st' = 4096 \<and> bs_exit st' = Some 1"
proof -
  let ?c = latency_bench
  have c: "bn_connections ?c = 1" "bn_rounds ?c = 5000" by (simp_all add: latency_bench_def)
  obtain st where st: "bench_run ?c t w (5000 + 4096) st" "bs_round st = 5000" "all_idle 4096 st" "bench_box ?c t st = []"
    using polls_then [OF c(1), of 4096 t w] by (auto simp: c(2))
  obtain res w' where poll: "TransportRdma_PollReceive [] t (bn_dst ?c 0) (bs_world st) = (res, w')" by (metis surj_pair)
  have "res = None" using receive_poll(1) [OF poll] st(4) by simp
  then have rec: "receive_step ?c t 0 st = Some (st\<lparr>bs_world := w', bs_polls := (bs_polls st)(0 := None),
      bs_timeouts := Suc (bs_timeouts st)\<rparr>)" (is "_ = Some ?st1")
    using st(3) poll by (simp add: receive_step_def all_idle_def c)
  have join: "join_step ?c ?st1 = Some (?st1\<lparr>bs_exit := Some 1\<rparr>)"
    using st(2,3) by (simp add: join_step_def all_idle_def c)
  have "bench_run ?c t w (Suc (Suc (5000 + 4096))) (?st1\<lparr>bs_exit := Some 1\<rparr>)"
    using bench_run_step [OF bench_run_step [OF st(1) bench_step.receive [OF _ rec]] bench_step.join [OF join]] c(1) by simp
  with st show ?thesis
    by (intro exI [of _ "5000 + 4096"] exI [of _ st] exI [of _ "?st1\<lparr>bs_exit := Some 1\<rparr>"]) (simp add: c all_idle_def)
qed

end
