(* ===== verification/Worker_Runtime.thy ===== *)
theory Worker_Runtime
  imports Rdma_Peers
begin

text \<open>
  Tensors (\<open>worker/model/tensor.cpp\<close>), the task executor (\<open>worker/task/task.cpp\<close>) and the
  worker runtime (\<open>worker/runtime/worker_runtime.cpp\<close>), which ships tensors between nodes over
  the RDMA transport. A \<open>float\<close> is its 32-bit pattern. Its arithmetic and its object
  representation belong to the implementation: they are arguments of the definitions that use them
  (\<open>float_ops\<close>, \<open>object_bytes\<close>). Sizes are \<open>std::size_t\<close>, 64-bit words where they are computed.
  The runtime uses its transport pointer without a null check; the model has the address.
\<close>

section \<open>Tensor\<close>

type_synonym cfloat = "32 word"

record float_ops =
  f_of_size :: "nat \<Rightarrow> cfloat"
  f_add :: "cfloat \<Rightarrow> cfloat \<Rightarrow> cfloat"
  f_mul :: "cfloat \<Rightarrow> cfloat \<Rightarrow> cfloat"

record Tensor =
  t_name :: string
  t_shape :: "64 word list"
  t_data :: "cfloat list"

definition Tensor_default :: Tensor where
  "Tensor_default = \<lparr>t_name = [], t_shape = [], t_data = []\<rparr>"

definition Tensor_ElementCount :: "Tensor \<Rightarrow> 64 word" where
  "Tensor_ElementCount t = (if t_shape t = [] then 1 else foldl (*) 1 (t_shape t))"

text \<open>\<open>data_.resize(elements)\<close> of the empty vector: that many \<open>0.0f\<close>, whose pattern is 0.\<close>

definition Tensor_new :: "string \<Rightarrow> 64 word list \<Rightarrow> Tensor" where
  "Tensor_new name shape =
     (let t = \<lparr>t_name = name, t_shape = shape, t_data = []\<rparr>
      in t\<lparr>t_data := replicate (unat (Tensor_ElementCount t)) 0\<rparr>)"

definition Tensor_FillRamp :: "float_ops \<Rightarrow> cfloat \<Rightarrow> cfloat \<Rightarrow> Tensor \<Rightarrow> Tensor" where
  "Tensor_FillRamp ops start step t =
     t\<lparr>t_data := map (\<lambda>i. f_add ops start (f_mul ops (f_of_size ops i) step)) [0 ..< length (t_data t)]\<rparr>"

definition Tensor_ByteSize :: "Tensor \<Rightarrow> nat" where
  "Tensor_ByteSize t = length (t_data t) * 4"

definition Tensor_Serialize :: "(cfloat \<Rightarrow> ByteBuffer) \<Rightarrow> Tensor \<Rightarrow> ByteBuffer" where
  "Tensor_Serialize object_bytes t =
     (if t_data t \<noteq> [] then take (Tensor_ByteSize t) (concat (map object_bytes (t_data t)))
      else replicate (Tensor_ByteSize t) 0)"

text \<open>The loop of \<open>Summary\<close> over the dimensions.\<close>

fun shape_text :: "64 word list \<Rightarrow> string" where
  "shape_text [] = []"
| "shape_text [d] = to_string (unat d)"
| "shape_text (d # ds) = to_string (unat d) @ ''x'' @ shape_text ds"

definition Tensor_Summary :: "Tensor \<Rightarrow> string" where
  "Tensor_Summary t =
     t_name t @ ''['' @ shape_text (t_shape t) @ ''] bytes='' @ to_string (Tensor_ByteSize t)"

section \<open>TaskExecutor\<close>

datatype TaskKind = kBroadcast | kAllReduce | kLoadShard

fun TaskKind_ToString :: "TaskKind \<Rightarrow> string" where
  "TaskKind_ToString kBroadcast = ''broadcast''"
| "TaskKind_ToString kAllReduce = ''all-reduce''"
| "TaskKind_ToString kLoadShard = ''load-shard''"

record TaskSpec =
  spec_id :: string
  spec_kind :: TaskKind
  spec_target_node :: string
  spec_tensor :: Tensor
  spec_metadata :: str_map

record SpecResult =
  res_task_id :: string
  res_success :: bool
  res_detail :: string
  res_work_request_id :: "64 word"

record TaskExecutor =
  ex_local_node :: string
  ex_next_work_request_id :: "64 word"

definition TaskExecutor_new :: "string \<Rightarrow> TaskExecutor" where
  "TaskExecutor_new local = \<lparr>ex_local_node = local, ex_next_work_request_id = 1\<rparr>"

definition TaskExecutor_Execute ::
    "(cfloat \<Rightarrow> ByteBuffer) \<Rightarrow> TaskSpec \<Rightarrow> QueuePair \<Rightarrow> nat \<Rightarrow> TaskExecutor \<Rightarrow> MemoryRegistry \<Rightarrow> CompletionQueue
       \<Rightarrow> 'w rdma_world_scheme
       \<Rightarrow> SpecResult \<times> TaskExecutor \<times> MemoryRegistry \<times> CompletionQueue \<times> 'w rdma_world_scheme" where
  "TaskExecutor_Execute object_bytes spec qp t ex registry completions w =
     (case MemoryRegistry_Register (Tensor_Serialize object_bytes (spec_tensor spec)) registry w of
        (region, registry1, w1) \<Rightarrow>
          (let work_request_id = ex_next_work_request_id ex;
               ex1 = ex\<lparr>ex_next_work_request_id := work_request_id + 1\<rparr>
           in case TransportRdma_PostSend t qp
                     \<lparr>msg_source = ex_local_node ex, msg_destination = spec_target_node spec,
                      msg_topic = TaskKind_ToString (spec_kind spec),
                      msg_description = Tensor_Summary (spec_tensor spec),
                      msg_payload = mr_storage region, msg_work_request_id = work_request_id,
                      msg_operation = kSend\<rparr>
                     completions w1 of
                (completions1, w2) \<Rightarrow>
                  (\<lparr>res_task_id = spec_id spec, res_success = True,
                    res_detail = ''task submitted to transport'', res_work_request_id = work_request_id\<rparr>,
                   ex1, registry1, completions1, w2)))"

section \<open>WorkerRuntime\<close>

record WorkerRuntime =
  wr_node_id :: string
  wr_transport :: nat
  wr_registry :: MemoryRegistry
  wr_completions :: CompletionQueue
  wr_executor :: TaskExecutor
  wr_peers :: "string \<rightharpoonup> QueuePair"

definition WorkerRuntime_new :: "string \<Rightarrow> nat \<Rightarrow> WorkerRuntime" where
  "WorkerRuntime_new node_id transport =
     \<lparr>wr_node_id = node_id, wr_transport = transport, wr_registry = MemoryRegistry_new,
      wr_completions = CompletionQueue_new CompletionQueueConfig_default,
      wr_executor = TaskExecutor_new node_id, wr_peers = Map.empty\<rparr>"

definition WorkerRuntime_EnsurePeer ::
    "string \<Rightarrow> WorkerRuntime \<Rightarrow> 'w rdma_world_scheme \<Rightarrow> QueuePair \<times> WorkerRuntime \<times> 'w rdma_world_scheme" where
  "WorkerRuntime_EnsurePeer peer r w =
     (case wr_peers r peer of
        Some qp \<Rightarrow> (qp, r, w)
      | None \<Rightarrow>
          (let qp0 = QueuePair_new \<lparr>local_node = wr_node_id r, remote_node = peer,
                                    max_send_wr = 256, max_recv_wr = 256\<rparr>;
               qp1 = snd (QueuePair_TransitionTo kInit qp0);
               qp2 = snd (QueuePair_TransitionTo kReadyToReceive qp1);
               qp3 = snd (QueuePair_TransitionTo kReadyToSend qp2)
           in (qp3, r\<lparr>wr_peers := emplace peer qp3 (wr_peers r)\<rparr>,
               TransportRdma_Connect (wr_transport r) qp3 w)))"

definition WorkerRuntime_Submit ::
    "(cfloat \<Rightarrow> ByteBuffer) \<Rightarrow> TaskSpec \<Rightarrow> WorkerRuntime \<Rightarrow> 'w rdma_world_scheme
       \<Rightarrow> SpecResult \<times> WorkerRuntime \<times> 'w rdma_world_scheme" where
  "WorkerRuntime_Submit object_bytes spec r w =
     (let peer = (if spec_target_node spec = [] then wr_node_id r else spec_target_node spec) in
      case WorkerRuntime_EnsurePeer peer r w of (qp, r1, w1) \<Rightarrow>
        (case TaskExecutor_Execute object_bytes spec qp (wr_transport r1) (wr_executor r1) (wr_registry r1)
                (wr_completions r1) w1 of
           (res, ex, registry, completions, w2) \<Rightarrow>
             (res, r1\<lparr>wr_executor := ex, wr_registry := registry, wr_completions := completions\<rparr>, w2)))"

definition WorkerRuntime_Poll ::
    "('w rdma_world_scheme \<Rightarrow> 'w rdma_world_scheme) list \<Rightarrow> WorkerRuntime \<Rightarrow> 'w rdma_world_scheme
       \<Rightarrow> Message option \<times> 'w rdma_world_scheme" where
  "WorkerRuntime_Poll others r w = TransportRdma_PollReceive others (wr_transport r) (wr_node_id r) w"

definition WorkerRuntime_PollCompletion ::
    "(CompletionQueue \<Rightarrow> CompletionQueue) list \<Rightarrow> WorkerRuntime \<Rightarrow> CompletionEvent option \<times> WorkerRuntime" where
  "WorkerRuntime_PollCompletion others r =
     (case CompletionQueue_Poll others (wr_completions r) of (event, q) \<Rightarrow> (event, r\<lparr>wr_completions := q\<rparr>))"

section \<open>Sizes\<close>

lemma foldl_times_word: "foldl (*) (word_of_nat a) ds = word_of_nat (a * prod_list (map unat ds))"
  for ds :: "64 word list"
proof (induction ds arbitrary: a)
  case (Cons d ds)
  have "word_of_nat a * d = word_of_nat (a * unat d)" by simp
  with Cons.IH [of "a * unat d"] show ?case by (simp add: mult.assoc del: of_nat_mult)
qed simp

lemma ElementCount_value: "Tensor_ElementCount t = word_of_nat (prod_list (map unat (t_shape t)))"
  using foldl_times_word [of 1 "t_shape t"] by (simp add: Tensor_ElementCount_def)

lemma unat_ElementCount: "unat (Tensor_ElementCount t) = prod_list (map unat (t_shape t)) mod 2 ^ 64"
  by (simp add: ElementCount_value unat_of_nat)

section \<open>Peers and submission\<close>

lemma three_transitions_ready:
  "snd (QueuePair_TransitionTo kReadyToSend (snd (QueuePair_TransitionTo kReadyToReceive
     (snd (QueuePair_TransitionTo kInit (QueuePair_new (peer_config l r))))))) = ready_qp l r"
  by (simp add: TransitionTo_refines QueuePair_new_def ready_qp_def)

interpretation runtime_peers: peer_table WorkerRuntime_EnsurePeer wr_peers wr_node_id ready_qp
  by unfold_locales
    (auto simp: WorkerRuntime_EnsurePeer_def Let_def three_transitions_ready [unfolded peer_config_def] emplace_def
      split: option.splits)

lemma WorkerRuntime_EnsurePeer_frame:
  assumes "WorkerRuntime_EnsurePeer k r w = (qp, r', w')"
  shows "wr_node_id r' = wr_node_id r" "wr_transport r' = wr_transport r" "wr_registry r' = wr_registry r"
    "wr_completions r' = wr_completions r" "wr_executor r' = wr_executor r"
    "cells w' = cells w" "next_cell w' = next_cell w"
    "inbox_of node (transports w' t) = inbox_of node (transports w t)"
    "tr_config (transports w' t) = tr_config (transports w t)" "heap_mono w w'"
  using assms
  by (auto simp: WorkerRuntime_EnsurePeer_def Let_def heap_mono_def split: option.splits)

definition spec_peer :: "WorkerRuntime \<Rightarrow> TaskSpec \<Rightarrow> string" where
  "spec_peer r spec = (if spec_target_node spec = [] then wr_node_id r else spec_target_node spec)"

lemma Runtime_Submit_effect:
  fixes w :: "'b rdma_world_scheme"
  assumes "runtime_peers.peers_ok r" "WorkerRuntime_Submit ob spec r w = (res, r', w')"
  shows "res = \<lparr>res_task_id = spec_id spec, res_success = True, res_detail = ''task submitted to transport'',
            res_work_request_id = ex_next_work_request_id (wr_executor r)\<rparr>"
    "runtime_peers.peers_ok r'" "wr_node_id r' = wr_node_id r" "wr_transport r' = wr_transport r"
    "ex_next_work_request_id (wr_executor r') = ex_next_work_request_id (wr_executor r) + 1"
    "\<exists>msg. inbox_of (spec_peer r spec) (transports w' (wr_transport r)) =
        (if 0 < tr_cap (transports w (wr_transport r)) \<and>
            tr_cap (transports w (wr_transport r)) \<le> length (inbox_of (spec_peer r spec) (transports w (wr_transport r)))
         then tl (inbox_of (spec_peer r spec) (transports w (wr_transport r)))
         else inbox_of (spec_peer r spec) (transports w (wr_transport r))) @ [msg] \<and>
      msg_payload msg = Some (next_cell w) \<and> msg_topic msg = TaskKind_ToString (spec_kind spec) \<and>
      msg_description msg = Tensor_Summary (spec_tensor spec) \<and> msg_destination msg = spec_peer r spec"
    "cells w' = (cells w)(next_cell w := Tensor_Serialize ob (spec_tensor spec))"
proof -
  let ?peer = "spec_peer r spec" and ?b = "Tensor_Serialize ob (spec_tensor spec)" and ?t = "wr_transport r"
  obtain qp r1 w1 where ens: "WorkerRuntime_EnsurePeer ?peer r w = (qp, r1, w1)" by (metis prod_cases3)
  note fr = WorkerRuntime_EnsurePeer_frame [OF ens]
  have qp: "qp = ready_qp (wr_node_id r) ?peer"
    using runtime_peers.ensure_fresh [OF assms(1), of ?peer w] ens by simp
  obtain g reg1 w2 where reg: "MemoryRegistry_Register ?b (wr_registry r) w1 = (g, reg1, w2)" by (metis prod_cases3)
  note rw = Register_world [OF reg]
  let ?msg = "\<lparr>msg_source = ex_local_node (wr_executor r), msg_destination = spec_target_node spec,
      msg_topic = TaskKind_ToString (spec_kind spec), msg_description = Tensor_Summary (spec_tensor spec),
      msg_payload = mr_storage g, msg_work_request_id = ex_next_work_request_id (wr_executor r), msg_operation = kSend\<rparr>"
  obtain cq w3 where send: "TransportRdma_PostSend ?t qp ?msg (wr_completions r) w2 = (cq, w3)" by (metis surj_pair)
  have eq: "res = \<lparr>res_task_id = spec_id spec, res_success = True, res_detail = ''task submitted to transport'',
            res_work_request_id = ex_next_work_request_id (wr_executor r)\<rparr>" "w' = w3"
    "r' = r1\<lparr>wr_executor := (wr_executor r)\<lparr>ex_next_work_request_id := ex_next_work_request_id (wr_executor r) + 1\<rparr>,
             wr_registry := reg1, wr_completions := cq\<rparr>"
    using assms(2) ens reg send
    by (auto simp: WorkerRuntime_Submit_def TaskExecutor_Execute_def Let_def fr spec_peer_def)
  note eff = send_new_payload [OF _ _ send [unfolded rw(1)], simplified, unfolded qp, simplified, OF rw(2)]
  show "res = \<lparr>res_task_id = spec_id spec, res_success = True, res_detail = ''task submitted to transport'',
            res_work_request_id = ex_next_work_request_id (wr_executor r)\<rparr>" by (fact eq(1))
  show "wr_node_id r' = wr_node_id r" "wr_transport r' = wr_transport r"
    "ex_next_work_request_id (wr_executor r') = ex_next_work_request_id (wr_executor r) + 1"
    by (simp_all add: eq fr)
  show "runtime_peers.peers_ok r'"
    using runtime_peers.ensure_ok [OF assms(1), of ?peer w] ens by (simp add: eq(3) runtime_peers.peers_ok_def)
  show "cells w' = (cells w)(next_cell w := ?b)" using eff(1) by (simp add: eq(2) fr)
  show "\<exists>msg. inbox_of ?peer (transports w' ?t) =
        (if 0 < tr_cap (transports w ?t) \<and> tr_cap (transports w ?t) \<le> length (inbox_of ?peer (transports w ?t))
         then tl (inbox_of ?peer (transports w ?t)) else inbox_of ?peer (transports w ?t)) @ [msg] \<and>
      msg_payload msg = Some (next_cell w) \<and> msg_topic msg = TaskKind_ToString (spec_kind spec) \<and>
      msg_description msg = Tensor_Summary (spec_tensor spec) \<and> msg_destination msg = ?peer"
    using inbox_fifo.items_push [of ?peer "addressed (ready_qp (wr_node_id r) ?peer) ?msg" "transports w1 ?t"] eff(7) rw(2)
    by (intro exI [of _ "addressed (ready_qp (wr_node_id r) ?peer) ?msg"]) (simp add: eq(2) fr)
qed

section \<open>Properties\<close>

lemma length_concat_blocks: "(\<And>x. length (ob x) = 4) \<Longrightarrow> length (concat (map ob xs)) = length xs * 4"
  by (induction xs) simp_all

lemma length_Tensor_Serialize:
  assumes "\<And>x. length (ob x) = 4"
  shows "length (Tensor_Serialize ob t) = Tensor_ByteSize t"
  using length_concat_blocks [of ob "t_data t", OF assms] by (simp add: Tensor_Serialize_def Tensor_ByteSize_def)

text \<open>
  The sizes of a tensor agree: a tensor built from a shape has as many elements as the product of its
  dimensions modulo \<open>2 ^ 64\<close>, filling it keeps that number, and its serialisation has four bytes per
  element. Only the default-constructed tensor disagrees with itself: it reports one element
  and has none.
\<close>

theorem tensor_sizes_agree:
  assumes "\<And>x. length (object_bytes x) = 4"
  shows "unat (Tensor_ElementCount (Tensor_new name shape)) = prod_list (map unat shape) mod 2 ^ 64 \<and>
    length (Tensor_Serialize object_bytes (Tensor_FillRamp ops start step (Tensor_new name shape))) =
      4 * unat (Tensor_ElementCount (Tensor_new name shape)) \<and>
    Tensor_ElementCount Tensor_default = 1 \<and> Tensor_Serialize object_bytes Tensor_default = []"
proof -
  have "Tensor_ElementCount (Tensor_new name shape) = Tensor_ElementCount \<lparr>t_name = name, t_shape = shape, t_data = []\<rparr>"
    by (simp add: Tensor_ElementCount_def Tensor_new_def Let_def)
  moreover have "length (t_data (Tensor_new name shape)) =
      unat (Tensor_ElementCount \<lparr>t_name = name, t_shape = shape, t_data = []\<rparr>)"
    by (simp add: Tensor_new_def Let_def)
  moreover have "Tensor_ElementCount Tensor_default = 1" "Tensor_Serialize object_bytes Tensor_default = []"
    by (simp_all add: Tensor_ElementCount_def Tensor_default_def Tensor_Serialize_def Tensor_ByteSize_def)
  ultimately show ?thesis
    using length_Tensor_Serialize [of object_bytes "Tensor_FillRamp ops start step (Tensor_new name shape)", OF assms]
    by (simp add: Tensor_ByteSize_def Tensor_FillRamp_def unat_ElementCount)
qed

text \<open>Little-endian object representation of a \<open>float\<close>.\<close>

definition little_endian :: "cfloat \<Rightarrow> ByteBuffer" where
  "little_endian x = map (\<lambda>i. ucast (drop_bit (8 * i) x)) [0 ..< 4]"

lemma length_little_endian: "length (little_endian x) = 4"
  by (simp add: little_endian_def)

definition sample_float_ops :: float_ops where
  "sample_float_ops = \<lparr>f_of_size = word_of_nat, f_add = (+), f_mul = (*)\<rparr>"

theorem tensor_sizes_agree_witness:
  "length (Tensor_Serialize little_endian (Tensor_FillRamp sample_float_ops 0 1 (Tensor_new ''w'' [2, 3]))) = 24"
  using tensor_sizes_agree [of little_endian "''w''" "[2, 3]" sample_float_ops 0 1, OF length_little_endian]
  by simp

text \<open>
  A tensor arrives as it was sent: when a runtime submits a task to a node with an empty inbox, the
  submission succeeds and the runtime of that node polls a message that carries exactly the
  serialised tensor, with the task's kind as its topic and the tensor's summary.
\<close>

theorem runtime_ships_tensor:
  assumes "runtime_peers.peers_ok a" "\<And>x. length (object_bytes x) = 4"
    "wr_transport b = wr_transport a" "spec_peer a spec = wr_node_id b"
    "inbox_of (wr_node_id b) (transports w (wr_transport a)) = []"
    "WorkerRuntime_Submit object_bytes spec a w = (res, a', w')"
  shows "res_success res \<and>
    (\<exists>msg w''. WorkerRuntime_Poll others b w' = (Some msg, w'') \<and>
       msg_topic msg = TaskKind_ToString (spec_kind spec) \<and>
       msg_description msg = Tensor_Summary (spec_tensor spec) \<and>
       (\<exists>p. msg_payload msg = Some p \<and> cells w'' p = Tensor_Serialize object_bytes (spec_tensor spec)) \<and>
       Message_size msg w'' = Tensor_ByteSize (spec_tensor spec))"
proof -
  note eff = Runtime_Submit_effect [OF assms(1,6)]
  obtain msg where msg: "inbox_of (wr_node_id b) (transports w' (wr_transport b)) = [msg]"
    "msg_payload msg = Some (next_cell w)" "msg_topic msg = TaskKind_ToString (spec_kind spec)"
    "msg_description msg = Tensor_Summary (spec_tensor spec)"
    using eff(6) assms(3,4,5) by auto
  from PollReceive_ready [OF msg(1), of others] show ?thesis
    using eff(1,7) msg(2-4) length_Tensor_Serialize [of object_bytes "spec_tensor spec", OF assms(2)]
    by (simp add: WorkerRuntime_Poll_def Message_size_def buf_size_def)
qed

definition sample_spec :: TaskSpec where
  "sample_spec = \<lparr>spec_id = ''s-1'', spec_kind = kAllReduce, spec_target_node = ''n2'',
     spec_tensor = Tensor_new ''w'' [2, 3], spec_metadata = []\<rparr>"

theorem runtime_ships_tensor_witness:
  "\<exists>res a' w' msg w''. WorkerRuntime_Submit little_endian sample_spec (WorkerRuntime_new ''n1'' 0) empty_world = (res, a', w') \<and>
     WorkerRuntime_Poll [] (WorkerRuntime_new ''n2'' 0) w' = (Some msg, w'') \<and> msg_topic msg = ''all-reduce''"
proof -
  obtain res a' w' where run: "WorkerRuntime_Submit little_endian sample_spec (WorkerRuntime_new ''n1'' 0) empty_world
      = (res, a', w')" by (metis prod_cases3)
  have "runtime_peers.peers_ok (WorkerRuntime_new ''n1'' 0)"
    by (simp add: runtime_peers.peers_ok_def WorkerRuntime_new_def)
  from runtime_ships_tensor [OF this length_little_endian _ _ _ run, of "WorkerRuntime_new ''n2'' 0" "[]"]
  have "\<exists>msg w''. WorkerRuntime_Poll [] (WorkerRuntime_new ''n2'' 0) w' = (Some msg, w'') \<and> msg_topic msg = ''all-reduce''"
    by (auto simp: WorkerRuntime_new_def spec_peer_def sample_spec_def)
  with run show ?thesis by blast
qed

end
