(* ===== verification/Worker_Logger.thy ===== *)
theory Worker_Logger
  imports Rdma_Prelude
begin

text \<open>
  The logger of the worker (\<open>worker/src/logger.cpp\<close>). The time zone database behind \<open>localtime_r\<close> is a parameter; its
  result is a broken-down time. A call formats its line on its own and writes it in one piece under the mutex, so the
  calls of several threads reach the streams in some order, each as a whole line.
\<close>

datatype WorkerLogLevel = LogInfo | LogError

record tm =
  tm_year :: nat
  tm_mon :: nat
  tm_mday :: nat
  tm_hour :: nat
  tm_min :: nat
  tm_sec :: nat

definition two_digits :: "nat \<Rightarrow> string" where
  "two_digits n = (if n < 10 then ''0'' else []) @ to_string n"

text \<open>\<open>std::put_time\<close> with \<open>%Y-%m-%d %H:%M:%S\<close>; years count from 1900 and months from 0.\<close>

definition put_time :: "tm \<Rightarrow> string" where
  "put_time local_tm =
     to_string (tm_year local_tm + 1900) @ ''-'' @ two_digits (tm_mon local_tm + 1) @ ''-'' @ two_digits (tm_mday local_tm)
       @ '' '' @ two_digits (tm_hour local_tm) @ '':'' @ two_digits (tm_min local_tm) @ '':'' @ two_digits (tm_sec local_tm)"

definition log_line :: "(int \<Rightarrow> tm) \<Rightarrow> int \<Rightarrow> WorkerLogLevel \<Rightarrow> string \<Rightarrow> string" where
  "log_line localtime now level message =
     ''['' @ put_time (localtime now) @ '']'' @
     ''['' @ (if level = LogInfo then ''INFO'' else ''ERROR'') @ ''] '' @ message"

record std_streams =
  std_cout :: string
  std_cerr :: string

definition WorkerLogger_log ::
    "(int \<Rightarrow> tm) \<Rightarrow> int \<Rightarrow> WorkerLogLevel \<Rightarrow> string \<Rightarrow> std_streams \<Rightarrow> std_streams" where
  "WorkerLogger_log localtime now level message out =
     (let line = log_line localtime now level message @ [NL]
      in if level = LogInfo then out\<lparr>std_cout := std_cout out @ line\<rparr> else out\<lparr>std_cerr := std_cerr out @ line\<rparr>)"

text \<open>The calls of all threads in the order in which they get the mutex.\<close>

definition log_all :: "(int \<Rightarrow> tm) \<Rightarrow> (int \<times> WorkerLogLevel \<times> string) list \<Rightarrow> std_streams \<Rightarrow> std_streams" where
  "log_all localtime calls out =
     fold (\<lambda>(now, level, message). WorkerLogger_log localtime now level message) calls out"

lemma log_all_streams:
  "std_cout (log_all lt calls out) = std_cout out @
     concat (map (\<lambda>(now, level, message). log_line lt now level message @ [NL]) (filter (\<lambda>(now, level, message). level = LogInfo) calls))"
  "std_cerr (log_all lt calls out) = std_cerr out @
     concat (map (\<lambda>(now, level, message). log_line lt now level message @ [NL]) (filter (\<lambda>(now, level, message). level \<noteq> LogInfo) calls))"
  unfolding log_all_def by (induction calls arbitrary: out) (auto simp: WorkerLogger_log_def Let_def)

text \<open>
  Whatever order the threads get the mutex in, each stream holds the lines of its own level as whole lines in that order, as long as
  no message has a newline.
\<close>

theorem log_lines_whole:
  assumes "\<forall>(now, level, message) \<in> set calls. NL \<notin> set message"
  shows "getlines (std_cout (log_all lt calls \<lparr>std_cout = [], std_cerr = []\<rparr>)) =
      map (\<lambda>(now, level, message). log_line lt now level message) (filter (\<lambda>(now, level, message). level = LogInfo) calls)"
    "getlines (std_cerr (log_all lt calls \<lparr>std_cout = [], std_cerr = []\<rparr>)) =
      map (\<lambda>(now, level, message). log_line lt now level message) (filter (\<lambda>(now, level, message). level \<noteq> LogInfo) calls)"
proof -
  have digits: "NL \<notin> set (to_string n)" for n using to_string_digits [of n] by (auto simp: is_digit_def)
  have line: "NL \<notin> set (log_line lt now level message)" if "NL \<notin> set message" for now level message
    using that by (auto simp: log_line_def put_time_def two_digits_def digits)
  have whole: "getlines (concat (map (\<lambda>(now, level, message). log_line lt now level message @ [NL]) cs)) =
      map (\<lambda>(now, level, message). log_line lt now level message) cs" if "set cs \<subseteq> set calls" for cs
  proof -
    have "\<forall>l \<in> set (map (\<lambda>(now, level, message). log_line lt now level message) cs). NL \<notin> set l"
      using that assms line by fastforce
    from getlines_concat [OF this] show ?thesis by (simp add: comp_def case_prod_unfold)
  qed
  show "getlines (std_cout (log_all lt calls \<lparr>std_cout = [], std_cerr = []\<rparr>)) =
      map (\<lambda>(now, level, message). log_line lt now level message) (filter (\<lambda>(now, level, message). level = LogInfo) calls)"
    "getlines (std_cerr (log_all lt calls \<lparr>std_cout = [], std_cerr = []\<rparr>)) =
      map (\<lambda>(now, level, message). log_line lt now level message) (filter (\<lambda>(now, level, message). level \<noteq> LogInfo) calls)"
    by (simp_all add: log_all_streams whole)
qed

end
