(* ===== verification/Worker_Tasks.thy ===== *)
theory Worker_Tasks
  imports Rdma_Prelude
begin

text \<open>
  The worker's tasks: \<open>worker/include/task.h\<close>, the model and the executor (\<open>worker/mock/fake_model.cpp\<close>,
  \<open>worker/src/executor.cpp\<close>) and the queue between the task server and the consumer threads
  (\<open>worker/src/task_queue.cpp\<close>). The time \<open>FakeModel::infer\<close> sleeps is not part of the model.
\<close>

record Task =
  task_id :: string
  task_prompt :: string

record TaskResult =
  result_task_id :: string
  result_output :: string
  result_success :: bool

section \<open>Executor\<close>

text \<open>What a call can throw: a \<open>std::exception\<close> with its text, or anything else.\<close>

datatype cxx_exception = StdException string | OtherException

definition FakeModel_infer :: "string \<Rightarrow> cxx_exception + string" where
  "FakeModel_infer prompt = Inr (''processed: '' @ prompt)"

text \<open>\<open>execute\<close>, for any model.\<close>

definition execute_with :: "(string \<Rightarrow> cxx_exception + string) \<Rightarrow> Task \<Rightarrow> TaskResult" where
  "execute_with infer task =
     (let result = \<lparr>result_task_id = task_id task, result_output = [], result_success = False\<rparr>
      in case infer (task_prompt task) of
           Inr output \<Rightarrow> result\<lparr>result_output := output, result_success := True\<rparr>
         | Inl (StdException what) \<Rightarrow> result\<lparr>result_output := what, result_success := False\<rparr>
         | Inl OtherException \<Rightarrow>
             result\<lparr>result_output := ''unknown executor error'', result_success := False\<rparr>)"

definition Executor_execute :: "Task \<Rightarrow> TaskResult" where
  "Executor_execute task = execute_with FakeModel_infer task"

lemma Executor_execute_eq:
  "Executor_execute task =
     \<lparr>result_task_id = task_id task, result_output = ''processed: '' @ task_prompt task, result_success = True\<rparr>"
  by (simp add: Executor_execute_def execute_with_def FakeModel_infer_def Let_def)

section \<open>TaskQueue\<close>

record TaskQueue =
  tq_queue :: "Task list"
  tq_stopped :: bool

definition TaskQueue_new :: TaskQueue where
  "TaskQueue_new = \<lparr>tq_queue = [], tq_stopped = False\<rparr>"

definition TaskQueue_push :: "Task \<Rightarrow> TaskQueue \<Rightarrow> bool \<times> TaskQueue" where
  "TaskQueue_push task q =
     (if tq_stopped q then (False, q) else (True, q\<lparr>tq_queue := tq_queue q @ [task]\<rparr>))"

text \<open>\<open>waitPop\<close>; the outer \<open>None\<close>: it has not returned.\<close>

definition TaskQueue_waitPop ::
    "(TaskQueue \<Rightarrow> TaskQueue) list \<Rightarrow> TaskQueue \<Rightarrow> (Task option \<times> TaskQueue) option" where
  "TaskQueue_waitPop others q =
     (case cv_wait (\<lambda>q. tq_stopped q \<or> tq_queue q \<noteq> []) others q of
        None \<Rightarrow> None
      | Some q1 \<Rightarrow>
          if tq_stopped q1 then Some (None, q1)
          else Some (Some (hd (tq_queue q1)), q1\<lparr>tq_queue := tl (tq_queue q1)\<rparr>))"

definition TaskQueue_stop :: "TaskQueue \<Rightarrow> TaskQueue" where
  "TaskQueue_stop q = q\<lparr>tq_stopped := True\<rparr>"

section \<open>Properties\<close>

text \<open>Pushing some tasks, then popping as often.\<close>

fun pop_all :: "nat \<Rightarrow> TaskQueue \<Rightarrow> (Task option list \<times> TaskQueue) option" where
  "pop_all 0 q = Some ([], q)"
| "pop_all (Suc n) q =
     (case TaskQueue_waitPop [] q of
        None \<Rightarrow> None
      | Some (t, q1) \<Rightarrow> (case pop_all n q1 of None \<Rightarrow> None | Some (ts, q2) \<Rightarrow> Some (t # ts, q2)))"

lemma queue_push_all: "\<not> tq_stopped q \<Longrightarrow>
    fold (\<lambda>t q. snd (TaskQueue_push t q)) ts q = q\<lparr>tq_queue := tq_queue q @ ts\<rparr>"
  by (induction ts arbitrary: q) (simp_all add: TaskQueue_push_def)

lemma pop_all_queue: "\<not> tq_stopped q \<Longrightarrow> tq_queue q = ts @ rest \<Longrightarrow>
    pop_all (length ts) q = Some (map Some ts, q\<lparr>tq_queue := rest\<rparr>)"
proof (induction ts arbitrary: q)
  case (Cons t ts)
  have "TaskQueue_waitPop [] q = Some (Some t, q\<lparr>tq_queue := ts @ rest\<rparr>)"
    using Cons.prems by (simp add: TaskQueue_waitPop_def)
  then show ?case using Cons.IH [of "q\<lparr>tq_queue := ts @ rest\<rparr>"] Cons.prems by simp
qed simp

text \<open>
  While it runs, the task queue is an unbounded FIFO: what is pushed is popped in the same order and
  nothing is lost. Once stopped it refuses pushes, and waiting consumers return at once without
  a task even when tasks are still queued: those are never executed.
\<close>

theorem task_queue_fifo_until_stopped:
  assumes "\<not> tq_stopped q" "tq_queue q = []"
  shows "pop_all (length ts) (fold (\<lambda>t q. snd (TaskQueue_push t q)) ts q) = Some (map Some ts, q) \<and>
    (let q' = TaskQueue_stop (fold (\<lambda>t q. snd (TaskQueue_push t q)) ts q)
     in TaskQueue_waitPop others q' = Some (None, q') \<and> TaskQueue_push t q' = (False, q') \<and> tq_queue q' = ts)"
proof -
  have "pop_all (length ts) (q\<lparr>tq_queue := ts\<rparr>) = Some (map Some ts, q\<lparr>tq_queue := []\<rparr>)"
    using pop_all_queue [of "q\<lparr>tq_queue := ts\<rparr>" ts "[]"] assms(1) by simp
  moreover have "q\<lparr>tq_queue := []\<rparr> = q" using assms(2) by simp
  ultimately show ?thesis
    using assms unfolding queue_push_all [OF assms(1)]
    by (simp add: TaskQueue_stop_def TaskQueue_waitPop_def TaskQueue_push_def Let_def)
qed

theorem task_queue_fifo_until_stopped_witness:
  "pop_all 2 (fold (\<lambda>t q. snd (TaskQueue_push t q))
     [\<lparr>task_id = ''1'', task_prompt = ''a''\<rparr>, \<lparr>task_id = ''2'', task_prompt = ''b''\<rparr>] TaskQueue_new) =
   Some ([Some \<lparr>task_id = ''1'', task_prompt = ''a''\<rparr>, Some \<lparr>task_id = ''2'', task_prompt = ''b''\<rparr>], TaskQueue_new)"
  using task_queue_fifo_until_stopped [of TaskQueue_new
      "[\<lparr>task_id = ''1'', task_prompt = ''a''\<rparr>, \<lparr>task_id = ''2'', task_prompt = ''b''\<rparr>]"]
  by (simp add: TaskQueue_new_def Let_def numeral_2_eq_2 del: pop_all.simps)

end
