(* ===== verification/Worker_Tcp.thy ===== *)
theory Worker_Tcp
  imports Worker_Tasks "HOL-Library.Word"
begin

text \<open>
  The task server of \<open>worker/src/transport_tcp.cpp\<close>. The socket calls are the operating system's: the model
  takes their results as an argument, one per call in the order of the calls. Log lines are left out.
\<close>

section \<open>Receiving a task\<close>

text \<open>What a call of \<open>recv\<close> returns: bytes (none at the end of the stream), or -1 with \<open>errno\<close>. With \<open>EAGAIN\<close>
  comes what \<open>running_.load()\<close> reads next.\<close>

datatype recv_result =
    RecvBytes string
  | RecvEINTR
  | RecvEAGAIN bool
  | RecvError

text \<open>The loop of \<open>handleClient\<close>: it leaves the loop with a payload, returns from the function, or has not come
  back from a call.\<close>

datatype recv_outcome = Payload string | Returned | Waiting

fun recv_loop :: "recv_result list \<Rightarrow> string \<Rightarrow> recv_outcome" where
  "recv_loop [] payload = Waiting"
| "recv_loop (RecvEINTR # rs) payload = recv_loop rs payload"
| "recv_loop (RecvEAGAIN is_running # rs) payload = (if is_running then recv_loop rs payload else Returned)"
| "recv_loop (RecvError # rs) payload = Returned"
| "recv_loop (RecvBytes received # rs) payload =
     (if received = [] then Payload payload
      else let payload1 = payload @ received
           in case find_char NL payload1 of
                Some newline_pos \<Rightarrow> Payload (substr payload1 0 newline_pos)
              | None \<Rightarrow> recv_loop rs payload1)"

text \<open>The rest of \<open>handleClient\<close>: the task it passes to the handler, if any.\<close>

definition parse_task :: "string \<Rightarrow> Task option" where
  "parse_task raw =
     (let payload = (if raw \<noteq> [] \<and> last raw = CR then butlast raw else raw)
      in if payload = [] then None
         else case find_char (CHR ''|'') payload of
                None \<Rightarrow> None
              | Some separator \<Rightarrow>
                  (let task = \<lparr>task_id = substr payload 0 separator, task_prompt = substr_from payload (Suc separator)\<rparr>
                   in if task_id task = [] then None else Some task))"

text \<open>\<open>None\<close>: the call has not returned.\<close>

definition handleClient :: "recv_result list \<Rightarrow> Task option option" where
  "handleClient rs =
     (case recv_loop rs [] of
        Waiting \<Rightarrow> None
      | Returned \<Rightarrow> Some None
      | Payload payload \<Rightarrow> Some (parse_task payload))"

section \<open>The accept loop\<close>

text \<open>One entry per iteration: what \<open>running_.load()\<close> reads at its head, and what \<open>accept\<close> gives: an
  error (with what the next \<open>running_.load()\<close> reads) or a client.\<close>

datatype accept_result = AcceptError bool | AcceptClient "recv_result list"

fun acceptLoop :: "(bool \<times> accept_result) list \<Rightarrow> Task list" where
  "acceptLoop [] = []"
| "acceptLoop ((is_running, AcceptError still_running) # es) =
     (if \<not> is_running then [] else if \<not> still_running then [] else acceptLoop es)"
| "acceptLoop ((is_running, AcceptClient rs) # es) =
     (if \<not> is_running then []
      else case handleClient rs of
             None \<Rightarrow> []
           | Some None \<Rightarrow> acceptLoop es
           | Some (Some task) \<Rightarrow> task # acceptLoop es)"

section \<open>Starting and stopping\<close>

record TcpTransport =
  tcp_port :: int
  tcp_listen_fd :: int
  tcp_running :: bool
  tcp_accepting :: bool
  tcp_bound :: "16 word option"

text \<open>The results of \<open>socket\<close>, \<open>setsockopt\<close>, \<open>bind\<close> and \<open>listen\<close>.\<close>

record listen_calls =
  rc_socket :: int
  rc_setsockopt :: int
  rc_bind :: int
  rc_listen :: int

definition TcpTransport_new :: "int \<Rightarrow> TcpTransport" where
  "TcpTransport_new port =
     \<lparr>tcp_port = port, tcp_listen_fd = -1, tcp_running = False, tcp_accepting = False, tcp_bound = None\<rparr>"

definition closeListenSocket :: "TcpTransport \<Rightarrow> TcpTransport" where
  "closeListenSocket t =
     (if tcp_listen_fd t \<ge> 0 then t\<lparr>tcp_listen_fd := -1, tcp_bound := None\<rparr> else t)"

definition TcpTransport_start :: "listen_calls \<Rightarrow> TcpTransport \<Rightarrow> bool \<times> TcpTransport" where
  "TcpTransport_start calls t =
     (if tcp_running t then (True, t)
      else
        (let t1 = t\<lparr>tcp_listen_fd := rc_socket calls\<rparr> in
         if rc_socket calls < 0 then (False, t1)
         else if rc_setsockopt calls < 0 then (False, closeListenSocket t1)
         else if rc_bind calls < 0 then (False, closeListenSocket t1)
         else
           (let t2 = t1\<lparr>tcp_bound := Some (word_of_int (tcp_port t))\<rparr> in
            if rc_listen calls < 0 then (False, closeListenSocket t2)
            else (True, t2\<lparr>tcp_running := True, tcp_accepting := True\<rparr>))))"

text \<open>\<open>stop()\<close> returns once the accept thread has ended.\<close>

definition TcpTransport_stop :: "TcpTransport \<Rightarrow> TcpTransport" where
  "TcpTransport_stop t =
     (let was_running = tcp_running t;
          t1 = t\<lparr>tcp_running := False\<rparr>;
          t2 = (if was_running \<and> tcp_listen_fd t1 \<ge> 0 then closeListenSocket t1 else t1);
          t3 = t2\<lparr>tcp_accepting := False\<rparr>
      in if \<not> was_running then closeListenSocket t3 else t3)"

section \<open>Framing\<close>

definition is_retry :: "recv_result \<Rightarrow> bool" where
  "is_retry r \<longleftrightarrow> r = RecvEINTR \<or> r = RecvEAGAIN True"

lemma find_char_first: "c \<notin> set l \<Longrightarrow> p = l @ c # rest \<Longrightarrow> find_char c p = Some (length l)"
  by (simp add: find_char_append)

text \<open>However the bytes of a line are cut into pieces and whatever interruptions come between them, the payload
  is the line.\<close>

lemma recv_loop_line:
  assumes "payload @ concat chunks = line @ NL # rest" "NL \<notin> set line" "NL \<notin> set payload"
    "[] \<notin> set chunks" "filter (\<lambda>r. \<not> is_retry r) rs = map RecvBytes chunks"
  shows "recv_loop rs payload = Payload line"
  using assms
proof (induction rs arbitrary: payload chunks)
  case Nil
  then show ?case by (metis append_Nil2 concat.simps(1) filter.simps(1) in_set_conv_decomp list.simps(8) map_is_Nil_conv)
next
  case (Cons r rs)
  show ?case
  proof (cases "is_retry r")
    case True
    then have "recv_loop (r # rs) payload = recv_loop rs payload" by (auto simp: is_retry_def)
    then show ?thesis using Cons.IH [OF Cons.prems(1-4)] Cons.prems(5) True by simp
  next
    case False
    then obtain ch chs where chs: "chunks = ch # chs" "r = RecvBytes ch" "filter (\<lambda>r. \<not> is_retry r) rs = map RecvBytes chs"
      using Cons.prems(5) by (cases chunks) auto
    have ne: "ch \<noteq> []" "[] \<notin> set chs" using Cons.prems(4) chs(1) by auto
    have cat: "(payload @ ch) @ concat chs = line @ NL # rest" using Cons.prems(1) chs(1) by simp
    show ?thesis
    proof (cases "NL \<in> set (payload @ ch)")
      case True
      then obtain a b where ab: "payload @ ch = a @ NL # b" "NL \<notin> set a" by (metis split_list_first)
      then have "a @ NL # (b @ concat chs) = line @ NL # rest" using cat by simp
      then have "a = line" using ab(2) Cons.prems(2) by (metis (no_types, lifting) append_eq_append_conv2 append_Cons
            append_self_conv find_char_first length_append option.inject append_eq_conv_conj)
      then show ?thesis using ne(1) chs(2) find_char_first [OF ab(2,1)] ab(1) by (simp add: Let_def substr_def)
    next
      case no: False
      then have "find_char NL (payload @ ch) = None" unfolding find_char_None .
      then have "recv_loop (r # rs) payload = recv_loop rs (payload @ ch)" using ne(1) chs(2) by simp
      then show ?thesis using Cons.IH [OF cat Cons.prems(2) no ne(2) chs(3)] by simp
    qed
  qed
qed

section \<open>What a client has sent\<close>

text \<open>The results of \<open>recv\<close> on the connection of a client that sends these bytes and then closes it: pieces of them in order, and the
  end of the stream only behind the last one.\<close>

fun client_sends :: "string \<Rightarrow> recv_result list \<Rightarrow> bool" where
  "client_sends bytes [] \<longleftrightarrow> True"
| "client_sends bytes (RecvBytes received # rs) \<longleftrightarrow>
     (if received = [] then bytes = []
      else starts_with received bytes \<and> client_sends (drop (length received) bytes) rs)"
| "client_sends bytes (_ # rs) \<longleftrightarrow> client_sends bytes rs"

lemma recv_loop_reads:
  assumes "client_sends bytes rs" "recv_loop rs payload = Payload raw" "NL \<notin> set payload"
  shows "raw = takeWhile (\<lambda>c. c \<noteq> NL) (payload @ bytes)"
  using assms
proof (induction rs payload arbitrary: bytes rule: recv_loop.induct)
  case (5 received rs payload)
  show ?case
  proof (cases "received = []")
    case True
    have "\<forall>c \<in> set payload. c \<noteq> NL" using "5.prems"(3) by auto
    then have all: "takeWhile (\<lambda>c. c \<noteq> NL) payload = payload" by (simp add: takeWhile_eq_all_conv)
    have "raw = payload" "bytes = []" using "5.prems" True by simp_all
    then show ?thesis using all by (simp only: append_Nil2)
  next
    case False
    then obtain rest where bytes: "bytes = received @ rest" "client_sends rest rs"
      using "5.prems"(1) by (auto simp: starts_with_conv)
    show ?thesis
    proof (cases "find_char NL (payload @ received)")
      case None
      then have "NL \<notin> set (payload @ received)" unfolding find_char_None .
      then show ?thesis using "5.IH" [OF False refl None bytes(2)] "5.prems"(2) False None bytes(1) by simp
    next
      case (Some pos)
      then obtain a b where ab: "payload @ received = a @ NL # b" "NL \<notin> set a" "pos = length a" by (rule find_char_SomeD)
      then have "raw = a" using "5.prems"(2) False Some by (simp add: Let_def substr_def)
      moreover have "payload @ bytes = a @ NL # b @ rest" using ab(1) bytes(1) by simp
      moreover have "takeWhile (\<lambda>c. c \<noteq> NL) (a @ NL # b @ rest) = a" using ab(2) by (subst takeWhile_append2) auto
      ultimately show ?thesis by simp
    qed
  qed
qed (auto split: if_splits)

lemma parse_task_line:
  assumes "ident \<noteq> []" "CHR ''|'' \<notin> set ident"
  shows "parse_task (ident @ ''|'' @ u) =
    Some \<lparr>task_id = ident, task_prompt = (if u \<noteq> [] \<and> last u = CR then butlast u else u)\<rparr>"
proof -
  have "(if ident @ ''|'' @ u \<noteq> [] \<and> last (ident @ ''|'' @ u) = CR then butlast (ident @ ''|'' @ u) else ident @ ''|'' @ u) =
      ident @ CHR ''|'' # (if u \<noteq> [] \<and> last u = CR then butlast u else u)"
    by (cases "u = []") (simp_all add: butlast_append)
  then show ?thesis
    using assms unfolding parse_task_def by (simp add: find_char_append substr_def substr_from_def)
qed

text \<open>The task the server makes of a line that may have been cut behind its first \<open>n\<close> bytes: no task, or one with the right id; and with the
  right prompt if the line is whole and the prompt fits into one.\<close>

definition line_safe :: "string \<Rightarrow> bool" where
  "line_safe prompt \<longleftrightarrow> NL \<notin> set prompt \<and> (prompt = [] \<or> last prompt \<noteq> CR)"

lemma handleClient_cut:
  assumes "ident \<noteq> []" "CHR ''|'' \<notin> set ident" "NL \<notin> set ident"
    "client_sends (take n (ident @ ''|'' @ prompt @ [NL])) rs" "handleClient rs = Some (Some task)"
  shows "task_id task = ident"
    "length ident + length prompt < n \<Longrightarrow> line_safe prompt \<Longrightarrow> task_prompt task = prompt"
proof -
  let ?raw = "takeWhile (\<lambda>c. c \<noteq> NL) (take n (ident @ ''|'' @ prompt @ [NL]))"
  obtain raw where raw: "recv_loop rs [] = Payload raw" "parse_task raw = Some task"
    using assms(5) by (auto simp: handleClient_def split: recv_outcome.splits)
  have raw_eq: "raw = ?raw" using recv_loop_reads [OF assms(4) raw(1)] by simp
  have ident: "\<forall>c \<in> set ident. c \<noteq> NL" using assms(3) by auto
  have n: "length ident < n"
  proof (rule ccontr)
    assume "\<not> length ident < n"
    then have "?raw = take n ident" using assms(3) by (auto simp: takeWhile_eq_all_conv dest: in_set_takeD)
    then have "CHR ''|'' \<notin> set raw" using raw_eq assms(2) by (auto dest: in_set_takeD)
    then have "CHR ''|'' \<notin> set (if raw \<noteq> [] \<and> last raw = CR then butlast raw else raw)" by (auto dest: in_set_butlastD)
    then show False using raw(2) by (simp add: parse_task_def Let_def find_char_None [symmetric] split: if_splits)
  qed
  define u where "u = takeWhile (\<lambda>c. c \<noteq> NL) (take (n - Suc (length ident)) (prompt @ [NL]))"
  have "take n (ident @ ''|'' @ prompt @ [NL]) = ident @ CHR ''|'' # take (n - Suc (length ident)) (prompt @ [NL])"
    using n by (cases "n - length ident") (auto simp: Suc_diff_Suc [symmetric])
  then have "raw = ident @ ''|'' @ u" using raw_eq ident by (simp add: u_def takeWhile_append2)
  then have task: "task = \<lparr>task_id = ident, task_prompt = (if u \<noteq> [] \<and> last u = CR then butlast u else u)\<rparr>"
    using parse_task_line [OF assms(1,2)] raw(2) by simp
  then show "task_id task = ident" by simp
  assume whole: "length ident + length prompt < n" and safe: "line_safe prompt"
  have "\<forall>c \<in> set prompt. c \<noteq> NL" using safe by (auto simp: line_safe_def)
  moreover have "take (n - Suc (length ident)) (prompt @ [NL]) = prompt @ take (n - Suc (length ident) - length prompt) [NL]"
    using whole by simp
  ultimately have "u = prompt"
    unfolding u_def by (cases "n - Suc (length ident) - length prompt") (simp_all add: takeWhile_append2 takeWhile_eq_all_conv)
  then show "task_prompt task = prompt" using task safe by (auto simp: line_safe_def)
qed

section \<open>Properties\<close>

lemma handleClient_line:
  assumes "ident \<noteq> []" "CHR ''|'' \<notin> set ident" "NL \<notin> set ident" "NL \<notin> set prompt"
    "prompt = [] \<or> last prompt \<noteq> CR" "eol = [] \<or> eol = [CR]"
    "concat chunks = ident @ ''|'' @ prompt @ eol @ [NL] @ rest" "[] \<notin> set chunks"
    "filter (\<lambda>r. \<not> is_retry r) rs = map RecvBytes chunks"
  shows "handleClient rs = Some (Some \<lparr>task_id = ident, task_prompt = prompt\<rparr>)"
proof -
  let ?line = "ident @ ''|'' @ prompt"
  have "recv_loop rs [] = Payload (?line @ eol)"
    by (rule recv_loop_line [where chunks = chunks and rest = rest]) (use assms(3,4,6-9) in auto)
  moreover have "parse_task (?line @ eol) = Some \<lparr>task_id = ident, task_prompt = prompt\<rparr>"
  proof -
    have strip: "(if ?line @ eol \<noteq> [] \<and> last (?line @ eol) = CR then butlast (?line @ eol) else ?line @ eol) = ?line"
      using assms(5,6) by (auto simp: butlast_append)
    have sep: "find_char (CHR ''|'') ?line = Some (length ident)" by (rule find_char_first [OF assms(2)]) simp
    show ?thesis
      unfolding parse_task_def Let_def strip sep option.case
      using assms(1) by (simp add: substr_def substr_from_def)
  qed
  ultimately show ?thesis by (simp add: handleClient_def)
qed

text \<open>
  Framing does not depend on the network: a line \<open>id|prompt\<close>, ended by a newline or by CR LF, is passed to the
  handler as exactly that task, however its bytes are split over \<open>recv\<close> calls and however often the
  calls are interrupted or time out in between; bytes after the newline are ignored.
\<close>

theorem task_framing_independent_of_chunks:
  assumes "ident \<noteq> []" "CHR ''|'' \<notin> set ident" "NL \<notin> set ident" "NL \<notin> set prompt"
    "prompt = [] \<or> last prompt \<noteq> CR" "eol = [] \<or> eol = [CR]"
    "concat chunks = ident @ ''|'' @ prompt @ eol @ [NL] @ rest" "[] \<notin> set chunks"
    "filter (\<lambda>r. \<not> is_retry r) rs = map RecvBytes chunks"
  shows "handleClient rs = Some (Some \<lparr>task_id = ident, task_prompt = prompt\<rparr>)"
  by (rule handleClient_line [OF assms])

theorem task_framing_independent_of_chunks_witness:
  "handleClient [RecvEINTR, RecvBytes ''t1'', RecvEAGAIN True, RecvBytes ''|hel'', RecvBytes (''lo'' @ [CR, NL] @ ''junk'')] =
   Some (Some \<lparr>task_id = ''t1'', task_prompt = ''hello''\<rparr>)"
  by (rule task_framing_independent_of_chunks [where eol = "[CR]" and rest = "''junk''"
        and chunks = "[''t1'', ''|hel'', ''lo'' @ [CR, NL] @ ''junk'']"]) (simp_all add: is_retry_def)

text \<open>
  One client can hold the server: while a connected client sends nothing, the server thread stays in its receive
  loop however often the receive times out, and no other client is served.
\<close>

theorem idle_client_blocks_server:
  "acceptLoop ((True, AcceptClient (replicate n (RecvEAGAIN True))) # others) = []"
proof -
  have "recv_loop (replicate n (RecvEAGAIN True)) payload = Waiting" for payload
    by (induction n) simp_all
  then show ?thesis by (simp add: handleClient_def)
qed

text \<open>
  The server starts completely or not at all: \<open>start\<close> returns true exactly when every socket call succeeds, and
  then it is bound to the configured port modulo \<open>2 ^ 16\<close>; otherwise nothing stays open or
  running. \<open>stop\<close> undoes it, and stopping twice is stopping once.
\<close>

theorem tcp_start_all_or_nothing:
  assumes "TcpTransport_start calls (TcpTransport_new port) = (ok, t)"
  shows "(ok \<longleftrightarrow> 0 \<le> rc_socket calls \<and> 0 \<le> rc_setsockopt calls \<and> 0 \<le> rc_bind calls \<and> 0 \<le> rc_listen calls) \<and>
    (ok \<longrightarrow> tcp_running t \<and> tcp_accepting t \<and> tcp_bound t = Some (word_of_int port)) \<and>
    (\<not> ok \<longrightarrow> \<not> tcp_running t \<and> \<not> tcp_accepting t \<and> tcp_listen_fd t < 0 \<and> tcp_bound t = None) \<and>
    \<not> tcp_running (TcpTransport_stop t) \<and> \<not> tcp_accepting (TcpTransport_stop t) \<and>
    tcp_bound (TcpTransport_stop t) = None \<and> TcpTransport_stop (TcpTransport_stop t) = TcpTransport_stop t"
  using assms
  by (auto simp: TcpTransport_start_def TcpTransport_new_def TcpTransport_stop_def closeListenSocket_def Let_def
      split: if_splits)

theorem tcp_start_all_or_nothing_witness:
  "tcp_bound (snd (TcpTransport_start \<lparr>rc_socket = 3, rc_setsockopt = 0, rc_bind = 0, rc_listen = 0\<rparr>
     (TcpTransport_new 70000))) = Some 4464"
proof -
  obtain ok t where run: "TcpTransport_start \<lparr>rc_socket = 3, rc_setsockopt = 0, rc_bind = 0, rc_listen = 0\<rparr>
     (TcpTransport_new 70000) = (ok, t)" by (metis surj_pair)
  have "tcp_bound t = Some (word_of_int 70000)" using tcp_start_all_or_nothing [OF run] by simp
  moreover have "(word_of_int 70000 :: 16 word) = 4464" by simp
  ultimately show ?thesis using run by simp
qed

end
