(* ===== verification/Worker_Config.thy ===== *)
theory Worker_Config
  imports Rdma_Prelude
begin

text \<open>
  The worker's configuration file: \<open>trim\<close>, \<open>parseInt\<close> and \<open>WorkerNode::loadConfig\<close> of
  \<open>worker/src/worker_node.cpp\<close>. \<open>int\<close> is a 32-bit signed integer; values are \<open>int\<close>s of HOL
  and \<open>std::stoi\<close> rejects what does not fit. A failed load is the message the code logs.
\<close>

section \<open>trim\<close>

definition trim_ws :: "char set" where
  "trim_ws = {CHR '' '', CHR 0x09, CR, NL}"

text \<open>\<open>find_first_not_of\<close> and \<open>find_last_not_of\<close> with that character set.\<close>

fun find_first_not_of :: "char set \<Rightarrow> string \<Rightarrow> nat option" where
  "find_first_not_of ws [] = None"
| "find_first_not_of ws (c # s) =
     (if c \<notin> ws then Some 0 else map_option Suc (find_first_not_of ws s))"

definition find_last_not_of :: "char set \<Rightarrow> string \<Rightarrow> nat option" where
  "find_last_not_of ws s =
     map_option (\<lambda>i. length s - Suc i) (find_first_not_of ws (rev s))"

definition trim :: "string \<Rightarrow> string" where
  "trim value =
     (case find_first_not_of trim_ws value of
        None \<Rightarrow> []
      | Some begin_pos \<Rightarrow>
          (case find_last_not_of trim_ws value of
             None \<Rightarrow> []
           | Some end_pos \<Rightarrow> substr value begin_pos (end_pos - begin_pos + 1)))"

section \<open>parseInt\<close>

text \<open>\<open>std::isspace\<close> in the default locale.\<close>

definition is_space :: "char \<Rightarrow> bool" where
  "is_space c \<longleftrightarrow> c \<in> {CHR '' '', CHR 0x09, NL, CHR 0x0B, CHR 0x0C, CR}"

text \<open>\<open>std::stoi(text, &index)\<close>: the value and the number of characters used, or the
  exception (\<open>None\<close>) when there is no number or it does not fit into \<open>int\<close>.\<close>

definition stoi :: "string \<Rightarrow> (int \<times> nat) option" where
  "stoi text =
     (let rest = dropWhile is_space text;
          negative = (rest \<noteq> [] \<and> hd rest = CHR ''-'');
          signed_rest = (if rest \<noteq> [] \<and> (hd rest = CHR ''-'' \<or> hd rest = CHR ''+'') then tl rest else rest);
          digits = takeWhile is_digit signed_rest;
          value = (if negative then - int (dec_value digits) else int (dec_value digits))
      in if digits = [] then None
         else if value < - (2 ^ 31) \<or> 2 ^ 31 - 1 < value then None
         else Some (value, length text - length signed_rest + length digits))"

definition parseInt :: "string \<Rightarrow> int option" where
  "parseInt text =
     (case stoi text of
        None \<Rightarrow> None
      | Some (parsed, index) \<Rightarrow> if index \<noteq> length text then None else Some parsed)"

section \<open>loadConfig\<close>

record WorkerConfig =
  worker_id :: string
  listen_port :: int
  scheduler_addr :: string
  heartbeat_interval :: int
  threads :: int

definition WorkerConfig_default :: WorkerConfig where
  "WorkerConfig_default =
     \<lparr>worker_id = ''worker-1'', listen_port = 9001, scheduler_addr = ''127.0.0.1:8080'',
      heartbeat_interval = 5, threads = 4\<rparr>"

text \<open>The body of the \<open>getline\<close> loop.\<close>

definition config_line :: "string \<Rightarrow> WorkerConfig \<Rightarrow> string + WorkerConfig" where
  "config_line raw loaded =
     (let uncommented = (case find_char (CHR ''#'') raw of None \<Rightarrow> raw | Some pos \<Rightarrow> substr raw 0 pos);
          line = trim uncommented
      in if line = [] then Inr loaded
         else case find_char (CHR '':'') line of
                None \<Rightarrow> Inl (''invalid config line: '' @ line)
              | Some separator \<Rightarrow>
                  (let key = trim (substr line 0 separator);
                       value = trim (substr_from line (Suc separator))
                   in if key = ''worker_id'' then Inr (loaded\<lparr>worker_id := value\<rparr>)
                      else if key = ''listen_port'' then
                        (case parseInt value of
                           None \<Rightarrow> Inl (''invalid listen_port: '' @ value)
                         | Some v \<Rightarrow> Inr (loaded\<lparr>listen_port := v\<rparr>))
                      else if key = ''scheduler_addr'' then Inr (loaded\<lparr>scheduler_addr := value\<rparr>)
                      else if key = ''heartbeat_interval'' then
                        (case parseInt value of
                           None \<Rightarrow> Inl (''invalid heartbeat_interval: '' @ value)
                         | Some v \<Rightarrow> Inr (loaded\<lparr>heartbeat_interval := v\<rparr>))
                      else if key = ''threads'' then
                        (case parseInt value of
                           None \<Rightarrow> Inl (''invalid threads: '' @ value)
                         | Some v \<Rightarrow> Inr (loaded\<lparr>threads := v\<rparr>))
                      else Inr loaded))"

fun config_lines :: "string list \<Rightarrow> WorkerConfig \<Rightarrow> string + WorkerConfig" where
  "config_lines [] loaded = Inr loaded"
| "config_lines (line # lines) loaded =
     (case config_line line loaded of Inl e \<Rightarrow> Inl e | Inr loaded1 \<Rightarrow> config_lines lines loaded1)"

definition check_config :: "WorkerConfig \<Rightarrow> string + WorkerConfig" where
  "check_config loaded =
     (if worker_id loaded = [] then Inl ''config worker_id is empty''
      else if listen_port loaded \<le> 0 then Inl ''config listen_port must be greater than zero''
      else if scheduler_addr loaded = [] then Inl ''config scheduler_addr is empty''
      else if heartbeat_interval loaded \<le> 0 then Inl ''config heartbeat_interval must be greater than zero''
      else if threads loaded \<le> 0 then Inl ''config threads must be greater than zero''
      else Inr loaded)"

text \<open>\<open>loadConfig()\<close> on the current configuration and the contents of the file
  (\<open>None\<close>: it can not be opened). \<open>Inr\<close> is the new value of \<open>config_\<close>; on \<open>Inl\<close> it keeps
  its old value.\<close>

definition loadConfig :: "string \<Rightarrow> string option \<Rightarrow> WorkerConfig \<Rightarrow> string + WorkerConfig" where
  "loadConfig config_path contents config =
     (case contents of
        None \<Rightarrow> Inl (''open config failed: '' @ config_path)
      | Some text \<Rightarrow>
          (case config_lines (getlines text) config of
             Inl e \<Rightarrow> Inl e
           | Inr loaded \<Rightarrow> check_config loaded))"

section \<open>Lemmas\<close>

lemma find_first_not_of_append:
  "set ws \<subseteq> W \<Longrightarrow> c \<notin> W \<Longrightarrow> find_first_not_of W (ws @ c # s) = Some (length ws)"
  by (induction ws) auto

lemma find_first_not_of_None: "find_first_not_of W s = None \<longleftrightarrow> set s \<subseteq> W"
  by (induction s) auto

text \<open>A string that neither starts nor ends with a blank, and is not empty.\<close>

definition plain :: "string \<Rightarrow> bool" where
  "plain s \<longleftrightarrow> s \<noteq> [] \<and> hd s \<notin> trim_ws \<and> last s \<notin> trim_ws"

lemma trim_plain:
  assumes "plain s" "set pre \<subseteq> trim_ws" "set post \<subseteq> trim_ws"
  shows "trim (pre @ s @ post) = s"
proof -
  obtain c r where c: "s = c # r" "c \<notin> trim_ws" using assms(1) by (cases s) (auto simp: plain_def)
  obtain i d where d: "s = i @ [d]" "d \<notin> trim_ws"
    using assms(1) by (cases s rule: rev_cases) (auto simp: plain_def)
  have "find_first_not_of trim_ws (pre @ s @ post) = Some (length pre)"
    using find_first_not_of_append [OF assms(2) c(2)] c(1) by simp
  moreover have "find_first_not_of trim_ws (rev (pre @ s @ post)) = Some (length post)"
    using find_first_not_of_append [of "rev post" trim_ws d "rev (pre @ i)"] assms(3) d by simp
  moreover have "length s = Suc (length i)" using d(1) by simp
  ultimately show ?thesis
    by (simp add: trim_def find_last_not_of_def substr_def)
qed

lemma trim_id: "plain s \<Longrightarrow> trim s = s"
  using trim_plain [of s "[]" "[]"] by simp

lemma trim_Nil [simp]: "trim [] = []"
  by (simp add: trim_def)

lemma stoi_bounds: "stoi s = Some (v, i) \<Longrightarrow> - (2 ^ 31) \<le> v \<and> v \<le> 2 ^ 31 - 1"
  by (auto simp: stoi_def Let_def split: if_splits)

lemma parseInt_bounds: "parseInt s = Some v \<Longrightarrow> - (2 ^ 31) \<le> v \<and> v \<le> 2 ^ 31 - 1"
  by (auto simp: parseInt_def dest: stoi_bounds split: option.splits if_splits)

lemma digit_not_space: "is_digit c \<Longrightarrow> \<not> is_space c \<and> c \<noteq> CHR ''-'' \<and> c \<noteq> CHR ''+'' \<and> c \<notin> trim_ws
    \<and> c \<noteq> CHR ''#'' \<and> c \<noteq> CHR '':''"
  by (auto simp: is_digit_def is_space_def trim_ws_def)

lemma stoi_digits:
  assumes "ds \<noteq> []" "\<forall>x \<in> set ds. is_digit x" "dec_value ds < 2 ^ 31"
  shows "stoi ds = Some (int (dec_value ds), length ds)"
proof -
  have c: "\<not> is_space (hd ds)" "hd ds \<noteq> CHR ''-''" "hd ds \<noteq> CHR ''+''"
    using assms(1,2) digit_not_space by (meson hd_in_set)+
  have drop: "dropWhile is_space ds = ds" using assms(1) c(1) by (cases ds) auto
  have take: "takeWhile is_digit ds = ds" using assms(2) by (simp add: takeWhile_eq_all_conv)
  have "int (dec_value ds) \<le> 2 ^ 31 - 1" using assms(3) by simp
  then show ?thesis unfolding stoi_def Let_def drop using assms(1) c(2,3) by (simp add: take)
qed

lemma parseInt_to_string: "n < 2 ^ 31 \<Longrightarrow> parseInt (to_string n) = Some (int n)"
  using stoi_digits [of "to_string n"] to_string_digits [of n] by (simp add: parseInt_def)

text \<open>A line \<open>key: value\<close> of a well-formed file.\<close>

lemma config_line_pair:
  assumes "plain k" "plain v" "CHR ''#'' \<notin> set k" "CHR ''#'' \<notin> set v" "CHR '':'' \<notin> set k"
  shows "config_line (k @ '': '' @ v) loaded =
    (if k = ''worker_id'' then Inr (loaded\<lparr>worker_id := v\<rparr>)
     else if k = ''listen_port'' then
       (case parseInt v of None \<Rightarrow> Inl (''invalid listen_port: '' @ v) | Some n \<Rightarrow> Inr (loaded\<lparr>listen_port := n\<rparr>))
     else if k = ''scheduler_addr'' then Inr (loaded\<lparr>scheduler_addr := v\<rparr>)
     else if k = ''heartbeat_interval'' then
       (case parseInt v of None \<Rightarrow> Inl (''invalid heartbeat_interval: '' @ v)
        | Some n \<Rightarrow> Inr (loaded\<lparr>heartbeat_interval := n\<rparr>))
     else if k = ''threads'' then
       (case parseInt v of None \<Rightarrow> Inl (''invalid threads: '' @ v) | Some n \<Rightarrow> Inr (loaded\<lparr>threads := n\<rparr>))
     else Inr loaded)"
proof -
  let ?l = "k @ '': '' @ v"
  have "plain ?l" using assms(1,2) by (auto simp: plain_def)
  then have l: "trim ?l = ?l" "?l \<noteq> []" by (simp_all only: trim_id) (simp add: plain_def)
  have "CHR ''#'' \<notin> set ?l" using assms(3,4) by simp
  then have none: "find_char (CHR ''#'') ?l = None" unfolding find_char_None .
  have sep: "find_char (CHR '':'') ?l = Some (length k)"
    using find_char_append [OF assms(5), of "'' '' @ v"] by simp
  have key: "trim (substr ?l 0 (length k)) = k" using trim_id [OF assms(1)] by (simp add: substr_def)
  have val: "trim (substr_from ?l (Suc (length k))) = v"
    using trim_plain [OF assms(2), of "'' ''" "[]"] by (simp add: substr_from_def trim_ws_def)
  show ?thesis
    unfolding config_line_def Let_def none option.case l(1) sep key val using l(2) by simp
qed

lemma plain_to_string: "plain (to_string n)"
proof -
  have "hd (to_string n) \<notin> trim_ws" "last (to_string n) \<notin> trim_ws"
    using to_string_digits [of n] digit_not_space by (meson hd_in_set last_in_set to_string_not_Nil)+
  then show ?thesis by (simp add: plain_def)
qed

lemma to_string_no_hash: "CHR ''#'' \<notin> set (to_string n)" "NL \<notin> set (to_string n)"
proof -
  have "\<not> is_digit (CHR ''#'')" "\<not> is_digit NL" by (simp_all add: is_digit_def)
  then show "CHR ''#'' \<notin> set (to_string n)" "NL \<notin> set (to_string n)" using to_string_digits [of n] by blast+
qed

section \<open>Properties\<close>

text \<open>A configuration file with the five settings.\<close>

definition render_config :: "WorkerConfig \<Rightarrow> string list" where
  "render_config c =
     [''worker_id'' @ '': '' @ worker_id c,
      ''listen_port'' @ '': '' @ to_string (nat (listen_port c)),
      ''scheduler_addr'' @ '': '' @ scheduler_addr c,
      ''heartbeat_interval'' @ '': '' @ to_string (nat (heartbeat_interval c)),
      ''threads'' @ '': '' @ to_string (nat (threads c))]"

definition config_ok :: "WorkerConfig \<Rightarrow> bool" where
  "config_ok c \<longleftrightarrow> worker_id c \<noteq> [] \<and> scheduler_addr c \<noteq> [] \<and>
     0 < listen_port c \<and> listen_port c < 2 ^ 31 \<and> 0 < heartbeat_interval c \<and> heartbeat_interval c < 2 ^ 31 \<and>
     0 < threads c \<and> threads c < 2 ^ 31"

text \<open>
  What is written into the configuration file is what the worker runs with: loading a file that lists
  a valid configuration (names without blanks at their ends, newlines or \<open>#\<close>) gives exactly that
  configuration, whatever the current one is.
\<close>

theorem load_config_roundtrip:
  assumes "config_ok c" "plain (worker_id c)" "plain (scheduler_addr c)"
    "NL \<notin> set (worker_id c)" "NL \<notin> set (scheduler_addr c)"
    "CHR ''#'' \<notin> set (worker_id c)" "CHR ''#'' \<notin> set (scheduler_addr c)"
  shows "loadConfig path (Some (concat (map (\<lambda>l. l @ [NL]) (render_config c)))) current = Inr c"
proof -
  have keys: "plain ''worker_id''" "plain ''listen_port''" "plain ''scheduler_addr''" "plain ''heartbeat_interval''"
    "plain ''threads''" by (simp_all add: plain_def trim_ws_def)
  have lines: "getlines (concat (map (\<lambda>l. l @ [NL]) (render_config c))) = render_config c"
    by (rule getlines_concat) (use assms(4,5) to_string_no_hash(2) in \<open>auto simp: render_config_def\<close>)
  have nums: "parseInt (to_string (nat n)) = Some n" if "0 < n" "n < 2 ^ 31" for n
    using parseInt_to_string [of "nat n"] that by simp
  have l: "config_line (''worker_id'' @ '': '' @ worker_id c) x = Inr (x\<lparr>worker_id := worker_id c\<rparr>)"
    "config_line (''listen_port'' @ '': '' @ to_string (nat (listen_port c))) x = Inr (x\<lparr>listen_port := listen_port c\<rparr>)"
    "config_line (''scheduler_addr'' @ '': '' @ scheduler_addr c) x = Inr (x\<lparr>scheduler_addr := scheduler_addr c\<rparr>)"
    "config_line (''heartbeat_interval'' @ '': '' @ to_string (nat (heartbeat_interval c))) x =
       Inr (x\<lparr>heartbeat_interval := heartbeat_interval c\<rparr>)"
    "config_line (''threads'' @ '': '' @ to_string (nat (threads c))) x = Inr (x\<lparr>threads := threads c\<rparr>)" for x
  proof -
    have n: "parseInt (to_string (nat (listen_port c))) = Some (listen_port c)"
      "parseInt (to_string (nat (heartbeat_interval c))) = Some (heartbeat_interval c)"
      "parseInt (to_string (nat (threads c))) = Some (threads c)"
      using assms(1) by (simp_all add: nums config_ok_def)
    show "config_line (''worker_id'' @ '': '' @ worker_id c) x = Inr (x\<lparr>worker_id := worker_id c\<rparr>)"
      by (subst config_line_pair [OF keys(1) assms(2)]) (simp_all add: assms(6))
    show "config_line (''listen_port'' @ '': '' @ to_string (nat (listen_port c))) x = Inr (x\<lparr>listen_port := listen_port c\<rparr>)"
      by (subst config_line_pair [OF keys(2) plain_to_string]) (simp_all add: to_string_no_hash n)
    show "config_line (''scheduler_addr'' @ '': '' @ scheduler_addr c) x = Inr (x\<lparr>scheduler_addr := scheduler_addr c\<rparr>)"
      by (subst config_line_pair [OF keys(3) assms(3)]) (simp_all add: assms(7))
    show "config_line (''heartbeat_interval'' @ '': '' @ to_string (nat (heartbeat_interval c))) x =
       Inr (x\<lparr>heartbeat_interval := heartbeat_interval c\<rparr>)"
      by (subst config_line_pair [OF keys(4) plain_to_string]) (simp_all add: to_string_no_hash n)
    show "config_line (''threads'' @ '': '' @ to_string (nat (threads c))) x = Inr (x\<lparr>threads := threads c\<rparr>)"
      by (subst config_line_pair [OF keys(5) plain_to_string]) (simp_all add: to_string_no_hash n)
  qed
  have "config_lines (render_config c) current = Inr c"
    unfolding render_config_def config_lines.simps l sum.case by simp
  then show ?thesis
    using assms(1) by (simp add: loadConfig_def lines check_config_def config_ok_def)
qed

text \<open>The shipped \<open>worker/config/worker.yaml\<close>.\<close>

definition worker_yaml :: string where
  "worker_yaml =
     ''worker_id: worker-1'' @ [NL] @ ''listen_port: 9001'' @ [NL] @ ''scheduler_addr: 127.0.0.1:8080'' @ [NL] @
     ''heartbeat_interval: 5'' @ [NL] @ ''threads: 4'' @ [NL]"

lemma worker_yaml_rendered: "worker_yaml = concat (map (\<lambda>l. l @ [NL]) (render_config WorkerConfig_default))"
proof -
  have "to_string 9001 = ''9001''" "to_string 5 = ''5''" "to_string 4 = ''4''"
    by (simp_all add: to_string.simps digit_chars)
  then show ?thesis by (simp add: worker_yaml_def render_config_def WorkerConfig_default_def)
qed

theorem load_config_roundtrip_witness:
  "loadConfig ''config/worker.yaml'' (Some worker_yaml)
     (WorkerConfig_default\<lparr>worker_id := ''other'', threads := 1\<rparr>) = Inr WorkerConfig_default"
  unfolding worker_yaml_rendered
  by (rule load_config_roundtrip) (simp_all add: config_ok_def WorkerConfig_default_def plain_def trim_ws_def)

definition ints_fit :: "WorkerConfig \<Rightarrow> bool" where
  "ints_fit c \<longleftrightarrow> listen_port c < 2 ^ 31 \<and> heartbeat_interval c < 2 ^ 31 \<and> threads c < 2 ^ 31"

lemma config_line_fit:
  assumes "config_line l a = Inr b" "ints_fit a"
  shows "ints_fit b"
  using assms parseInt_bounds
  by (force simp: config_line_def Let_def ints_fit_def split: option.splits if_splits)

lemma config_lines_fit: "config_lines ls a = Inr b \<Longrightarrow> ints_fit a \<Longrightarrow> ints_fit b"
proof (induction ls arbitrary: a)
  case (Cons l ls)
  obtain a1 where "config_line l a = Inr a1" "config_lines ls a1 = Inr b"
    using Cons.prems(1) by (auto split: sum.splits)
  with Cons.IH config_line_fit Cons.prems(2) show ?case by blast
qed simp

text \<open>
  No file makes the worker run with an invalid configuration: whatever the contents, if loading succeeds
  the names are not empty and the port, the heartbeat interval and the thread count are positive
  \<open>int\<close>s. (The port is not checked against 65535.)
\<close>

theorem loaded_config_is_valid:
  assumes "loadConfig path contents current = Inr c" "ints_fit current"
  shows "config_ok c"
proof -
  obtain txt0 loaded where "contents = Some txt0" "config_lines (getlines txt0) current = Inr loaded"
    "check_config loaded = Inr c"
    using assms(1) by (auto simp: loadConfig_def split: option.splits sum.splits)
  moreover from this have "ints_fit loaded" using config_lines_fit assms(2) by blast
  ultimately show ?thesis
    by (auto simp: check_config_def config_ok_def ints_fit_def split: if_splits)
qed

theorem loaded_config_is_valid_witness: "config_ok WorkerConfig_default"
proof (rule loaded_config_is_valid)
  show "loadConfig ''config/worker.yaml'' (Some []) WorkerConfig_default = Inr WorkerConfig_default"
    by (simp add: loadConfig_def check_config_def WorkerConfig_default_def)
  show "ints_fit WorkerConfig_default" by (simp add: ints_fit_def WorkerConfig_default_def)
qed

end
