(* ===== verification/Worker_Scheduler_Client.thy ===== *)
theory Worker_Scheduler_Client
  imports Worker_Tcp Worker_Config
begin

text \<open>
  The worker's HTTP client of \<open>worker/src/scheduler_client.cpp\<close>: JSON escaping, the address parser, the three
  requests and \<open>postJSON\<close>. The resolver and the socket calls are the operating system's; the record
  \<open>http_os\<close> holds their results, one per call in the order of the calls. Log lines are left out.
\<close>

section \<open>JSON strings\<close>

definition escape_char :: "char \<Rightarrow> string" where
  "escape_char ch =
     (if ch = BSLASH then [BSLASH, BSLASH]
      else if ch = QUOTE then [BSLASH, QUOTE]
      else if ch = NL then [BSLASH, CHR ''n'']
      else if ch = CR then [BSLASH, CHR ''r'']
      else if ch = TAB then [BSLASH, CHR ''t'']
      else [ch])"

definition escapeJSONString :: "string \<Rightarrow> string" where
  "escapeJSONString input = concat (map escape_char input)"

section \<open>Addresses\<close>

text \<open>\<open>s.rfind(c)\<close>.\<close>

definition rfind_char :: "char \<Rightarrow> string \<Rightarrow> nat option" where
  "rfind_char c s = map_option (\<lambda>i. length s - Suc i) (find_char c (rev s))"

definition splitHostPort :: "string \<Rightarrow> (string \<times> string) option" where
  "splitHostPort address =
     (let without_scheme = (if starts_with ''http://'' address then drop (length ''http://'') address else address);
          normalized = (case find_char (CHR ''/'') without_scheme of
                          None \<Rightarrow> without_scheme
                        | Some slash \<Rightarrow> substr without_scheme 0 slash)
      in case rfind_char (CHR '':'') normalized of
           None \<Rightarrow> None
         | Some separator \<Rightarrow>
             if separator = 0 \<or> separator = length normalized - 1 then None
             else Some (substr normalized 0 separator, substr_from normalized (Suc separator)))"

section \<open>postJSON\<close>

text \<open>Per resolved address the results of \<open>socket\<close> and \<open>connect\<close>; then those of \<open>send\<close> and \<open>recv\<close>.\<close>

record http_os =
  os_resolve :: "string \<Rightarrow> string \<Rightarrow> (int \<times> int) list option"
  os_sends :: "int list"
  os_recvs :: "recv_result list"

fun connect_loop :: "(int \<times> int) list \<Rightarrow> int \<Rightarrow> int" where
  "connect_loop [] socket_fd = socket_fd"
| "connect_loop ((fd, connected) # others) socket_fd =
     (if fd < 0 then connect_loop others fd
      else if connected = 0 then fd
      else connect_loop others (-1))"

definition http_request :: "string \<Rightarrow> string \<Rightarrow> string \<Rightarrow> string \<Rightarrow> string" where
  "http_request path host port body =
     ''POST '' @ path @ '' HTTP/1.1'' @ [CR, NL] @
     ''Host: '' @ host @ '':'' @ port @ [CR, NL] @
     ''Content-Type: application/json'' @ [CR, NL] @
     ''Connection: close'' @ [CR, NL] @
     ''Content-Length: '' @ to_string (length body) @ [CR, NL, CR, NL] @ body"

text \<open>The send loop on what is still to be sent: what went out, and whether the loop ended (\<open>Some True\<close>: all sent,
  \<open>Some False\<close>: an error, \<open>None\<close>: a call has not returned).\<close>

fun send_loop :: "int list \<Rightarrow> string \<Rightarrow> string \<times> bool option" where
  "send_loop rcs [] = ([], Some True)"
| "send_loop [] rest = ([], None)"
| "send_loop (written # rcs) rest =
     (if written < 0 then ([], Some False)
      else case send_loop rcs (drop (nat written) rest) of
             (wire, done) \<Rightarrow> (take (nat written) rest @ wire, done))"

fun response_loop :: "recv_result list \<Rightarrow> string \<Rightarrow> recv_outcome" where
  "response_loop [] response = Waiting"
| "response_loop (RecvEINTR # rs) response = response_loop rs response"
| "response_loop (RecvEAGAIN _ # rs) response = Returned"
| "response_loop (RecvError # rs) response = Returned"
| "response_loop (RecvBytes received # rs) response =
     (if received = [] then Payload response else response_loop rs (response @ received))"

text \<open>\<open>response.find("\r\n")\<close>.\<close>

fun find_crlf :: "string \<Rightarrow> nat option" where
  "find_crlf (a # b # s) = (if a = CR \<and> b = NL then Some 0 else map_option Suc (find_crlf (b # s)))"
| "find_crlf _ = None"

text \<open>\<open>stream >> status_code\<close> for an \<open>int\<close> that holds -1: the value afterwards. An exhausted stream leaves it
  alone, text that is no number makes it 0, a number too large the largest \<open>int\<close>.\<close>

definition extract_int :: "string \<Rightarrow> int" where
  "extract_int s =
     (let rest = dropWhile is_space s;
          negative = (rest \<noteq> [] \<and> hd rest = CHR ''-'');
          signed_rest = (if rest \<noteq> [] \<and> (hd rest = CHR ''-'' \<or> hd rest = CHR ''+'') then tl rest else rest);
          digits = takeWhile is_digit signed_rest;
          value = (if negative then - int (dec_value digits) else int (dec_value digits))
      in if rest = [] then -1
         else if digits = [] then 0
         else max (- (2 ^ 31)) (min (2 ^ 31 - 1) value))"

definition status_of_line :: "string \<Rightarrow> int" where
  "status_of_line line =
     (let start = dropWhile is_space line
      in if start = [] then -1 else extract_int (dropWhile (\<lambda>c. \<not> is_space c) start))"

definition response_status :: "string \<Rightarrow> int" where
  "response_status response =
     (case find_crlf response of None \<Rightarrow> -1 | Some line_end \<Rightarrow> status_of_line (substr response 0 line_end))"

record SchedulerClient =
  sc_scheduler_addr :: string
  sc_worker_id :: string

definition SchedulerClient_configure :: "string \<Rightarrow> string \<Rightarrow> SchedulerClient \<Rightarrow> SchedulerClient" where
  "SchedulerClient_configure addr ident c = c\<lparr>sc_scheduler_addr := addr, sc_worker_id := ident\<rparr>"

text \<open>\<open>postJSON\<close>: the bytes that went out, and the status it returns (\<open>None\<close>: it has not returned).\<close>

definition SchedulerClient_postJSON ::
    "http_os \<Rightarrow> string \<Rightarrow> string \<Rightarrow> SchedulerClient \<Rightarrow> string \<times> int option" where
  "SchedulerClient_postJSON os path body c =
     (case splitHostPort (sc_scheduler_addr c) of
        None \<Rightarrow> ([], Some (-1))
      | Some (host, port) \<Rightarrow>
          (case os_resolve os host port of
             None \<Rightarrow> ([], Some (-1))
           | Some results \<Rightarrow>
               if connect_loop results (-1) < 0 then ([], Some (-1))
               else case send_loop (os_sends os) (http_request path host port body) of
                      (wire, None) \<Rightarrow> (wire, None)
                    | (wire, Some False) \<Rightarrow> (wire, Some (-1))
                    | (wire, Some True) \<Rightarrow>
                        (wire,
                         case response_loop (os_recvs os) [] of
                           Waiting \<Rightarrow> None
                         | Returned \<Rightarrow> Some (-1)
                         | Payload response \<Rightarrow> Some (response_status response))))"

section \<open>The three requests\<close>

definition int_text :: "int \<Rightarrow> string" where
  "int_text n = (if n < 0 then ''-'' @ to_string (nat (- n)) else to_string (nat n))"

abbreviation quoted :: "string \<Rightarrow> string" where
  "quoted s \<equiv> [QUOTE] @ s @ [QUOTE]"

definition register_body :: "string \<Rightarrow> string \<Rightarrow> int \<Rightarrow> string" where
  "register_body ident address capacity =
     ''{'' @ quoted ''id'' @ '':'' @ quoted (escapeJSONString ident) @ '','' @
     quoted ''address'' @ '':'' @ quoted (escapeJSONString address) @ '','' @
     quoted ''capacity'' @ '':'' @ int_text capacity @ ''}''"

text \<open>The loop over the active task ids, with its separators.\<close>

fun id_list :: "string list \<Rightarrow> string" where
  "id_list [] = []"
| "id_list [x] = quoted (escapeJSONString x)"
| "id_list (x # xs) = quoted (escapeJSONString x) @ '','' @ id_list xs"

definition heartbeat_body :: "string \<Rightarrow> int \<Rightarrow> string list \<Rightarrow> string" where
  "heartbeat_body ident running_tasks active_task_ids =
     ''{'' @ quoted ''id'' @ '':'' @ quoted (escapeJSONString ident) @ '','' @
     quoted ''running_tasks'' @ '':'' @ int_text running_tasks @ '','' @
     quoted ''status'' @ '':'' @ quoted (if running_tasks > 0 then ''busy'' else ''ready'') @
     (if active_task_ids \<noteq> []
      then '','' @ quoted ''active_task_ids'' @ '':['' @ id_list active_task_ids @ '']'' else []) @ ''}''"

definition result_body :: "TaskResult \<Rightarrow> string" where
  "result_body result =
     ''{'' @ quoted ''success'' @ '':'' @ (if result_success result then ''true'' else ''false'') @ '','' @
     quoted ''message'' @ '':'' @ quoted (escapeJSONString (result_output result)) @ ''}''"

text \<open>Each returns what was sent, and its result (\<open>None\<close>: it has not returned).\<close>

definition SchedulerClient_registerWorker ::
    "http_os \<Rightarrow> string \<Rightarrow> int \<Rightarrow> SchedulerClient \<Rightarrow> string \<times> bool option" where
  "SchedulerClient_registerWorker os worker_address capacity c =
     (if sc_worker_id c = [] then ([], Some False)
      else case SchedulerClient_postJSON os ''/workers/register''
                  (register_body (sc_worker_id c) worker_address capacity) c of
             (wire, status) \<Rightarrow> (wire, map_option (\<lambda>s. s = 201) status))"

definition SchedulerClient_sendHeartbeat ::
    "http_os \<Rightarrow> int \<Rightarrow> string list \<Rightarrow> SchedulerClient \<Rightarrow> string \<times> bool option" where
  "SchedulerClient_sendHeartbeat os running_tasks active_task_ids c =
     (if sc_worker_id c = [] then ([], Some False)
      else case SchedulerClient_postJSON os ''/workers/heartbeat''
                  (heartbeat_body (sc_worker_id c) running_tasks active_task_ids) c of
             (wire, status) \<Rightarrow> (wire, map_option (\<lambda>s. s = 200) status))"

definition SchedulerClient_reportResult ::
    "http_os \<Rightarrow> TaskResult \<Rightarrow> SchedulerClient \<Rightarrow> string \<times> bool option" where
  "SchedulerClient_reportResult os result c =
     (if sc_worker_id c = [] then ([], Some False)
      else case SchedulerClient_postJSON os (''/tasks/'' @ result_task_id result @ ''/complete'') (result_body result) c of
             (wire, status) \<Rightarrow> (wire, map_option (\<lambda>s. s = 200) status))"

section \<open>Reading JSON strings\<close>

text \<open>How a JSON reader (RFC 8259) reads the rest of a string after its opening quote: the value and what follows the
  closing quote. Raw control characters are not allowed. Escapes by code point (\<open>\u\<close>) never occur here and
  are left out.\<close>

fun json_unescape :: "char \<Rightarrow> char option" where
  "json_unescape e =
     (if e = QUOTE then Some QUOTE else if e = BSLASH then Some BSLASH else if e = CHR ''/'' then Some (CHR ''/'')
      else if e = CHR ''n'' then Some NL else if e = CHR ''r'' then Some CR else if e = CHR ''t'' then Some TAB
      else if e = CHR ''b'' then Some (CHR 0x08) else if e = CHR ''f'' then Some (CHR 0x0C) else None)"

fun json_string :: "string \<Rightarrow> (string \<times> string) option" where
  "json_string [] = None"
| "json_string (c # s) =
     (if c = QUOTE then Some ([], s)
      else if c = BSLASH then
        (case s of
           [] \<Rightarrow> None
         | e # r \<Rightarrow>
             (case json_unescape e of
                None \<Rightarrow> None
              | Some d \<Rightarrow> map_option (\<lambda>(v, rest). (d # v, rest)) (json_string r)))
      else if (of_char c :: nat) < 32 then None
      else map_option (\<lambda>(v, rest). (c # v, rest)) (json_string s))"

text \<open>The characters \<open>escapeJSONString\<close> handles.\<close>

definition json_char_ok :: "char \<Rightarrow> bool" where
  "json_char_ok c \<longleftrightarrow> 32 \<le> (of_char c :: nat) \<or> c \<in> {NL, CR, TAB}"

lemma json_string_escape_char:
  "json_string (escape_char c @ s) =
     (if json_char_ok c then map_option (\<lambda>(v, rest). (c # v, rest)) (json_string s) else None)"
  by (auto simp: escape_char_def json_char_ok_def)

lemma json_string_escape:
  "json_string (escapeJSONString s @ QUOTE # rest) = (if \<forall>c \<in> set s. json_char_ok c then Some (s, rest) else None)"
proof (induction s)
  case (Cons c s)
  show ?case using json_string_escape_char [of c "escapeJSONString s @ QUOTE # rest"] Cons.IH
    by (auto simp: escapeJSONString_def)
qed (simp add: escapeJSONString_def)

section \<open>Lemmas on addresses and responses\<close>

lemma rfind_char_append: "c \<notin> set p \<Longrightarrow> rfind_char c (h @ c # p) = Some (length h)"
  using find_char_append [of c "rev p" "rev h"] by (simp add: rfind_char_def)

lemma splitHostPort_cut:
  assumes "h \<noteq> []" "p \<noteq> []" "CHR '':'' \<notin> set p" "CHR ''/'' \<notin> set h" "CHR ''/'' \<notin> set p"
    "rest = [] \<or> rest = ''/'' @ path"
    "(if starts_with ''http://'' address then drop (length ''http://'') address else address) = (h @ '':'' @ p) @ rest"
  shows "splitHostPort address = Some (h, p)"
proof -
  let ?hp = "h @ '':'' @ p"
  have colon: "rfind_char (CHR '':'') ?hp = Some (length h)" using rfind_char_append [OF assms(3), of h] by simp
  have ns: "CHR ''/'' \<notin> set ?hp" using assms(4,5) by simp
  have "find_char (CHR ''/'') ?hp = None" using ns unfolding find_char_None .
  moreover have "find_char (CHR ''/'') (?hp @ CHR ''/'' # path) = Some (length ?hp)" by (rule find_char_append [OF ns])
  ultimately have cut: "(case find_char (CHR ''/'') (?hp @ rest) of None \<Rightarrow> ?hp @ rest
      | Some i \<Rightarrow> substr (?hp @ rest) 0 i) = ?hp"
    using assms(6) by (auto simp: substr_def simp del: append_assoc)
  show ?thesis
    unfolding splitHostPort_def Let_def assms(7) cut colon option.case
    using assms(1,2) by (simp add: substr_def substr_from_def)
qed

lemma send_loop_all: "send_loop rcs rest = (wire, Some True) \<Longrightarrow> wire = rest"
  by (induction rcs rest arbitrary: wire rule: send_loop.induct) (auto split: if_splits prod.splits)

lemma send_loop_enough:
  "\<forall>r \<in> set rcs. 0 < r \<Longrightarrow> length rest \<le> length rcs \<Longrightarrow> send_loop rcs rest = (rest, Some True)"
proof (induction rcs rest rule: send_loop.induct)
  case (3 written rcs x xs)
  have "send_loop rcs (drop (nat written) (x # xs)) = (drop (nat written) (x # xs), Some True)"
    using "3.prems" by (intro "3.IH") auto
  then show ?case using "3.prems"(1) by (simp del: drop_Cons')
qed auto

lemma response_loop_chunks:
  assumes "filter (\<lambda>r. r \<noteq> RecvEINTR) rs = map RecvBytes chunks @ [RecvBytes []]" "[] \<notin> set chunks"
  shows "response_loop rs response = Payload (response @ concat chunks)"
  using assms
proof (induction rs arbitrary: response chunks)
  case (Cons r rs)
  note prems = Cons.prems and IH = Cons.IH
  show ?case
  proof (cases "r = RecvEINTR")
    case False
    show ?thesis
    proof (cases chunks)
      case Nil
      then show ?thesis using prems False by simp
    next
      case (Cons ch chs)
      then have "ch \<noteq> []" "[] \<notin> set chs" using prems(2) by auto
      then show ?thesis using Cons prems(1) False IH [of chs "response @ ch"] by simp
    qed
  qed (use prems IH in simp)
qed simp

lemma find_crlf_append: "CR \<notin> set l \<Longrightarrow> find_crlf (l @ CR # NL # s) = Some (length l)"
proof (induction l)
  case (Cons c l)
  then show ?case by (cases l) auto
qed simp

lemma extract_int_digits:
  assumes "n < 2 ^ 31"
  shows "extract_int ('' '' @ to_string n @ '' '' @ reason) = int n"
proof -
  let ?s = "to_string n @ '' '' @ reason"
  have h: "is_digit (hd (to_string n))" using to_string_digits [of n] by (simp add: hd_in_set)
  have hd: "hd ?s = hd (to_string n)" "?s \<noteq> []" by simp_all
  have c: "\<not> is_space (hd ?s)" "hd ?s \<noteq> CHR ''-''" "hd ?s \<noteq> CHR ''+''"
    using digit_not_space [OF h] unfolding hd(1) by blast+
  have drop: "dropWhile is_space ('' '' @ ?s) = ?s"
  proof -
    have "is_space (CHR '' '')" by (simp add: is_space_def)
    moreover have "dropWhile is_space ?s = ?s" unfolding dropWhile_eq_self_iff using c(1) by blast
    ultimately show ?thesis by simp
  qed
  have take: "takeWhile is_digit ?s = to_string n"
  proof -
    have "\<not> is_digit (CHR '' '')" by (simp add: is_digit_def)
    then show ?thesis using to_string_digits [of n] by (simp add: takeWhile_append2)
  qed
  show ?thesis
    unfolding extract_int_def Let_def drop using c(2,3) hd(2) assms by (simp add: take [simplified])
qed

lemma response_status_line:
  assumes "n < 2 ^ 31" "CR \<notin> set reason"
  shows "response_status (''HTTP/1.1 '' @ to_string n @ '' '' @ reason @ [CR, NL] @ tail) = int n"
proof -
  let ?line = "''HTTP/1.1'' @ '' '' @ to_string n @ '' '' @ reason"
  have cr: "CR \<notin> set (to_string n)"
  proof -
    have "\<not> is_digit CR" by (simp add: is_digit_def)
    then show ?thesis using to_string_digits [of n] by blast
  qed
  then have "find_crlf (?line @ CR # NL # tail) = Some (length ?line)"
    using assms(2) by (intro find_crlf_append) simp
  moreover have "status_of_line ?line = int n"
  proof -
    have nsp: "\<not> is_space c" if "c \<in> set ''HTTP/1.1''" for c using that by (auto simp: is_space_def)
    have sp: "is_space (CHR '' '')" by (simp add: is_space_def)
    have "dropWhile is_space ?line = ?line" by (simp add: is_space_def)
    moreover have "dropWhile (\<lambda>c. \<not> is_space c) ?line = '' '' @ to_string n @ '' '' @ reason"
      using nsp sp by simp
    ultimately show ?thesis
      using extract_int_digits [OF assms(1)] by (simp only: status_of_line_def Let_def) simp
  qed
  ultimately show ?thesis by (simp add: response_status_def substr_def)
qed

section \<open>Properties\<close>

text \<open>
  A string that goes through \<open>escapeJSONString\<close> into a JSON body is read back by a JSON reader as exactly that string,
  and can not end its own quotation: no value can inject fields. The exception are control characters other
  than newline, carriage return and tab: they are passed on raw and the reader rejects the body.
\<close>

theorem escaped_string_reads_back:
  "json_string (escapeJSONString s @ QUOTE # rest) = (if \<forall>c \<in> set s. json_char_ok c then Some (s, rest) else None)"
  by (rule json_string_escape)

theorem escaped_string_reads_back_witness:
  "json_string (escapeJSONString (''a'' @ [QUOTE, BSLASH, NL] @ ''b'') @ QUOTE # ''}'') = Some (''a'' @ [QUOTE, BSLASH, NL] @ ''b'', ''}'') \<and>
   json_string (escapeJSONString [CHR 0x01] @ QUOTE # ''}'') = None"
  using escaped_string_reads_back [of "''a'' @ [QUOTE, BSLASH, NL] @ ''b''" "''}''"] escaped_string_reads_back [of "[CHR 0x01]" "''}''"]
  by (simp add: json_char_ok_def)

text \<open>
  An address is split into the host and port it names: \<open>host:port\<close>, \<open>http://host:port\<close> and
  \<open>http://host:port/path\<close> all give that host and port, also when the host contains colons.
\<close>

theorem split_host_port_correct:
  assumes "h \<noteq> []" "p \<noteq> []" "CHR '':'' \<notin> set p" "CHR ''/'' \<notin> set h" "CHR ''/'' \<notin> set p"
    "\<not> starts_with ''http://'' (h @ '':'' @ p)"
  shows "splitHostPort (h @ '':'' @ p) = Some (h, p) \<and> splitHostPort (''http://'' @ h @ '':'' @ p) = Some (h, p) \<and>
    splitHostPort (''http://'' @ h @ '':'' @ p @ ''/'' @ path) = Some (h, p)"
proof (intro conjI)
  show "splitHostPort (h @ '':'' @ p) = Some (h, p)"
    by (rule splitHostPort_cut [OF assms(1-5), of "[]" "[]"]) (use assms(6) in simp_all)
  show "splitHostPort (''http://'' @ h @ '':'' @ p) = Some (h, p)"
    by (rule splitHostPort_cut [OF assms(1-5), of "[]" "[]"]) (simp_all add: starts_with_def)
  show "splitHostPort (''http://'' @ h @ '':'' @ p @ ''/'' @ path) = Some (h, p)"
    by (rule splitHostPort_cut [OF assms(1-5), of "''/'' @ path" path]) (simp_all add: starts_with_def)
qed

theorem split_host_port_correct_witness:
  "splitHostPort ''http://10.0.0.1:8080/api'' = Some (''10.0.0.1'', ''8080'')"
  using split_host_port_correct [of "''10.0.0.1''" "''8080''" "''api''"] by (simp add: starts_with_def)

text \<open>
  A request goes out whole and its answer is understood: however the operating system splits the sends (at least one
  byte per call) and the receives, and however often a receive is interrupted, \<open>postJSON\<close> sends exactly
  the HTTP request with its body and returns the status code of the response line.
\<close>

theorem post_json_exchange:
  assumes "splitHostPort (sc_scheduler_addr c) = Some (host, port)" "os_resolve os host port = Some results"
    "0 \<le> connect_loop results (-1)"
    "\<forall>r \<in> set (os_sends os). 0 < r" "length (http_request path host port body) \<le> length (os_sends os)"
    "filter (\<lambda>r. r \<noteq> RecvEINTR) (os_recvs os) = map RecvBytes chunks @ [RecvBytes []]" "[] \<notin> set chunks"
    "concat chunks = ''HTTP/1.1 '' @ to_string n @ '' '' @ reason @ [CR, NL] @ tail" "n < 2 ^ 31" "CR \<notin> set reason"
  shows "SchedulerClient_postJSON os path body c = (http_request path host port body, Some (int n))"
proof -
  have "response_loop (os_recvs os) [] = Payload (''HTTP/1.1 '' @ to_string n @ '' '' @ reason @ [CR, NL] @ tail)"
    using response_loop_chunks [OF assms(6,7), of "[]"] assms(8) by simp
  then show ?thesis
    using send_loop_enough [OF assms(4,5)] response_status_line [OF assms(9,10), of tail] assms(1-3)
    by (simp add: SchedulerClient_postJSON_def)
qed

definition sample_os :: http_os where
  "sample_os = \<lparr>os_resolve = \<lambda>h p. Some [(-1, 0), (5, 0)], os_sends = replicate 1000 7,
     os_recvs = [RecvBytes ''HTTP/1.1 20'', RecvEINTR, RecvBytes (''1 Created'' @ [CR, NL]), RecvBytes []]\<rparr>"

theorem post_json_exchange_witness:
  "SchedulerClient_postJSON sample_os ''/x'' ''{}'' \<lparr>sc_scheduler_addr = ''h:1'', sc_worker_id = ''w''\<rparr> =
     (http_request ''/x'' ''h'' ''1'' ''{}'', Some 201)"
proof -
  have split: "splitHostPort ''h:1'' = Some (''h'', ''1'')"
    by (simp add: splitHostPort_def starts_with_def rfind_char_def substr_def substr_from_def)
  have "to_string 201 = ''201''" "to_string (Suc (Suc 0)) = ''2''"
    by (simp_all add: to_string.simps digit_chars flip: numeral_2_eq_2)
  then have "SchedulerClient_postJSON sample_os ''/x'' ''{}'' \<lparr>sc_scheduler_addr = ''h:1'', sc_worker_id = ''w''\<rparr> =
      (http_request ''/x'' ''h'' ''1'' ''{}'', Some (int 201))"
    by (intro post_json_exchange [where results = "[(-1, 0), (5, 0)]" and reason = "''Created''" and tail = "[]"
          and chunks = "[''HTTP/1.1 20'', ''1 Created'' @ [CR, NL]]"])
      (simp_all add: split sample_os_def http_request_def)
  then show ?thesis by simp
qed

text \<open>
  The send loop does not notice a peer that takes nothing: if \<open>send\<close> keeps returning 0, the call never returns,
  whatever the request.
\<close>

theorem post_json_spins_on_zero_sends:
  assumes "splitHostPort (sc_scheduler_addr c) = Some (host, port)" "os_resolve os host port = Some results"
    "0 \<le> connect_loop results (-1)" "os_sends os = replicate k 0"
  shows "SchedulerClient_postJSON os path body c = ([], None)"
proof -
  have "rest \<noteq> [] \<Longrightarrow> send_loop (replicate k 0) rest = ([], None)" for rest
    by (induction k) (cases rest; simp)+
  moreover have "http_request path host port body \<noteq> []" by (simp add: http_request_def)
  ultimately show ?thesis using assms by (simp add: SchedulerClient_postJSON_def)
qed

theorem post_json_spins_on_zero_sends_witness:
  "SchedulerClient_postJSON (sample_os\<lparr>os_sends := replicate 1000000 0\<rparr>) ''/x'' ''{}''
     \<lparr>sc_scheduler_addr = ''h:1'', sc_worker_id = ''w''\<rparr> = ([], None)"
proof (rule post_json_spins_on_zero_sends [where results = "[(-1, 0), (5, 0)]"])
  show "splitHostPort (sc_scheduler_addr \<lparr>sc_scheduler_addr = ''h:1'', sc_worker_id = ''w''\<rparr>) = Some (''h'', ''1'')"
    by (simp add: splitHostPort_def starts_with_def rfind_char_def substr_def substr_from_def)
qed (simp_all add: sample_os_def)

end
