(* ===== verification/Worker_Thread_Pool.thy ===== *)
theory Worker_Thread_Pool
  imports Rdma_Prelude "HOL-Library.Multiset"
begin

text \<open>
  The thread pool (\<open>worker/runtime/thread_pool.cpp\<close>) and the timer (\<open>worker/runtime/timer.cpp\<close>). The state of the
  pool includes its threads: each waits at the head of \<open>workerLoop\<close>, runs a task, or has left the loop.
  \<open>pool_step\<close> is one atomic action of a thread or of a caller. The fields \<open>tp_accepted\<close> and
  \<open>tp_executed\<close> are history, not state of the code.
\<close>

section \<open>ThreadPool\<close>

datatype 't pool_thread = Waiting_Thread | Running_Thread 't | Exited_Thread

record 't ThreadPool =
  tp_thread_count :: nat
  tp_threads :: "'t pool_thread list"
  tp_tasks :: "'t list"
  tp_started :: bool
  tp_stopping :: bool
  tp_accepted :: "'t list"
  tp_executed :: "'t list"

definition ThreadPool_new :: "nat \<Rightarrow> 't ThreadPool" where
  "ThreadPool_new thread_count =
     \<lparr>tp_thread_count = thread_count, tp_threads = [], tp_tasks = [], tp_started = False, tp_stopping = False,
      tp_accepted = [], tp_executed = []\<rparr>"

text \<open>\<open>stop()\<close> up to the joins, and after them (all threads have left their loops).\<close>

definition ThreadPool_stop_request :: "'t ThreadPool \<Rightarrow> 't ThreadPool" where
  "ThreadPool_stop_request p =
     (if \<not> tp_started p \<and> tp_threads p = [] then p else p\<lparr>tp_stopping := True\<rparr>)"

definition ThreadPool_stop_finish :: "'t ThreadPool \<Rightarrow> 't ThreadPool" where
  "ThreadPool_stop_finish p = p\<lparr>tp_threads := [], tp_tasks := [], tp_started := False\<rparr>"

definition ThreadPool_stop :: "'t ThreadPool \<Rightarrow> 't ThreadPool" where
  "ThreadPool_stop p =
     (if \<not> tp_started p \<and> tp_threads p = [] then p else ThreadPool_stop_finish (ThreadPool_stop_request p))"

text \<open>\<open>start()\<close>; \<open>created = Some k\<close>: creating the thread after the \<open>k\<close>-th throws. Then \<open>stop()\<close> ends the \<open>k\<close> threads,
  which have had nothing to do.\<close>

definition ThreadPool_start :: "nat option \<Rightarrow> 't ThreadPool \<Rightarrow> bool \<times> 't ThreadPool" where
  "ThreadPool_start created p =
     (if tp_started p then (True, p)
      else if tp_thread_count p = 0 then (False, p)
      else
        (let p1 = p\<lparr>tp_stopping := False\<rparr> in
         case created of
           None \<Rightarrow> (True, p1\<lparr>tp_threads := tp_threads p1 @ replicate (tp_thread_count p) Waiting_Thread, tp_started := True\<rparr>)
         | Some k \<Rightarrow>
             (False, ThreadPool_stop (p1\<lparr>tp_threads := tp_threads p1 @ replicate k Waiting_Thread\<rparr>))))"

definition ThreadPool_enqueue :: "'t \<Rightarrow> 't ThreadPool \<Rightarrow> bool \<times> 't ThreadPool" where
  "ThreadPool_enqueue task p =
     (if \<not> tp_started p \<or> tp_stopping p then (False, p)
      else (True, p\<lparr>tp_tasks := tp_tasks p @ [task], tp_accepted := tp_accepted p @ [task]\<rparr>))"

text \<open>A thread at the head of its loop: it goes on waiting (\<open>None\<close>), leaves, or takes the oldest task.\<close>

definition workerLoop_head :: "nat \<Rightarrow> 't ThreadPool \<Rightarrow> 't ThreadPool option" where
  "workerLoop_head i p =
     (if \<not> (tp_stopping p \<or> tp_tasks p \<noteq> []) then None
      else if tp_stopping p \<and> tp_tasks p = [] then Some (p\<lparr>tp_threads := (tp_threads p)[i := Exited_Thread]\<rparr>)
      else Some (p\<lparr>tp_threads := (tp_threads p)[i := Running_Thread (hd (tp_tasks p))], tp_tasks := tl (tp_tasks p)\<rparr>))"

text \<open>The end of the task, normal or by an exception (which is caught): back to the head.\<close>

definition workerLoop_finish :: "nat \<Rightarrow> 't \<Rightarrow> 't ThreadPool \<Rightarrow> 't ThreadPool" where
  "workerLoop_finish i task p =
     p\<lparr>tp_threads := (tp_threads p)[i := Waiting_Thread], tp_executed := tp_executed p @ [task]\<rparr>"

inductive worker_step :: "'t ThreadPool \<Rightarrow> 't ThreadPool \<Rightarrow> bool" where
  head: "i < length (tp_threads p) \<Longrightarrow> tp_threads p ! i = Waiting_Thread \<Longrightarrow> workerLoop_head i p = Some p' \<Longrightarrow>
     worker_step p p'"
| finish: "i < length (tp_threads p) \<Longrightarrow> tp_threads p ! i = Running_Thread task \<Longrightarrow>
     worker_step p (workerLoop_finish i task p)"

inductive pool_step :: "'t ThreadPool \<Rightarrow> 't ThreadPool \<Rightarrow> bool" where
  worker: "worker_step p p' \<Longrightarrow> pool_step p p'"
| enqueue: "pool_step p (snd (ThreadPool_enqueue task p))"
| stop_request: "pool_step p (ThreadPool_stop_request p)"

section \<open>Invariant\<close>

fun running_task :: "'t pool_thread \<Rightarrow> 't multiset" where
  "running_task (Running_Thread t) = {#t#}"
| "running_task _ = {#}"

definition in_threads :: "'t pool_thread list \<Rightarrow> 't multiset" where
  "in_threads ths = sum_list (map running_task ths)"

lemma in_threads_update:
  assumes "i < length ths"
  shows "in_threads (ths[i := x]) + running_task (ths ! i) = in_threads ths + running_task x"
  using assms
proof (induction ths arbitrary: i)
  case (Cons t ths)
  show ?case
  proof (cases i)
    case (Suc j)
    then show ?thesis using Cons.IH [of j] Cons.prems by (simp add: in_threads_def union_ac)
  qed (simp add: in_threads_def union_ac)
qed simp

lemma in_threads_exited: "\<forall>th \<in> set ths. th = Exited_Thread \<Longrightarrow> in_threads ths = {#}"
  by (induction ths) (simp_all add: in_threads_def)

text \<open>Every accepted task is in exactly one place, and a thread that has left found the pool stopping and empty.\<close>

definition tasks_inv :: "'t ThreadPool \<Rightarrow> bool" where
  "tasks_inv p \<longleftrightarrow>
     mset (tp_accepted p) = mset (tp_executed p) + mset (tp_tasks p) + in_threads (tp_threads p) \<and>
     tp_threads p \<noteq> [] \<and>
     (Exited_Thread \<in> set (tp_threads p) \<longrightarrow> tp_stopping p \<and> tp_tasks p = [])"

lemma worker_step_inv:
  assumes "worker_step p p'" "tasks_inv p"
  shows "tasks_inv p'"
  using assms
proof (cases rule: worker_step.cases)
  case (head i)
  note upd = in_threads_update [OF head(1)]
  have sub: "set ((tp_threads p)[i := x]) \<subseteq> insert x (set (tp_threads p))" for x by (rule set_update_subset_insert)
  show ?thesis
  proof (cases "tp_tasks p")
    case Nil
    then have "p' = p\<lparr>tp_threads := (tp_threads p)[i := Exited_Thread]\<rparr>" "tp_stopping p"
      using head(3) by (auto simp: workerLoop_head_def split: if_splits)
    then show ?thesis using assms(2) upd [of Exited_Thread] head(2) Nil by (simp add: tasks_inv_def)
  next
    case (Cons t ts)
    then have p': "p' = p\<lparr>tp_threads := (tp_threads p)[i := Running_Thread t], tp_tasks := ts\<rparr>"
      using head(3) by (auto simp: workerLoop_head_def split: if_splits)
    have "Exited_Thread \<notin> set (tp_threads p)" using assms(2) Cons by (auto simp: tasks_inv_def)
    then have "Exited_Thread \<notin> set (tp_threads p')" using sub [of "Running_Thread t"] p' by auto
    then show ?thesis using assms(2) upd [of "Running_Thread t"] head(2) Cons p' by (simp add: tasks_inv_def)
  qed
next
  case (finish i task)
  have "set ((tp_threads p)[i := Waiting_Thread]) \<subseteq> insert Waiting_Thread (set (tp_threads p))"
    by (rule set_update_subset_insert)
  then have "Exited_Thread \<in> set (tp_threads p') \<Longrightarrow> Exited_Thread \<in> set (tp_threads p)"
    using finish(1) by (auto simp: workerLoop_finish_def)
  moreover have "in_threads (tp_threads p') + {#task#} = in_threads (tp_threads p)"
    using in_threads_update [OF finish(2), of Waiting_Thread] finish(1,3) by (simp add: workerLoop_finish_def)
  ultimately show ?thesis
    using assms(2) finish(1) by (auto simp: tasks_inv_def workerLoop_finish_def union_ac)
qed

lemma pool_step_inv: "pool_step p p' \<Longrightarrow> tasks_inv p \<Longrightarrow> tasks_inv p'"
proof (induction rule: pool_step.induct)
  case (worker p p')
  then show ?case by (rule worker_step_inv)
qed (auto simp: tasks_inv_def ThreadPool_enqueue_def ThreadPool_stop_request_def)

lemma pool_steps_inv: "pool_step\<^sup>*\<^sup>* p p' \<Longrightarrow> tasks_inv p \<Longrightarrow> tasks_inv p'"
  by (induction rule: rtranclp_induct) (auto intro: pool_step_inv)

lemma started_inv:
  assumes "ThreadPool_start None (ThreadPool_new n) = (True, p)"
  shows "tasks_inv p"
proof -
  have "0 < n" "p = (ThreadPool_new n)\<lparr>tp_threads := replicate n Waiting_Thread, tp_started := True\<rparr>"
    using assms by (auto simp: ThreadPool_start_def ThreadPool_new_def Let_def split: if_splits)
  moreover have "in_threads (replicate n (Waiting_Thread :: 'a pool_thread)) = {#}"
    by (induction n) (simp_all add: in_threads_def)
  ultimately show ?thesis by (auto simp: tasks_inv_def ThreadPool_new_def)
qed

section \<open>Draining\<close>

fun thread_weight :: "'t pool_thread \<Rightarrow> nat" where
  "thread_weight Waiting_Thread = 1"
| "thread_weight (Running_Thread _) = 2"
| "thread_weight Exited_Thread = 0"

text \<open>The number of thread actions left once the pool is stopping.\<close>

definition pool_weight :: "'t ThreadPool \<Rightarrow> nat" where
  "pool_weight p = 2 * length (tp_tasks p) + sum_list (map thread_weight (tp_threads p))"

lemma thread_weight_update:
  "i < length ths \<Longrightarrow>
   sum_list (map thread_weight (ths[i := x])) + thread_weight (ths ! i) = sum_list (map thread_weight ths) + thread_weight x"
proof (induction ths arbitrary: i)
  case (Cons t ths)
  show ?case
  proof (cases i)
    case (Suc j)
    then show ?thesis using Cons.IH [of j] Cons.prems by simp
  qed simp
qed simp

lemma worker_step_weight:
  assumes "worker_step p p'"
  shows "pool_weight p' < pool_weight p" "tp_stopping p' = tp_stopping p"
proof -
  have "pool_weight p' < pool_weight p \<and> tp_stopping p' = tp_stopping p"
    using assms
  proof (cases rule: worker_step.cases)
    case (head i)
    then show ?thesis
      using thread_weight_update [OF head(1), of Exited_Thread]
        thread_weight_update [OF head(1), of "Running_Thread (hd (tp_tasks p))"]
      by (cases "tp_tasks p") (auto simp: workerLoop_head_def pool_weight_def split: if_splits)
  next
    case (finish i task)
    then show ?thesis
      using thread_weight_update [OF finish(2), of Waiting_Thread]
      by (auto simp: workerLoop_finish_def pool_weight_def)
  qed
  then show "pool_weight p' < pool_weight p" "tp_stopping p' = tp_stopping p" by simp_all
qed

lemma worker_progress:
  assumes "tp_stopping p" "\<exists>th \<in> set (tp_threads p). th \<noteq> Exited_Thread"
  shows "\<exists>p'. worker_step p p'"
proof -
  obtain i where i: "i < length (tp_threads p)" "tp_threads p ! i \<noteq> Exited_Thread"
    using assms(2) by (auto simp: in_set_conv_nth)
  show ?thesis
  proof (cases "tp_threads p ! i")
    case Waiting_Thread
    have "workerLoop_head i p \<noteq> None" using assms(1) by (simp add: workerLoop_head_def)
    then obtain p' where "workerLoop_head i p = Some p'" by blast
    from worker_step.head [OF i(1) Waiting_Thread this] show ?thesis by (rule exI)
  next
    case (Running_Thread t)
    from worker_step.finish [OF i(1) this] show ?thesis by (rule exI)
  qed (use i in simp)
qed

section \<open>Timer\<close>

text \<open>The state of a timer: its flag and whether its thread exists.\<close>

record Timer =
  timer_running :: bool
  timer_thread :: bool

definition Timer_new :: Timer where
  "Timer_new = \<lparr>timer_running = False, timer_thread = False\<rparr>"

text \<open>\<open>stop()\<close> returns once the thread has ended.\<close>

definition Timer_stop :: "Timer \<Rightarrow> Timer" where
  "Timer_stop t =
     (if \<not> timer_running t \<and> \<not> timer_thread t then t else t\<lparr>timer_running := False, timer_thread := False\<rparr>)"

definition Timer_start :: "int \<Rightarrow> bool \<Rightarrow> Timer \<Rightarrow> bool \<times> Timer" where
  "Timer_start interval has_task t =
     (if interval \<le> 0 \<or> \<not> has_task then (False, t)
      else (True, (Timer_stop t)\<lparr>timer_running := True, timer_thread := True\<rparr>))"

text \<open>The thread: per iteration what the loop condition reads and what others do during the timed wait; the
  task acts on the caller's state. An exception of the task is caught.\<close>

fun timer_loop :: "(Timer \<Rightarrow> Timer) list list \<Rightarrow> ('h \<Rightarrow> 'h) \<Rightarrow> Timer \<Rightarrow> 'h \<Rightarrow> 'h" where
  "timer_loop [] task t h = h"
| "timer_loop (others # rest) task t h =
     (if \<not> timer_running t then h
      else case cv_wait_for (\<lambda>t. \<not> timer_running t) others t of
             (stopped, t1) \<Rightarrow> if stopped then h else timer_loop rest task t1 (task h))"

section \<open>Properties\<close>

text \<open>
  C38. Stopping a thread pool loses no work: whatever the callers and threads did since it was started, once all its
  threads have ended (which is when \<open>stop()\<close> gets past the joins) every task it ever accepted has been run
  exactly once and none is left in the queue.
\<close>

theorem pool_stop_runs_every_accepted_task:
  assumes "ThreadPool_start None (ThreadPool_new n) = (True, p)" "pool_step\<^sup>*\<^sup>* p p'"
    "\<forall>th \<in> set (tp_threads p'). th = Exited_Thread"
  shows "mset (tp_executed p') = mset (tp_accepted p') \<and> tp_tasks p' = [] \<and> tp_stopping p'"
proof -
  have inv: "tasks_inv p'" using pool_steps_inv [OF assms(2) started_inv [OF assms(1)]] .
  then have "Exited_Thread \<in> set (tp_threads p')"
    using assms(3) by (cases "tp_threads p'") (auto simp: tasks_inv_def)
  moreover have "in_threads (tp_threads p') = {#}" by (rule in_threads_exited [OF assms(3)])
  ultimately show ?thesis using inv by (simp add: tasks_inv_def)
qed

definition sample_pool :: "nat \<Rightarrow> nat ThreadPool" where
  "sample_pool n = snd (ThreadPool_start None (ThreadPool_new n))"

lemma sample_pool_run:
  "\<exists>p'. pool_step\<^sup>*\<^sup>* (sample_pool 1) p' \<and> (\<forall>th \<in> set (tp_threads p'). th = Exited_Thread) \<and> tp_accepted p' = [7]"
proof -
  let ?p1 = "snd (ThreadPool_enqueue 7 (sample_pool 1))" and ?p0 = "sample_pool 1"
  let ?p2 = "ThreadPool_stop_request ?p1"
  define p3 where "p3 = ?p2\<lparr>tp_threads := [Running_Thread 7], tp_tasks := []\<rparr>"
  define p4 where "p4 = workerLoop_finish 0 7 p3"
  define p5 where "p5 = p4\<lparr>tp_threads := [Exited_Thread]\<rparr>"
  note d = sample_pool_def ThreadPool_start_def ThreadPool_new_def ThreadPool_enqueue_def ThreadPool_stop_request_def
    Let_def p3_def p4_def p5_def workerLoop_head_def workerLoop_finish_def
  have "worker_step ?p2 p3" by (rule worker_step.head [of 0]) (simp_all add: d)
  moreover have "worker_step p3 p4" unfolding p4_def by (rule worker_step.finish) (simp_all add: d)
  moreover have "worker_step p4 p5" by (rule worker_step.head [of 0]) (simp_all add: d)
  ultimately have "pool_step\<^sup>*\<^sup>* ?p0 p5"
    using pool_step.enqueue [of ?p0 7] pool_step.stop_request [of ?p1] pool_step.worker
    by (meson converse_rtranclp_into_rtranclp rtranclp.rtrancl_refl)
  moreover have "(\<forall>th \<in> set (tp_threads p5). th = Exited_Thread) \<and> tp_accepted p5 = [7]" by (simp add: d)
  ultimately show ?thesis by blast
qed

theorem pool_stop_runs_every_accepted_task_witness:
  "\<exists>p'. pool_step\<^sup>*\<^sup>* (sample_pool 1) p' \<and> tp_accepted p' = [7] \<and> mset (tp_executed p') = {#7#} \<and> tp_tasks p' = []"
proof -
  obtain p' where p': "pool_step\<^sup>*\<^sup>* (sample_pool 1) p'" "\<forall>th \<in> set (tp_threads p'). th = Exited_Thread"
    "tp_accepted p' = [7]" using sample_pool_run by blast
  have "ThreadPool_start None (ThreadPool_new 1) = (True, sample_pool 1)"
    by (simp add: sample_pool_def ThreadPool_start_def ThreadPool_new_def Let_def)
  from pool_stop_runs_every_accepted_task [OF this p'(1,2)] p' show ?thesis by auto
qed

text \<open>
  Stopping a thread pool always comes to an end: while the pool is stopping and a thread has not ended some thread can act,
  and every action of a thread uses up one of at most two per queued task and two per thread; so no schedule
  keeps \<open>stop()\<close> waiting, as long as the tasks themselves return.
\<close>

theorem pool_stop_terminates:
  "(tp_stopping p \<and> (\<exists>th \<in> set (tp_threads p). th \<noteq> Exited_Thread) \<longrightarrow> (\<exists>p'. worker_step p p')) \<and>
   (\<forall>p'. worker_step p p' \<longrightarrow> pool_weight p' < pool_weight p \<and> tp_stopping p' = tp_stopping p) \<and>
   pool_weight p \<le> 2 * length (tp_tasks p) + 2 * length (tp_threads p)"
proof -
  have "sum_list (map thread_weight ths) \<le> 2 * length ths" for ths :: "'a pool_thread list"
  proof (induction ths)
    case (Cons th ths)
    then show ?case by (cases th) simp_all
  qed simp
  then show ?thesis
    using worker_progress [of p] worker_step_weight [of p] by (auto simp: pool_weight_def)
qed

theorem pool_stop_terminates_witness:
  "\<exists>p'. worker_step (ThreadPool_stop_request (sample_pool 2)) p'"
  using pool_stop_terminates [of "ThreadPool_stop_request (sample_pool 2)"]
  by (simp add: sample_pool_def ThreadPool_start_def ThreadPool_new_def ThreadPool_stop_request_def Let_def
      numeral_2_eq_2)

end
