(* ===== verification/Worker_Node.thy ===== *)
theory Worker_Node
  imports Worker_Scheduler_Client Worker_Thread_Pool
begin

text \<open>
  The worker process: \<open>WorkerNode\<close> of \<open>worker/src/worker_node.cpp\<close> and its shutdown in \<open>worker/main.cpp\<close>. First the
  operations, as functions on the node's state; then the running node, as steps of the accept thread and the
  consumer threads; then the wait in \<open>run()\<close>. What the environment decides (files, sockets, thread
  creation) is in \<open>node_env\<close>. Log lines are left out.
\<close>

section \<open>State\<close>

record WorkerNode =
  wn_config_path :: string
  wn_config :: WorkerConfig
  wn_running :: bool
  wn_queue :: TaskQueue
  wn_client :: SchedulerClient
  wn_transport :: "TcpTransport option"
  wn_pool :: "nat ThreadPool option"
  wn_timer :: Timer
  wn_active :: "string set"

definition WorkerNode_new :: "string \<Rightarrow> WorkerNode" where
  "WorkerNode_new config_path =
     \<lparr>wn_config_path = config_path, wn_config = WorkerConfig_default, wn_running = False, wn_queue = TaskQueue_new,
      wn_client = \<lparr>sc_scheduler_addr = [], sc_worker_id = []\<rparr>, wn_transport = None, wn_pool = None,
      wn_timer = Timer_new, wn_active = {}\<rparr>"

section \<open>Active tasks\<close>

definition WorkerNode_finishTask :: "string \<Rightarrow> 'a WorkerNode_scheme \<Rightarrow> 'a WorkerNode_scheme" where
  "WorkerNode_finishTask ident n = n\<lparr>wn_active := wn_active n - {ident}\<rparr>"

text \<open>The locked block of \<open>enqueueTask\<close>: whether the id was inserted.\<close>

definition enqueue_insert :: "Task \<Rightarrow> 'a WorkerNode_scheme \<Rightarrow> bool \<times> 'a WorkerNode_scheme" where
  "enqueue_insert task n =
     (if task_id task \<in> wn_active n then (False, n)
      else (True, n\<lparr>wn_active := insert (task_id task) (wn_active n)\<rparr>))"

text \<open>The rest of it, for an inserted id.\<close>

definition enqueue_push :: "Task \<Rightarrow> 'a WorkerNode_scheme \<Rightarrow> bool \<times> 'a WorkerNode_scheme" where
  "enqueue_push task n =
     (case TaskQueue_push task (wn_queue n) of
        (True, q) \<Rightarrow> (True, n\<lparr>wn_queue := q\<rparr>)
      | (False, q) \<Rightarrow> (False, WorkerNode_finishTask (task_id task) (n\<lparr>wn_queue := q\<rparr>)))"

definition WorkerNode_enqueueTask :: "Task \<Rightarrow> 'a WorkerNode_scheme \<Rightarrow> bool \<times> 'a WorkerNode_scheme" where
  "WorkerNode_enqueueTask task n =
     (case enqueue_insert task n of
        (False, n1) \<Rightarrow> (True, n1)
      | (True, n1) \<Rightarrow> enqueue_push task n1)"

definition WorkerNode_runningTaskCount :: "'a WorkerNode_scheme \<Rightarrow> int" where
  "WorkerNode_runningTaskCount n = int (card (wn_active n))"

text \<open>The order in which the hash set lists its elements is a parameter.\<close>

definition WorkerNode_snapshotActiveTaskIDs :: "(string set \<Rightarrow> string list) \<Rightarrow> 'a WorkerNode_scheme \<Rightarrow> string list" where
  "WorkerNode_snapshotActiveTaskIDs listing n = listing (wn_active n)"

text \<open>What the heartbeat timer's callback passes to the client, if anything: the count and the ids are read under the lock one after the other, on the
  node as it is then.\<close>

definition heartbeat_callback ::
    "(string set \<Rightarrow> string list) \<Rightarrow> 'a WorkerNode_scheme \<Rightarrow> 'a WorkerNode_scheme \<Rightarrow> (int \<times> string list) option" where
  "heartbeat_callback listing n n' =
     (if wn_running n then Some (WorkerNode_runningTaskCount n, WorkerNode_snapshotActiveTaskIDs listing n') else None)"

definition WorkerNode_workerAddress :: "'a WorkerNode_scheme \<Rightarrow> string" where
  "WorkerNode_workerAddress n = ''127.0.0.1:'' @ int_text (listen_port (wn_config n))"

section \<open>Starting and stopping\<close>

record node_env =
  env_file :: "string option"
  env_listen :: listen_calls
  env_threads :: "nat option"
  env_register :: http_os
  env_heartbeat :: http_os

text \<open>\<open>stop()\<close>, once the threads it joins have ended; \<open>None\<close>: the last heartbeat has not returned.\<close>

definition WorkerNode_stop :: "node_env \<Rightarrow> WorkerNode \<Rightarrow> WorkerNode option" where
  "WorkerNode_stop env n =
     (let was_running = wn_running n;
          n1 = n\<lparr>wn_running := False, wn_timer := Timer_stop (wn_timer n)\<rparr>;
          n2 = n1\<lparr>wn_transport := map_option TcpTransport_stop (wn_transport n1),
                  wn_queue := TaskQueue_stop (wn_queue n1),
                  wn_pool := map_option ThreadPool_stop (wn_pool n1)\<rparr>
      in if was_running \<and> snd (SchedulerClient_sendHeartbeat (env_heartbeat env) 0 [] (wn_client n1)) = None
         then None else Some n2)"

text \<open>The four start functions: \<open>False\<close> is their \<open>std::runtime_error\<close>.\<close>

definition WorkerNode_startTaskServer :: "node_env \<Rightarrow> WorkerNode \<Rightarrow> bool \<times> WorkerNode" where
  "WorkerNode_startTaskServer env n =
     (case TcpTransport_start (env_listen env) (TcpTransport_new (listen_port (wn_config n))) of
        (ok, t) \<Rightarrow> (ok, n\<lparr>wn_transport := Some t\<rparr>))"

text \<open>The consumer tasks are numbered.\<close>

fun enqueue_consumers :: "nat \<Rightarrow> nat ThreadPool \<Rightarrow> bool \<times> nat ThreadPool" where
  "enqueue_consumers 0 p = (True, p)"
| "enqueue_consumers (Suc k) p =
     (case ThreadPool_enqueue k p of
        (False, p1) \<Rightarrow> (False, p1)
      | (True, p1) \<Rightarrow> enqueue_consumers k p1)"

definition WorkerNode_startConsumers :: "node_env \<Rightarrow> WorkerNode \<Rightarrow> bool \<times> WorkerNode" where
  "WorkerNode_startConsumers env n =
     (case ThreadPool_start (env_threads env) (ThreadPool_new (nat (threads (wn_config n)))) of
        (False, p) \<Rightarrow> (False, n\<lparr>wn_pool := Some p\<rparr>)
      | (True, p) \<Rightarrow>
          (case enqueue_consumers (nat (threads (wn_config n))) p of
             (ok, p1) \<Rightarrow> (ok, n\<lparr>wn_pool := Some p1\<rparr>)))"

definition WorkerNode_registerToScheduler :: "node_env \<Rightarrow> WorkerNode \<Rightarrow> bool option" where
  "WorkerNode_registerToScheduler env n =
     snd (SchedulerClient_registerWorker (env_register env) (WorkerNode_workerAddress n) (threads (wn_config n)) (wn_client n))"

definition WorkerNode_startHeartbeat :: "WorkerNode \<Rightarrow> bool \<times> WorkerNode" where
  "WorkerNode_startHeartbeat n =
     (case Timer_start (heartbeat_interval (wn_config n) * 1000) True (wn_timer n) of
        (ok, t) \<Rightarrow> (ok, n\<lparr>wn_timer := t\<rparr>))"

text \<open>The handler of \<open>start()\<close>'s exceptions.\<close>

definition start_failed :: "node_env \<Rightarrow> WorkerNode \<Rightarrow> (bool \<times> WorkerNode) option" where
  "start_failed env n = map_option (\<lambda>n. (False, n)) (WorkerNode_stop env n)"

text \<open>\<open>start()\<close>; \<open>None\<close>: a network call has not returned.\<close>

definition WorkerNode_start :: "node_env \<Rightarrow> WorkerNode \<Rightarrow> (bool \<times> WorkerNode) option" where
  "WorkerNode_start env n =
     (if wn_running n then Some (True, n)
      else case loadConfig (wn_config_path n) (env_file env) (wn_config n) of
        Inl e \<Rightarrow> Some (False, n)
      | Inr config \<Rightarrow>
          (let n1 = n\<lparr>wn_config := config,
                      wn_client := SchedulerClient_configure (scheduler_addr config) (worker_id config) (wn_client n),
                      wn_running := True\<rparr>
           in case WorkerNode_startTaskServer env n1 of
                (False, n2) \<Rightarrow> start_failed env n2
              | (True, n2) \<Rightarrow>
                  (case WorkerNode_startConsumers env n2 of
                     (False, n3) \<Rightarrow> start_failed env n3
                   | (True, n3) \<Rightarrow>
                       (case WorkerNode_registerToScheduler env n3 of
                          None \<Rightarrow> None
                        | Some False \<Rightarrow> start_failed env n3
                        | Some True \<Rightarrow>
                            (case WorkerNode_startHeartbeat n3 of
                               (False, n4) \<Rightarrow> start_failed env n4
                             | (True, n4) \<Rightarrow> Some (True, n4))))))"

section \<open>Lemmas on starting and stopping\<close>

definition transport_up :: "WorkerNode \<Rightarrow> bool" where
  "transport_up n \<longleftrightarrow> (\<exists>t. wn_transport n = Some t \<and> tcp_running t)"

definition pool_up :: "WorkerNode \<Rightarrow> bool" where
  "pool_up n \<longleftrightarrow> (\<exists>p. wn_pool n = Some p \<and> tp_started p)"

text \<open>Nothing of the node runs.\<close>

definition node_down :: "WorkerNode \<Rightarrow> bool" where
  "node_down n \<longleftrightarrow> \<not> wn_running n \<and> \<not> transport_up n \<and> \<not> pool_up n \<and> \<not> timer_running (wn_timer n)"

lemma TcpTransport_stop_down: "\<not> tcp_running (TcpTransport_stop t)"
  by (simp add: TcpTransport_stop_def closeListenSocket_def Let_def)

lemma ThreadPool_stop_down: "\<not> tp_started (ThreadPool_stop p)"
  by (simp add: ThreadPool_stop_def ThreadPool_stop_finish_def)

lemma Timer_stop_down: "\<not> timer_running (Timer_stop t)"
  by (simp add: Timer_stop_def)

lemma WorkerNode_stop_down:
  assumes "WorkerNode_stop env n = Some n'"
  shows "node_down n' \<and> tq_stopped (wn_queue n') \<and> wn_active n' = wn_active n"
  using assms
  by (auto simp: WorkerNode_stop_def Let_def node_down_def transport_up_def pool_up_def TaskQueue_stop_def
      TcpTransport_stop_down ThreadPool_stop_down Timer_stop_down simp del: not_None_eq split: if_splits)

lemma enqueue_consumers_ok:
  "tp_started p \<Longrightarrow> \<not> tp_stopping p \<Longrightarrow> \<exists>p'. enqueue_consumers k p = (True, p') \<and> tp_started p' \<and> length (tp_tasks p') = length (tp_tasks p) + k"
proof (induction k arbitrary: p)
  case (Suc k)
  let ?q = "p\<lparr>tp_tasks := tp_tasks p @ [k], tp_accepted := tp_accepted p @ [k]\<rparr>"
  have "enqueue_consumers (Suc k) p = enqueue_consumers k ?q" using Suc.prems by (simp add: ThreadPool_enqueue_def)
  then show ?case using Suc.IH [of ?q] Suc.prems by simp
qed simp

lemma start_failed_down: "start_failed env n = Some (ok, n') \<Longrightarrow> \<not> ok \<and> node_down n' \<and> tq_stopped (wn_queue n')"
  by (auto simp: start_failed_def dest: WorkerNode_stop_down)

lemma startTaskServer_up:
  assumes "WorkerNode_startTaskServer env n = (True, n')"
  shows "transport_up n' \<and> (\<exists>t. n' = n\<lparr>wn_transport := Some t\<rparr>)"
  using assms
  by (auto simp: WorkerNode_startTaskServer_def TcpTransport_start_def TcpTransport_new_def transport_up_def Let_def
      split: prod.splits if_splits)

lemma startConsumers_up:
  assumes "WorkerNode_startConsumers env n = (True, n')"
  shows "\<exists>p. n' = n\<lparr>wn_pool := Some p\<rparr> \<and> tp_started p \<and> length (tp_tasks p) = nat (threads (wn_config n))"
proof -
  obtain p :: "nat ThreadPool" where p: "ThreadPool_start (env_threads env) (ThreadPool_new (nat (threads (wn_config n)))) = (True, p)"
    using assms by (auto simp: WorkerNode_startConsumers_def split: prod.splits bool.splits)
  then have "tp_started p" "\<not> tp_stopping p" "tp_tasks p = []"
    by (auto simp: ThreadPool_start_def ThreadPool_new_def Let_def split: if_splits option.splits)
  then show ?thesis
    using enqueue_consumers_ok [of p "nat (threads (wn_config n))"] assms p
    by (auto simp: WorkerNode_startConsumers_def)
qed

lemma startHeartbeat_up:
  assumes "WorkerNode_startHeartbeat n = (True, n')"
  shows "\<exists>t. n' = n\<lparr>wn_timer := t\<rparr> \<and> timer_running t"
  using assms by (auto simp: WorkerNode_startHeartbeat_def Timer_start_def split: if_splits)

lemma WorkerNode_start_cases:
  assumes "WorkerNode_start env n = Some (ok, n')" "\<not> wn_running n"
  obtains (unconfigured) "\<not> ok" "n' = n"
    | (failed) m where "start_failed env m = Some (ok, n')"
    | (up) config n1 n2 n3 where "ok" "loadConfig (wn_config_path n) (env_file env) (wn_config n) = Inr config"
        "n1 = n\<lparr>wn_config := config,
           wn_client := SchedulerClient_configure (scheduler_addr config) (worker_id config) (wn_client n),
           wn_running := True\<rparr>"
        "WorkerNode_startTaskServer env n1 = (True, n2)" "WorkerNode_startConsumers env n2 = (True, n3)"
        "WorkerNode_registerToScheduler env n3 = Some True" "WorkerNode_startHeartbeat n3 = (True, n')"
proof (cases "loadConfig (wn_config_path n) (env_file env) (wn_config n)")
  case (Inl e)
  then show thesis using assms unconfigured by (simp add: WorkerNode_start_def)
next
  case (Inr config)
  define n1 where "n1 = n\<lparr>wn_config := config,
    wn_client := SchedulerClient_configure (scheduler_addr config) (worker_id config) (wn_client n), wn_running := True\<rparr>"
  obtain s2 n2 where r2: "WorkerNode_startTaskServer env n1 = (s2, n2)" by (metis surj_pair)
  obtain s3 n3 where r3: "WorkerNode_startConsumers env n2 = (s3, n3)" by (metis surj_pair)
  obtain s4 n4 where r4: "WorkerNode_startHeartbeat n3 = (s4, n4)" by (metis surj_pair)
  note start = assms(1) [unfolded WorkerNode_start_def Let_def Inr n1_def [symmetric] sum.case r2 prod.case r3]
  consider "\<not> s2" | "s2" "\<not> s3" | r where "s2" "s3" "WorkerNode_registerToScheduler env n3 = Some r"
    using start assms(2) by (cases s2; cases s3; cases "WorkerNode_registerToScheduler env n3") simp_all
  then show thesis
  proof cases
    case 3
    show thesis
    proof (cases "r \<and> s4")
      case True
      then have "ok" "n4 = n'" using start assms(2) 3 r4 by simp_all
      then show thesis using up [OF _ Inr n1_def] r2 r3 r4 3 True by simp
    next
      case False
      then show thesis using failed start assms(2) 3 r4 by (cases r) simp_all
    qed
  qed (use start assms(2) failed in simp_all)
qed

section \<open>Properties of starting and stopping\<close>

text \<open>
  C39. Starting a worker is all or nothing: if \<open>start()\<close> reports success, the configuration was read and is in force, the
  task server listens, the pool has one consumer per configured thread, the scheduler has confirmed
  the registration and the heartbeat timer runs; if it reports failure, at whichever step, none of these parts is left
  running.
\<close>

theorem start_all_or_nothing:
  assumes "node_down n" "WorkerNode_start env n = Some (ok, n')"
  shows "if ok
    then loadConfig (wn_config_path n) (env_file env) (wn_config n) = Inr (wn_config n') \<and> wn_running n' \<and>
      transport_up n' \<and> timer_running (wn_timer n') \<and>
      (\<exists>p. wn_pool n' = Some p \<and> tp_started p \<and> length (tp_tasks p) = nat (threads (wn_config n'))) \<and>
      WorkerNode_registerToScheduler env n' = Some True
    else node_down n'"
proof -
  have "\<not> wn_running n" using assms(1) by (simp add: node_down_def)
  with assms(2) show ?thesis
  proof (cases rule: WorkerNode_start_cases)
    case unconfigured
    then show ?thesis using assms(1) by simp
  next
    case (failed m)
    then show ?thesis using start_failed_down [OF failed] by simp
  next
    case (up config n1 n2 n3)
    obtain t where n2: "transport_up n2" "n2 = n1\<lparr>wn_transport := Some t\<rparr>" using startTaskServer_up [OF up(4)] by auto
    obtain p where n3: "n3 = n2\<lparr>wn_pool := Some p\<rparr>" "tp_started p" "length (tp_tasks p) = nat (threads (wn_config n2))"
      using startConsumers_up [OF up(5)] by auto
    obtain tm where n': "n' = n3\<lparr>wn_timer := tm\<rparr>" "timer_running tm" using startHeartbeat_up [OF up(7)] by auto
    have "WorkerNode_registerToScheduler env n' = WorkerNode_registerToScheduler env n3"
      by (simp add: n'(1) WorkerNode_registerToScheduler_def WorkerNode_workerAddress_def)
    then show ?thesis using up n2 n3 n' by (simp add: transport_up_def)
  qed
qed

text \<open>An environment in which the worker starts.\<close>

definition sample_env :: node_env where
  "sample_env =
     \<lparr>env_file = Some worker_yaml, env_listen = \<lparr>rc_socket = 3, rc_setsockopt = 0, rc_bind = 0, rc_listen = 0\<rparr>,
      env_threads = None, env_register = sample_os\<lparr>os_sends := [100000]\<rparr>,
      env_heartbeat = sample_os\<lparr>os_sends := [100000]\<rparr>\<rparr>"

lemma sample_config: "loadConfig ''config/worker.yaml'' (Some worker_yaml) WorkerConfig_default = Inr WorkerConfig_default"
  by code_simp

lemma send_loop_once: "0 \<le> r \<Longrightarrow> length rest \<le> nat r \<Longrightarrow> rest \<noteq> [] \<Longrightarrow> send_loop [r] rest = (rest, Some True)"
  by (cases rest) auto

lemma length_to_string: "length (to_string n) \<le> Suc n"
proof (induction n rule: to_string.induct)
  case (1 n)
  then show ?case by (subst to_string.simps) (cases "n < 10"; simp; linarith)
qed

lemma sample_post:
  assumes "length body \<le> 1000" "length path \<le> 100"
  shows "snd (SchedulerClient_postJSON (sample_os\<lparr>os_sends := [100000]\<rparr>) path body
    \<lparr>sc_scheduler_addr = ''127.0.0.1:8080'', sc_worker_id = ident\<rparr>) = Some 201"
proof -
  have "splitHostPort ''127.0.0.1:8080'' = Some (''127.0.0.1'', ''8080'')" by code_simp
  moreover have "length (http_request path ''127.0.0.1'' ''8080'' body) \<le> nat 100000"
    using assms length_to_string [of "length body"] by (simp add: http_request_def)
  then have "send_loop [100000] (http_request path ''127.0.0.1'' ''8080'' body) =
      (http_request path ''127.0.0.1'' ''8080'' body, Some True)"
    by (intro send_loop_once) (simp_all add: http_request_def)
  moreover have "response_loop (os_recvs sample_os) [] = Payload (''HTTP/1.1 201 Created'' @ [CR, NL])"
    by (simp add: sample_os_def)
  moreover have "response_status (''HTTP/1.1 201 Created'' @ [CR, NL]) = 201" by code_simp
  ultimately show ?thesis by (simp add: SchedulerClient_postJSON_def sample_os_def)
qed

lemma sample_register:
  assumes "wn_config n = WorkerConfig_default" "wn_client n = \<lparr>sc_scheduler_addr = ''127.0.0.1:8080'', sc_worker_id = ''worker-1''\<rparr>"
  shows "WorkerNode_registerToScheduler sample_env n = Some True"
proof -
  have "int_text 9001 = ''9001''" "int_text 4 = ''4''" by (simp_all add: int_text_def to_string.simps digit_chars)
  then have "length (register_body ''worker-1'' (''127.0.0.1:'' @ int_text 9001) 4) \<le> 1000"
    by (simp add: register_body_def escapeJSONString_def escape_char_def)
  then have "snd (SchedulerClient_postJSON (sample_os\<lparr>os_sends := [100000]\<rparr>) ''/workers/register''
      (register_body ''worker-1'' (''127.0.0.1:'' @ int_text 9001) 4)
      \<lparr>sc_scheduler_addr = ''127.0.0.1:8080'', sc_worker_id = ''worker-1''\<rparr>) = Some 201"
    by (rule sample_post) simp
  then show ?thesis using assms
    by (simp add: WorkerNode_registerToScheduler_def SchedulerClient_registerWorker_def sample_env_def
        WorkerConfig_default_def WorkerNode_workerAddress_def case_prod_beta)
qed

text \<open>From any stopped node that has this configuration file.\<close>

lemma sample_start:
  assumes "\<not> wn_running n" "wn_config_path n = ''config/worker.yaml''" "wn_config n = WorkerConfig_default"
  obtains n' where "WorkerNode_start sample_env n = Some (True, n')" "wn_config n' = WorkerConfig_default"
    "wn_config_path n' = wn_config_path n" "wn_queue n' = wn_queue n" "wn_active n' = wn_active n"
    "wn_client n' = \<lparr>sc_scheduler_addr = ''127.0.0.1:8080'', sc_worker_id = ''worker-1''\<rparr>"
proof -
  define n1 where "n1 = n\<lparr>wn_config := WorkerConfig_default,
    wn_client := \<lparr>sc_scheduler_addr = ''127.0.0.1:8080'', sc_worker_id = ''worker-1''\<rparr>, wn_running := True\<rparr>"
  have cl: "SchedulerClient_configure (scheduler_addr WorkerConfig_default) (worker_id WorkerConfig_default) (wn_client n) =
      \<lparr>sc_scheduler_addr = ''127.0.0.1:8080'', sc_worker_id = ''worker-1''\<rparr>"
    by (simp add: SchedulerClient_configure_def WorkerConfig_default_def)
  obtain t where r2: "WorkerNode_startTaskServer sample_env n1 = (True, n1\<lparr>wn_transport := Some t\<rparr>)"
    by (simp add: WorkerNode_startTaskServer_def TcpTransport_start_def TcpTransport_new_def sample_env_def Let_def)
  obtain p where r3: "WorkerNode_startConsumers sample_env (n1\<lparr>wn_transport := Some t\<rparr>) =
      (True, n1\<lparr>wn_transport := Some t, wn_pool := Some p\<rparr>)"
    using enqueue_consumers_ok [of "snd (ThreadPool_start None (ThreadPool_new 4))" 4]
    by (auto simp: WorkerNode_startConsumers_def ThreadPool_start_def ThreadPool_new_def sample_env_def Let_def n1_def
        WorkerConfig_default_def)
  let ?n3 = "n1\<lparr>wn_transport := Some t, wn_pool := Some p\<rparr>"
  have r: "WorkerNode_registerToScheduler sample_env ?n3 = Some True"
    by (rule sample_register) (simp_all add: n1_def)
  obtain tm where r4: "WorkerNode_startHeartbeat ?n3 = (True, ?n3\<lparr>wn_timer := tm\<rparr>)"
    by (simp add: WorkerNode_startHeartbeat_def Timer_start_def n1_def WorkerConfig_default_def)
  have "WorkerNode_start sample_env n = Some (True, ?n3\<lparr>wn_timer := tm\<rparr>)"
    using assms sample_config r2 r3 r r4
    by (simp add: WorkerNode_start_def Let_def cl n1_def [symmetric] sample_env_def [THEN arg_cong [of _ _ env_file]])
  then show thesis by (rule that) (simp_all add: n1_def)
qed

lemma fresh_node_down: "node_down (WorkerNode_new config_path)"
  by (simp add: node_down_def WorkerNode_new_def transport_up_def pool_up_def Timer_new_def)

theorem start_all_or_nothing_witness:
  "\<exists>n. WorkerNode_start sample_env (WorkerNode_new ''config/worker.yaml'') = Some (True, n) \<and>
     transport_up n \<and> timer_running (wn_timer n) \<and> (\<exists>p. wn_pool n = Some p \<and> length (tp_tasks p) = 4)"
proof -
  obtain n where n: "WorkerNode_start sample_env (WorkerNode_new ''config/worker.yaml'') = Some (True, n)"
    "wn_config n = WorkerConfig_default"
    by (rule sample_start [of "WorkerNode_new ''config/worker.yaml''"]) (simp_all add: WorkerNode_new_def)
  show ?thesis
    using start_all_or_nothing [OF fresh_node_down n(1)] n by (auto simp: WorkerConfig_default_def)
qed

lemma sample_stop:
  assumes "wn_client n = \<lparr>sc_scheduler_addr = ''127.0.0.1:8080'', sc_worker_id = ''worker-1''\<rparr>"
  obtains n' where "WorkerNode_stop sample_env n = Some n'" "wn_config_path n' = wn_config_path n" "wn_config n' = wn_config n"
proof -
  have "int_text 0 = ''0''" by (simp add: int_text_def to_string.simps digit_chars)
  then have "length (heartbeat_body ''worker-1'' 0 []) \<le> 1000"
    by (simp add: heartbeat_body_def escapeJSONString_def escape_char_def)
  then have "snd (SchedulerClient_postJSON (sample_os\<lparr>os_sends := [100000]\<rparr>) ''/workers/heartbeat''
      (heartbeat_body ''worker-1'' 0 []) \<lparr>sc_scheduler_addr = ''127.0.0.1:8080'', sc_worker_id = ''worker-1''\<rparr>) = Some 201"
    by (rule sample_post) simp
  then have "snd (SchedulerClient_sendHeartbeat (env_heartbeat sample_env) 0 [] (wn_client n)) \<noteq> None"
    using assms by (simp add: SchedulerClient_sendHeartbeat_def sample_env_def case_prod_beta)
  then show thesis using that by (simp add: WorkerNode_stop_def Let_def del: not_None_eq)
qed

text \<open>
  A worker cannot be restarted: after \<open>stop()\<close>, a second \<open>start()\<close> may report success with every part running,
  but the task queue is still stopped, so every new task is refused and every consumer leaves at once.
\<close>

theorem restarted_node_refuses_tasks:
  assumes "WorkerNode_stop env n0 = Some n1" "WorkerNode_start env' n1 = Some (True, n2)"
  shows "wn_running n2 \<and> transport_up n2 \<and> pool_up n2 \<and> TaskQueue_waitPop others (wn_queue n2) = Some (None, wn_queue n2) \<and>
    (if task_id task \<in> wn_active n2 then WorkerNode_enqueueTask task n2 = (True, n2)
     else WorkerNode_enqueueTask task n2 = (False, n2))"
proof -
  have n1: "\<not> wn_running n1" "tq_stopped (wn_queue n1)"
    using WorkerNode_stop_down [OF assms(1)] by (simp_all add: node_down_def)
  from assms(2) n1(1) have "tq_stopped (wn_queue n2) \<and> wn_running n2 \<and> transport_up n2 \<and> pool_up n2"
  proof (cases rule: WorkerNode_start_cases)
    case (failed m)
    then show ?thesis using start_failed_down [OF failed] by simp
  next
    case (up config m1 m2 m3)
    then show ?thesis
      using startTaskServer_up [OF up(4)] startConsumers_up [OF up(5)] startHeartbeat_up [OF up(7)] n1
      by (auto simp: transport_up_def pool_up_def)
  qed simp
  then show ?thesis
    by (auto simp: TaskQueue_waitPop_def WorkerNode_enqueueTask_def enqueue_insert_def enqueue_push_def TaskQueue_push_def
        WorkerNode_finishTask_def)
qed

theorem restarted_node_refuses_tasks_witness:
  "\<exists>n0 n1 n2. WorkerNode_start sample_env (WorkerNode_new ''config/worker.yaml'') = Some (True, n0) \<and>
     WorkerNode_stop sample_env n0 = Some n1 \<and> WorkerNode_start sample_env n1 = Some (True, n2) \<and>
     WorkerNode_enqueueTask \<lparr>task_id = ''7'', task_prompt = ''p''\<rparr> n2 = (False, n2)"
proof -
  obtain n0 where n0: "WorkerNode_start sample_env (WorkerNode_new ''config/worker.yaml'') = Some (True, n0)"
    "wn_config n0 = WorkerConfig_default" "wn_config_path n0 = ''config/worker.yaml''" "wn_active n0 = {}"
    "wn_client n0 = \<lparr>sc_scheduler_addr = ''127.0.0.1:8080'', sc_worker_id = ''worker-1''\<rparr>"
    by (rule sample_start [of "WorkerNode_new ''config/worker.yaml''"]) (simp_all add: WorkerNode_new_def)
  obtain n1 where n1: "WorkerNode_stop sample_env n0 = Some n1" "wn_config_path n1 = ''config/worker.yaml''"
    "wn_config n1 = WorkerConfig_default"
    by (rule sample_stop [OF n0(5)]) (simp add: n0)
  have "\<not> wn_running n1" "wn_active n1 = {}" using WorkerNode_stop_down [OF n1(1)] n0(4) by (simp_all add: node_down_def)
  then obtain n2 where n2: "WorkerNode_start sample_env n1 = Some (True, n2)" "wn_active n2 = {}"
    using n1 by (auto intro: sample_start [of n1])
  show ?thesis
    using restarted_node_refuses_tasks [OF n1(1) n2(1), of "[]" "\<lparr>task_id = ''7'', task_prompt = ''p''\<rparr>"] n0(1) n1(1) n2 by auto
qed

end
