(* ===== verification/Worker_Node_Run.thy ===== *)
theory Worker_Node_Run
  imports Worker_Node
begin

text \<open>
  The running worker node: the accept thread, which calls the handler of \<open>startTaskServer\<close>, the consumer
  threads of \<open>startConsumers\<close>, and the thread that calls \<open>stop()\<close>, interleaved at the grain of their locked
  blocks and atomic reads. Executing a task and reporting its result are calls that return (they may fail, which is only
  logged). The heartbeat thread reads the active ids and changes nothing. The wait of \<open>run()\<close> and the shutdown
  of \<open>worker/main.cpp\<close> are in \<open>Worker_Main\<close>.
\<close>

section \<open>Threads\<close>

text \<open>The accept thread between clients; with a task for the handler; past its \<open>running_\<close> check; past the locked
  block of \<open>enqueueTask\<close>; ended.\<close>

datatype accept_pc =
    Accepting
  | Handling Task
  | Inserting Task
  | Pushing Task
  | Accept_Ended

text \<open>A consumer at the loop condition; in \<open>waitPop\<close>; executing; reporting; out of the loop.\<close>

datatype consumer_pc =
    At_Head
  | Popping
  | Executing Task
  | Reporting TaskResult Task
  | Consumer_Ended

text \<open>The thread in \<open>stop()\<close>: not yet called; \<open>running_\<close> cleared (timer stop and last heartbeat); the transport's own
  flag cleared; accept thread joined; queue stopped; pool joined.\<close>

datatype stop_pc = Not_Stopping | Flag_Cleared | Transport_Stopping | Transport_Joined | Queue_Stopped | Stop_Done

text \<open>The last three fields are histories: the tasks pushed, the tasks popped, and the reported results.\<close>

record NodeRun = WorkerNode +
  nr_accept :: accept_pc
  nr_consumers :: "consumer_pc list"
  nr_stop :: stop_pc
  nr_pushed :: "Task list"
  nr_popped :: "Task list"
  nr_reported :: "(Task \<times> TaskResult) list"

section \<open>Steps\<close>

text \<open>What the loop condition of the accept thread reads, the transport's \<open>running_\<close>, and where it goes from there.\<close>

definition serving :: "NodeRun \<Rightarrow> bool" where
  "serving s \<longleftrightarrow> nr_stop s \<in> {Not_Stopping, Flag_Cleared}"

definition accept_next :: "NodeRun \<Rightarrow> accept_pc" where
  "accept_next s = (if serving s then Accepting else Accept_Ended)"

text \<open>The handler, called by the accept thread with the task \<open>handleClient\<close> has parsed.\<close>

definition handler_check :: "Task \<Rightarrow> NodeRun \<Rightarrow> NodeRun" where
  "handler_check task s = s\<lparr>nr_accept := (if wn_running s then Inserting task else accept_next s)\<rparr>"

definition handler_insert :: "Task \<Rightarrow> NodeRun \<Rightarrow> NodeRun" where
  "handler_insert task s =
     (case enqueue_insert task s of
        (inserted, s1) \<Rightarrow> s1\<lparr>nr_accept := (if inserted then Pushing task else accept_next s)\<rparr>)"

definition handler_push :: "Task \<Rightarrow> NodeRun \<Rightarrow> NodeRun" where
  "handler_push task s =
     (case enqueue_push task s of
        (queued, s1) \<Rightarrow> s1\<lparr>nr_accept := accept_next s, nr_pushed := nr_pushed s1 @ (if queued then [task] else [])\<rparr>)"

text \<open>A consumer: the loop condition; \<open>waitPop\<close>, which blocks (\<open>None\<close>) while the queue runs and is empty; the rest.\<close>

definition consumer_head :: "nat \<Rightarrow> NodeRun \<Rightarrow> NodeRun" where
  "consumer_head i s = s\<lparr>nr_consumers := (nr_consumers s)[i := (if wn_running s then Popping else Consumer_Ended)]\<rparr>"

definition consumer_pop :: "nat \<Rightarrow> NodeRun \<Rightarrow> NodeRun option" where
  "consumer_pop i s =
     (case TaskQueue_waitPop [] (wn_queue s) of
        None \<Rightarrow> None
      | Some (None, q) \<Rightarrow> Some (s\<lparr>wn_queue := q, nr_consumers := (nr_consumers s)[i := Consumer_Ended]\<rparr>)
      | Some (Some task, q) \<Rightarrow>
          Some (s\<lparr>wn_queue := q, nr_consumers := (nr_consumers s)[i := Executing task], nr_popped := nr_popped s @ [task]\<rparr>))"

definition consumer_execute :: "nat \<Rightarrow> Task \<Rightarrow> NodeRun \<Rightarrow> NodeRun" where
  "consumer_execute i task s = s\<lparr>nr_consumers := (nr_consumers s)[i := Reporting (Executor_execute task) task]\<rparr>"

definition consumer_finish :: "nat \<Rightarrow> TaskResult \<Rightarrow> Task \<Rightarrow> NodeRun \<Rightarrow> NodeRun" where
  "consumer_finish i result task s =
     WorkerNode_finishTask (task_id task)
       (s\<lparr>nr_consumers := (nr_consumers s)[i := At_Head], nr_reported := nr_reported s @ [(task, result)]\<rparr>)"

text \<open>\<open>stop()\<close>: clear the flag; stop the transport and join the accept thread; stop the queue; join the pool, once all
  consumers have left.\<close>

definition stop_flag :: "NodeRun \<Rightarrow> NodeRun" where
  "stop_flag s = s\<lparr>wn_running := False, wn_timer := Timer_stop (wn_timer s), nr_stop := Flag_Cleared\<rparr>"

definition stop_serving :: "NodeRun \<Rightarrow> NodeRun" where
  "stop_serving s = s\<lparr>nr_stop := Transport_Stopping\<rparr>"

definition stop_transport :: "NodeRun \<Rightarrow> NodeRun" where
  "stop_transport s =
     s\<lparr>wn_transport := map_option TcpTransport_stop (wn_transport s), nr_stop := Transport_Joined\<rparr>"

definition stop_queue :: "NodeRun \<Rightarrow> NodeRun" where
  "stop_queue s = s\<lparr>wn_queue := TaskQueue_stop (wn_queue s), nr_stop := Queue_Stopped\<rparr>"

definition stop_pool :: "NodeRun \<Rightarrow> NodeRun" where
  "stop_pool s = s\<lparr>wn_pool := map_option ThreadPool_stop (wn_pool s), nr_stop := Stop_Done\<rparr>"

text \<open>Steps that are the node's own, and the two that come from outside: a client's task and a call of \<open>stop()\<close>.
  Once its socket is closed, \<open>accept\<close> fails, unless a client was already waiting.\<close>

inductive own_step :: "NodeRun \<Rightarrow> NodeRun \<Rightarrow> bool" where
  check: "nr_accept s = Handling task \<Longrightarrow> own_step s (handler_check task s)"
| ins: "nr_accept s = Inserting task \<Longrightarrow> own_step s (handler_insert task s)"
| push: "nr_accept s = Pushing task \<Longrightarrow> own_step s (handler_push task s)"
| head: "i < length (nr_consumers s) \<Longrightarrow> nr_consumers s ! i = At_Head \<Longrightarrow> own_step s (consumer_head i s)"
| pop: "i < length (nr_consumers s) \<Longrightarrow> nr_consumers s ! i = Popping \<Longrightarrow> consumer_pop i s = Some s' \<Longrightarrow> own_step s s'"
| execute: "i < length (nr_consumers s) \<Longrightarrow> nr_consumers s ! i = Executing task \<Longrightarrow> own_step s (consumer_execute i task s)"
| finish: "i < length (nr_consumers s) \<Longrightarrow> nr_consumers s ! i = Reporting result task \<Longrightarrow>
     own_step s (consumer_finish i result task s)"
| serving: "nr_stop s = Flag_Cleared \<Longrightarrow> own_step s (stop_serving s)"
| accept_fails: "\<not> serving s \<Longrightarrow> nr_accept s = Accepting \<Longrightarrow> own_step s (s\<lparr>nr_accept := Accept_Ended\<rparr>)"
| transport: "nr_stop s = Transport_Stopping \<Longrightarrow> nr_accept s = Accept_Ended \<Longrightarrow> own_step s (stop_transport s)"
| queue: "nr_stop s = Transport_Joined \<Longrightarrow> own_step s (stop_queue s)"
| pool: "nr_stop s = Queue_Stopped \<Longrightarrow> \<forall>c \<in> set (nr_consumers s). c = Consumer_Ended \<Longrightarrow> own_step s (stop_pool s)"

inductive node_step :: "NodeRun \<Rightarrow> NodeRun \<Rightarrow> bool" where
  own: "own_step s s' \<Longrightarrow> node_step s s'"
| task: "nr_accept s = Accepting \<Longrightarrow> node_step s (s\<lparr>nr_accept := Handling task\<rparr>)"
| stop: "nr_stop s = Not_Stopping \<Longrightarrow> node_step s (stop_flag s)"

text \<open>A node just started: \<open>threads\<close> consumers that have not begun, nothing queued.\<close>

definition node_started :: "WorkerNode \<Rightarrow> NodeRun" where
  "node_started n =
     WorkerNode.extend n
       \<lparr>nr_accept = Accepting, nr_consumers = replicate (nat (threads (wn_config n))) At_Head, nr_stop = Not_Stopping,
        nr_pushed = [], nr_popped = [], nr_reported = []\<rparr>"

section \<open>The invariant\<close>

text \<open>The tasks a thread is holding.\<close>

fun accept_tasks :: "accept_pc \<Rightarrow> Task list" where
  "accept_tasks (Pushing task) = [task]"
| "accept_tasks _ = []"

fun consumer_tasks :: "consumer_pc \<Rightarrow> Task list" where
  "consumer_tasks (Executing task) = [task]"
| "consumer_tasks (Reporting result task) = [task]"
| "consumer_tasks _ = []"

definition executing :: "NodeRun \<Rightarrow> Task multiset" where
  "executing s = mset (concat (map consumer_tasks (nr_consumers s)))"

text \<open>Every task that was inserted and is not finished.\<close>

definition in_flight :: "NodeRun \<Rightarrow> Task multiset" where
  "in_flight s = mset (accept_tasks (nr_accept s)) + mset (tq_queue (wn_queue s)) + executing s"

definition all_distinct :: "string multiset \<Rightarrow> bool" where
  "all_distinct M \<longleftrightarrow> (\<forall>x. count M x \<le> 1)"

text \<open>The active ids are those of the tasks in flight, each once; pops are in push order; a popped task is held by a
  consumer or reported, with the executor's result; the flag, the queue and the threads agree with the stage of \<open>stop()\<close>.\<close>

definition ids_inv :: "NodeRun \<Rightarrow> bool" where
  "ids_inv s \<longleftrightarrow> all_distinct (image_mset task_id (in_flight s)) \<and> wn_active s = task_id ` set_mset (in_flight s)"

definition tasks_of :: "NodeRun \<Rightarrow> bool" where
  "tasks_of s \<longleftrightarrow>
     nr_pushed s = nr_popped s @ tq_queue (wn_queue s) \<and>
     mset (nr_popped s) = mset (map fst (nr_reported s)) + executing s"

definition results_inv :: "NodeRun \<Rightarrow> bool" where
  "results_inv s \<longleftrightarrow>
     (\<forall>(t, r) \<in> set (nr_reported s). r = Executor_execute t) \<and>
     (\<forall>r t. Reporting r t \<in> set (nr_consumers s) \<longrightarrow> r = Executor_execute t)"

definition stage_inv :: "NodeRun \<Rightarrow> bool" where
  "stage_inv s \<longleftrightarrow>
     (wn_running s \<longleftrightarrow> nr_stop s = Not_Stopping) \<and>
     (tq_stopped (wn_queue s) \<longleftrightarrow> nr_stop s \<in> {Queue_Stopped, Stop_Done}) \<and>
     (nr_accept s = Accept_Ended \<longrightarrow> \<not> serving s) \<and>
     (nr_stop s \<in> {Transport_Joined, Queue_Stopped, Stop_Done} \<longrightarrow> nr_accept s = Accept_Ended) \<and>
     (nr_stop s = Stop_Done \<longrightarrow> (\<forall>c \<in> set (nr_consumers s). c = Consumer_Ended)) \<and>
     (Consumer_Ended \<in> set (nr_consumers s) \<longrightarrow> nr_stop s \<noteq> Not_Stopping)"

section \<open>Every step keeps it\<close>

lemma held_update:
  "i < length cs \<Longrightarrow>
   mset (concat (map consumer_tasks (cs[i := c]))) + mset (consumer_tasks (cs ! i)) =
   mset (concat (map consumer_tasks cs)) + mset (consumer_tasks c)"
proof (induction cs arbitrary: i)
  case (Cons d cs)
  then show ?case by (cases i) (simp_all add: union_ac)
qed simp

lemma executing_same:
  "i < length (nr_consumers s) \<Longrightarrow> consumer_tasks (nr_consumers s ! i) = consumer_tasks c \<Longrightarrow>
   nr_consumers s' = (nr_consumers s)[i := c] \<Longrightarrow> executing s' = executing s"
  using held_update [of i "nr_consumers s" c] by (simp add: executing_def)

lemma executing_taken:
  "i < length (nr_consumers s) \<Longrightarrow> consumer_tasks (nr_consumers s ! i) = [] \<Longrightarrow> consumer_tasks c = [t] \<Longrightarrow>
   nr_consumers s' = (nr_consumers s)[i := c] \<Longrightarrow> executing s' = add_mset t (executing s)"
  using held_update [of i "nr_consumers s" c] by (simp add: executing_def)

lemma executing_released:
  "i < length (nr_consumers s) \<Longrightarrow> consumer_tasks (nr_consumers s ! i) = [t] \<Longrightarrow> consumer_tasks c = [] \<Longrightarrow>
   nr_consumers s' = (nr_consumers s)[i := c] \<Longrightarrow> executing s = add_mset t (executing s')"
  using held_update [of i "nr_consumers s" c] by (simp add: executing_def)

lemmas step_defs = handler_check_def handler_insert_def handler_push_def consumer_head_def consumer_execute_def
  consumer_finish_def stop_flag_def stop_serving_def stop_transport_def accept_next_def stop_queue_def stop_pool_def

lemma consumer_pop_cases:
  assumes "consumer_pop i s = Some s'"
  obtains (stopped) "tq_stopped (wn_queue s)" "s' = s\<lparr>nr_consumers := (nr_consumers s)[i := Consumer_Ended]\<rparr>"
    | (popped) task rest where "\<not> tq_stopped (wn_queue s)" "tq_queue (wn_queue s) = task # rest"
        "s' = s\<lparr>wn_queue := (wn_queue s)\<lparr>tq_queue := rest\<rparr>, nr_consumers := (nr_consumers s)[i := Executing task],
               nr_popped := nr_popped s @ [task]\<rparr>"
proof (cases "tq_stopped (wn_queue s)")
  case True
  then show thesis using assms stopped by (simp add: consumer_pop_def TaskQueue_waitPop_def)
next
  case False
  then show thesis
    using assms popped by (cases "tq_queue (wn_queue s)") (simp_all add: consumer_pop_def TaskQueue_waitPop_def)
qed

text \<open>The tasks consumers hold after each of their steps.\<close>

lemma executing_head:
  "i < length (nr_consumers s) \<Longrightarrow> nr_consumers s ! i = At_Head \<Longrightarrow> executing (consumer_head i s) = executing s"
  by (intro executing_same [of i s]) (simp_all add: consumer_head_def)

lemma executing_execute:
  "i < length (nr_consumers s) \<Longrightarrow> nr_consumers s ! i = Executing task \<Longrightarrow>
   executing (consumer_execute i task s) = executing s"
  by (intro executing_same [of i s]) (simp_all add: consumer_execute_def)

lemma executing_finish:
  "i < length (nr_consumers s) \<Longrightarrow> nr_consumers s ! i = Reporting result task \<Longrightarrow>
   executing s = add_mset task (executing (consumer_finish i result task s))"
  by (intro executing_released [of i s]) (simp_all add: consumer_finish_def WorkerNode_finishTask_def)

lemma executing_pop:
  assumes "i < length (nr_consumers s)" "nr_consumers s ! i = Popping" "consumer_pop i s = Some s'"
  shows "executing s' + mset (tq_queue (wn_queue s')) = executing s + mset (tq_queue (wn_queue s)) \<and>
    nr_popped s' @ tq_queue (wn_queue s') = nr_popped s @ tq_queue (wn_queue s) \<and>
    mset (nr_popped s') + executing s = mset (nr_popped s) + executing s' \<and>
    wn_active s' = wn_active s \<and> nr_accept s' = nr_accept s \<and> nr_reported s' = nr_reported s \<and> nr_pushed s' = nr_pushed s"
  using assms(3)
proof (cases rule: consumer_pop_cases)
  case stopped
  have "executing s' = executing s"
    using assms(1,2) stopped by (intro executing_same [of i s]) simp_all
  then show ?thesis using stopped by simp
next
  case (popped task rest)
  have "executing s' = add_mset task (executing s)"
    using assms(1,2) popped by (intro executing_taken [of i s]) simp_all
  then show ?thesis using popped by simp
qed

text \<open>What a step does to the tasks in flight and the active ids: nothing, add a new one, or remove one.\<close>

lemma own_step_flight:
  assumes "own_step s s'"
  shows "(in_flight s' = in_flight s \<and> wn_active s' = wn_active s) \<or>
    (\<exists>t. in_flight s' = add_mset t (in_flight s) \<and> task_id t \<notin> wn_active s \<and>
       wn_active s' = insert (task_id t) (wn_active s)) \<or>
    (\<exists>t. in_flight s = add_mset t (in_flight s') \<and> wn_active s' = wn_active s - {task_id t})"
  using assms
proof (cases rule: own_step.cases)
  case (ins task)
  then show ?thesis
    by (cases "task_id task \<in> wn_active s")
      (simp_all add: handler_insert_def accept_next_def enqueue_insert_def in_flight_def executing_def)
next
  case (push task)
  then show ?thesis
    by (cases "tq_stopped (wn_queue s)")
      (simp_all add: handler_push_def accept_next_def enqueue_push_def TaskQueue_push_def WorkerNode_finishTask_def in_flight_def executing_def)
next
  case (head i)
  then show ?thesis using executing_head [OF head(2,3)] by (simp add: in_flight_def) (simp add: consumer_head_def)
next
  case (pop i)
  then show ?thesis using executing_pop [OF pop] by (simp add: in_flight_def union_ac)
next
  case (execute i task)
  then show ?thesis using executing_execute [OF execute(2,3)] by (simp add: in_flight_def) (simp add: consumer_execute_def)
next
  case (finish i result task)
  then show ?thesis using executing_finish [OF finish(2,3)]
    by (simp add: in_flight_def) (simp add: consumer_finish_def WorkerNode_finishTask_def)
qed (simp_all add: step_defs in_flight_def executing_def TaskQueue_stop_def)

lemma all_distinct_add: "all_distinct (add_mset x M) \<longleftrightarrow> all_distinct M \<and> x \<notin># M"
proof
  assume distinct: "all_distinct (add_mset x M)"
  have "count M x \<le> 0" using distinct unfolding all_distinct_def by (metis Suc_le_mono count_add_mset One_nat_def)
  moreover have "count M y \<le> 1" for y
    using distinct unfolding all_distinct_def by (metis Suc_leD count_add_mset)
  ultimately show "all_distinct M \<and> x \<notin># M" by (simp add: all_distinct_def not_in_iff)
qed (auto simp: all_distinct_def not_in_iff)

lemma own_step_ids:
  assumes "own_step s s'" "ids_inv s"
  shows "ids_inv s'"
  using own_step_flight [OF assms(1)]
proof (elim disjE exE conjE)
  fix t assume "in_flight s = add_mset t (in_flight s')" "wn_active s' = wn_active s - {task_id t}"
  then show ?thesis using assms(2) by (auto simp: ids_inv_def all_distinct_add)
next
  fix t assume "in_flight s' = add_mset t (in_flight s)" "task_id t \<notin> wn_active s"
    "wn_active s' = insert (task_id t) (wn_active s)"
  then show ?thesis using assms(2) by (auto simp: ids_inv_def all_distinct_add)
qed (use assms(2) in \<open>simp add: ids_inv_def\<close>)

lemma own_step_tasks:
  assumes "own_step s s'" "tasks_of s"
  shows "tasks_of s'"
  using assms(1)
proof (cases rule: own_step.cases)
  case (ins task)
  then show ?thesis using assms(2)
    by (cases "task_id task \<in> wn_active s") (simp_all add: handler_insert_def accept_next_def enqueue_insert_def tasks_of_def executing_def)
next
  case (push task)
  then show ?thesis using assms(2)
    by (cases "tq_stopped (wn_queue s)")
      (simp_all add: handler_push_def accept_next_def enqueue_push_def TaskQueue_push_def WorkerNode_finishTask_def tasks_of_def executing_def)
next
  case (head i)
  then show ?thesis using executing_head [OF head(2,3)] assms(2)
    by (simp add: tasks_of_def) (simp add: consumer_head_def)
next
  case (pop i)
  then show ?thesis using executing_pop [OF pop] assms(2) by (auto simp: tasks_of_def union_ac)
next
  case (execute i task)
  then show ?thesis using executing_execute [OF execute(2,3)] assms(2)
    by (simp add: tasks_of_def) (simp add: consumer_execute_def)
next
  case (finish i result task)
  then show ?thesis using executing_finish [OF finish(2,3)] assms(2)
    by (simp add: tasks_of_def) (simp add: consumer_finish_def WorkerNode_finishTask_def)
qed (use assms(2) in \<open>simp_all add: step_defs tasks_of_def executing_def TaskQueue_stop_def\<close>)

lemma set_update: "x \<in> set (cs[i := c]) \<Longrightarrow> x = c \<or> x \<in> set cs"
  by (meson insertE set_update_subset_insert subsetD)

lemma own_step_results:
  assumes "own_step s s'" "results_inv s"
  shows "results_inv s'"
  using assms(1)
proof (cases rule: own_step.cases)
  case (ins task)
  then show ?thesis using assms(2)
    by (cases "task_id task \<in> wn_active s") (simp_all add: handler_insert_def accept_next_def enqueue_insert_def results_inv_def)
next
  case (push task)
  then show ?thesis using assms(2)
    by (cases "tq_stopped (wn_queue s)")
      (simp_all add: handler_push_def accept_next_def enqueue_push_def TaskQueue_push_def WorkerNode_finishTask_def results_inv_def)
next
  case (head i)
  then show ?thesis using assms(2) by (auto simp: consumer_head_def results_inv_def dest!: set_update)
next
  case (pop i)
  from pop(3) show ?thesis
    using assms(2) pop(1) by (cases rule: consumer_pop_cases) (auto simp: results_inv_def dest!: set_update)
next
  case (execute i task)
  then show ?thesis using assms(2) by (auto simp: consumer_execute_def results_inv_def dest!: set_update)
next
  case (finish i result task)
  then have "result = Executor_execute task" using assms(2) by (metis results_inv_def nth_mem)
  then show ?thesis using finish assms(2)
    by (auto simp: consumer_finish_def WorkerNode_finishTask_def results_inv_def dest!: set_update)
qed (use assms(2) in \<open>simp_all add: step_defs results_inv_def\<close>)

lemma own_step_stage:
  assumes "own_step s s'" "stage_inv s"
  shows "stage_inv s'"
  using assms(1)
proof (cases rule: own_step.cases)
  case (ins task)
  then show ?thesis using assms(2)
    by (cases "task_id task \<in> wn_active s") (auto simp: handler_insert_def accept_next_def enqueue_insert_def stage_inv_def serving_def)
next
  case (push task)
  then show ?thesis using assms(2)
    by (cases "tq_stopped (wn_queue s)")
      (auto simp: handler_push_def accept_next_def enqueue_push_def TaskQueue_push_def WorkerNode_finishTask_def stage_inv_def serving_def)
next
  case (head i)
  then have "At_Head \<in> set (nr_consumers s)" by (metis nth_mem)
  then show ?thesis using assms(2) head by (auto simp: consumer_head_def stage_inv_def serving_def dest!: set_update)
next
  case (pop i)
  then have "Popping \<in> set (nr_consumers s)" by (metis nth_mem)
  with pop(3) show ?thesis
    using assms(2) pop(1) by (cases rule: consumer_pop_cases) (auto simp: stage_inv_def serving_def dest!: set_update)
next
  case (execute i task)
  then have "Executing task \<in> set (nr_consumers s)" by (metis nth_mem)
  then show ?thesis using assms(2) execute by (auto simp: consumer_execute_def stage_inv_def serving_def dest!: set_update)
next
  case (finish i result task)
  then have "Reporting result task \<in> set (nr_consumers s)" by (metis nth_mem)
  then show ?thesis using finish assms(2)
    by (auto simp: consumer_finish_def WorkerNode_finishTask_def stage_inv_def serving_def dest!: set_update)
qed (use assms(2) in \<open>auto simp: step_defs stage_inv_def serving_def TaskQueue_stop_def\<close>)

definition node_inv :: "NodeRun \<Rightarrow> bool" where
  "node_inv s \<longleftrightarrow> ids_inv s \<and> tasks_of s \<and> results_inv s \<and> stage_inv s"

lemma node_step_inv:
  assumes "node_step s s'" "node_inv s"
  shows "node_inv s'"
  using assms(1)
proof (cases rule: node_step.cases)
  case own
  then show ?thesis
    using assms(2) own_step_ids own_step_tasks own_step_results own_step_stage unfolding node_inv_def by blast
qed (use assms(2) in \<open>auto simp: node_inv_def ids_inv_def tasks_of_def results_inv_def stage_inv_def serving_def in_flight_def
      executing_def stop_flag_def\<close>)

lemma node_steps_inv: "node_step\<^sup>*\<^sup>* s s' \<Longrightarrow> node_inv s \<Longrightarrow> node_inv s'"
  by (induction rule: rtranclp_induct) (auto intro: node_step_inv)

text \<open>A run of a fresh node after a successful \<open>start()\<close>. Steps of the other threads while \<open>start()\<close> still registers
  the worker neither use nor change what the rest of it does, so the run may as well begin at its end.\<close>

definition node_run :: "node_env \<Rightarrow> string \<Rightarrow> WorkerNode \<Rightarrow> NodeRun \<Rightarrow> bool" where
  "node_run env config_path n s \<longleftrightarrow>
     WorkerNode_start env (WorkerNode_new config_path) = Some (True, n) \<and> node_step\<^sup>*\<^sup>* (node_started n) s"

lemma started_fields:
  assumes "WorkerNode_start env (WorkerNode_new config_path) = Some (True, n)"
  shows "wn_running n" "wn_queue n = TaskQueue_new" "wn_active n = {}"
proof -
  have "\<not> wn_running (WorkerNode_new config_path)" by (simp add: WorkerNode_new_def)
  with assms have "wn_running n \<and> wn_queue n = TaskQueue_new \<and> wn_active n = {}"
  proof (cases rule: WorkerNode_start_cases)
    case (failed m)
    then show ?thesis using start_failed_down [OF failed] by simp
  next
    case (up config n1 n2 n3)
    then show ?thesis
      using startTaskServer_up [OF up(4)] startConsumers_up [OF up(5)] startHeartbeat_up [OF up(7)]
      by (auto simp: WorkerNode_new_def)
  qed simp
  then show "wn_running n" "wn_queue n = TaskQueue_new" "wn_active n = {}" by simp_all
qed

lemma node_run_inv:
  assumes "node_run env config_path n s"
  shows "node_inv s"
proof -
  have "node_inv (node_started n)"
    using started_fields [of env config_path n] assms
    by (auto simp: node_run_def node_started_def WorkerNode.defs node_inv_def ids_inv_def tasks_of_def results_inv_def
        stage_inv_def serving_def in_flight_def executing_def all_distinct_def TaskQueue_new_def)
  moreover have "node_step\<^sup>*\<^sup>* (node_started n) s" using assms by (simp add: node_run_def)
  ultimately show ?thesis by (rule node_steps_inv [rotated])
qed

section \<open>Termination of stop\<close>

fun accept_weight :: "accept_pc \<Rightarrow> nat" where
  "accept_weight Accepting = 4"
| "accept_weight (Handling _) = 3"
| "accept_weight (Inserting _) = 2"
| "accept_weight (Pushing _) = 1"
| "accept_weight Accept_Ended = 0"

fun consumer_weight :: "consumer_pc \<Rightarrow> nat" where
  "consumer_weight Popping = 4"
| "consumer_weight (Executing _) = 3"
| "consumer_weight (Reporting _ _) = 2"
| "consumer_weight At_Head = 1"
| "consumer_weight Consumer_Ended = 0"

fun stop_weight :: "stop_pc \<Rightarrow> nat" where
  "stop_weight Transport_Stopping = 3"
| "stop_weight Transport_Joined = 2"
| "stop_weight Queue_Stopped = 1"
| "stop_weight _ = 0"

text \<open>A bound on the steps left once the transport is stopping.\<close>

definition node_weight :: "NodeRun \<Rightarrow> nat" where
  "node_weight s =
     accept_weight (nr_accept s) + sum_list (map consumer_weight (nr_consumers s)) + stop_weight (nr_stop s)"

lemma consumer_weight_update:
  "i < length cs \<Longrightarrow> consumer_weight c < consumer_weight (cs ! i) \<Longrightarrow>
   sum_list (map consumer_weight (cs[i := c])) < sum_list (map consumer_weight cs)"
proof (induction cs arbitrary: i)
  case (Cons d cs)
  then show ?case by (cases i) simp_all
qed simp

lemma node_weight_consumer:
  assumes "i < length (nr_consumers s)" "consumer_weight c < consumer_weight (nr_consumers s ! i)"
    "nr_consumers s' = (nr_consumers s)[i := c]" "nr_accept s' = nr_accept s" "nr_stop s' = nr_stop s"
  shows "node_weight s' < node_weight s"
  using consumer_weight_update [OF assms(1,2)] assms(3-5) by (simp add: node_weight_def)

lemma node_step_weight:
  assumes "node_step s s'" "stage_inv s" "\<not> serving s"
  shows "node_weight s' < node_weight s \<and> \<not> serving s' \<and> length (nr_consumers s') = length (nr_consumers s)"
  using assms(1)
proof (cases rule: node_step.cases)
  case own
  have off: "\<not> wn_running s" using assms(2,3) by (auto simp: stage_inv_def serving_def)
  from own show ?thesis
  proof (cases rule: own_step.cases)
    case (ins task)
    then show ?thesis using assms(3)
      by (cases "task_id task \<in> wn_active s") (simp_all add: handler_insert_def accept_next_def enqueue_insert_def node_weight_def serving_def)
  next
    case (push task)
    then show ?thesis using assms(3)
      by (cases "tq_stopped (wn_queue s)") (simp_all add: handler_push_def accept_next_def enqueue_push_def TaskQueue_push_def
          WorkerNode_finishTask_def node_weight_def serving_def)
  next
    case (head i)
    then have "node_weight s' < node_weight s"
      using off by (intro node_weight_consumer [of i s Consumer_Ended]) (simp_all add: consumer_head_def)
    then show ?thesis using head assms(3) by (simp add: consumer_head_def serving_def)
  next
    case (pop i)
    from pop(3) show ?thesis
    proof (cases rule: consumer_pop_cases)
      case stopped
      have "node_weight s' < node_weight s"
        using stopped pop by (intro node_weight_consumer [of i s Consumer_Ended]) simp_all
      then show ?thesis using stopped assms(3) by (simp add: serving_def)
    next
      case (popped task rest)
      have "node_weight s' < node_weight s"
        using popped pop by (intro node_weight_consumer [of i s "Executing task"]) simp_all
      then show ?thesis using popped assms(3) by (simp add: serving_def)
    qed
  next
    case (execute i task)
    then have "node_weight s' < node_weight s"
      by (intro node_weight_consumer [of i s "Reporting (Executor_execute task) task"]) (simp_all add: consumer_execute_def)
    then show ?thesis using execute assms(3) by (simp add: consumer_execute_def serving_def)
  next
    case (finish i result task)
    then have "node_weight s' < node_weight s"
      by (intro node_weight_consumer [of i s At_Head]) (simp_all add: consumer_finish_def WorkerNode_finishTask_def)
    then show ?thesis using finish assms(3) by (simp add: consumer_finish_def WorkerNode_finishTask_def serving_def)
  qed (use assms(3) off in \<open>simp_all add: step_defs node_weight_def serving_def\<close>)
qed (use assms(3) in \<open>simp_all add: node_weight_def serving_def\<close>)

lemma stop_progress:
  assumes "stage_inv s" "nr_stop s \<noteq> Not_Stopping" "nr_stop s \<noteq> Stop_Done"
  shows "\<exists>s'. own_step s s'"
proof (cases "nr_stop s")
  case Transport_Stopping
  then have "\<not> serving s" by (simp add: serving_def)
  then show ?thesis
    by (cases "nr_accept s") (use Transport_Stopping in \<open>blast intro: own_step.intros\<close>)+
next
  case Queue_Stopped
  show ?thesis
  proof (cases "\<forall>c \<in> set (nr_consumers s). c = Consumer_Ended")
    case True
    then show ?thesis using Queue_Stopped by (blast intro: own_step.intros)
  next
    case False
    then obtain i where i: "i < length (nr_consumers s)" "nr_consumers s ! i \<noteq> Consumer_Ended" by (metis in_set_conv_nth)
    have "tq_stopped (wn_queue s)" using assms(1) Queue_Stopped by (simp add: stage_inv_def)
    then have "\<exists>s'. consumer_pop i s = Some s'" by (simp add: consumer_pop_def TaskQueue_waitPop_def)
    then show ?thesis
      using i by (cases "nr_consumers s ! i") (blast intro: own_step.intros)+
  qed
qed (use assms in \<open>blast intro: own_step.intros\<close>)+

lemma own_step_consumers: "own_step s s' \<Longrightarrow> length (nr_consumers s') = length (nr_consumers s)"
proof (induction rule: own_step.induct)
  case (pop i s s')
  from pop(3) show ?case by (cases rule: consumer_pop_cases) simp_all
qed (simp_all add: step_defs enqueue_insert_def enqueue_push_def TaskQueue_push_def WorkerNode_finishTask_def)

lemma node_run_consumers:
  assumes "node_run env config_path n s"
  shows "length (nr_consumers s) = nat (threads (wn_config n))"
proof -
  have "node_step\<^sup>*\<^sup>* (node_started n) s" using assms by (simp add: node_run_def)
  then show ?thesis
  proof (induction rule: rtranclp_induct)
    case base
    show ?case by (simp add: node_started_def WorkerNode.defs)
  next
    case (step s s')
    then show ?case by (auto simp: stop_flag_def own_step_consumers elim: node_step.cases)
  qed
qed

lemma node_weight_bound: "node_weight s \<le> 4 * length (nr_consumers s) + 7"
proof -
  have "consumer_weight c \<le> 4" for c by (cases c) simp_all
  then have "sum_list (map consumer_weight cs) \<le> 4 * length cs" for cs
  proof (induction cs)
    case (Cons c cs)
    have "consumer_weight c \<le> 4" "sum_list (map consumer_weight cs) \<le> 4 * length cs" using Cons by blast+
    then show ?case by simp
  qed simp
  from this [of "nr_consumers s"] have "sum_list (map consumer_weight (nr_consumers s)) \<le> 4 * length (nr_consumers s)" .
  moreover have "accept_weight (nr_accept s) \<le> 4" by (cases "nr_accept s") simp_all
  moreover have "stop_weight (nr_stop s) \<le> 3" by (cases "nr_stop s") simp_all
  ultimately show ?thesis unfolding node_weight_def by linarith
qed

lemma steps_bounded:
  assumes "(node_step ^^ k) s s'" "node_inv s" "\<not> serving s"
  shows "k + node_weight s' \<le> node_weight s"
  using assms
proof (induction k arbitrary: s)
  case (Suc k)
  from Suc.prems(1) obtain s1 where s1: "node_step s s1" "(node_step ^^ k) s1 s'" by (metis relpowp_Suc_E2)
  have "stage_inv s" using Suc.prems(2) by (simp add: node_inv_def)
  then have "node_weight s1 < node_weight s" "\<not> serving s1" using node_step_weight s1(1) Suc.prems(3) by blast+
  moreover have "node_inv s1" using node_step_inv [OF s1(1) Suc.prems(2)] .
  ultimately show ?case using Suc.IH [OF s1(2)] by simp
qed simp

section \<open>A worker that is left alone becomes idle\<close>

fun accept_load :: "accept_pc \<Rightarrow> nat" where
  "accept_load (Handling _) = 8"
| "accept_load (Inserting _) = 7"
| "accept_load (Pushing _) = 6"
| "accept_load _ = 0"

fun consumer_load :: "consumer_pc \<Rightarrow> nat" where
  "consumer_load (Executing _) = 3"
| "consumer_load (Reporting _ _) = 2"
| "consumer_load At_Head = 1"
| "consumer_load _ = 0"

text \<open>A bound on the steps a worker that is not stopping makes on its own.\<close>

definition node_load :: "NodeRun \<Rightarrow> nat" where
  "node_load s = accept_load (nr_accept s) + 5 * length (tq_queue (wn_queue s)) + sum_list (map consumer_load (nr_consumers s))"

definition node_idle :: "NodeRun \<Rightarrow> bool" where
  "node_idle s \<longleftrightarrow>
     nr_stop s = Not_Stopping \<and> nr_accept s = Accepting \<and> tq_queue (wn_queue s) = [] \<and> list_all (\<lambda>c. c = Popping) (nr_consumers s)"

lemma consumer_load_update:
  "i < length cs \<Longrightarrow>
   sum_list (map consumer_load (cs[i := c])) + consumer_load (cs ! i) = sum_list (map consumer_load cs) + consumer_load c"
proof (induction cs arbitrary: i)
  case (Cons d cs)
  then show ?case by (cases i) simp_all
qed simp

lemma own_step_load:
  assumes "own_step s s'" "stage_inv s" "nr_stop s = Not_Stopping"
  shows "node_load s' < node_load s \<and> nr_stop s' = Not_Stopping"
  using assms(1)
proof (cases rule: own_step.cases)
  case (check task)
  then show ?thesis using assms(2,3) by (simp add: handler_check_def node_load_def stage_inv_def)
next
  case (ins task)
  then show ?thesis using assms(3)
    by (cases "task_id task \<in> wn_active s") (simp_all add: handler_insert_def accept_next_def enqueue_insert_def node_load_def serving_def)
next
  case (push task)
  have "\<not> tq_stopped (wn_queue s)" using assms(2,3) by (simp add: stage_inv_def)
  then show ?thesis using push assms(3)
    by (simp add: handler_push_def accept_next_def enqueue_push_def TaskQueue_push_def node_load_def serving_def)
next
  case (head i)
  then show ?thesis using consumer_load_update [OF head(2), of Popping] assms(2,3)
    by (simp add: consumer_head_def node_load_def stage_inv_def)
next
  case (pop i)
  from pop(3) show ?thesis
  proof (cases rule: consumer_pop_cases)
    case stopped
    then show ?thesis using assms(2,3) by (simp add: stage_inv_def)
  next
    case (popped task rest)
    then show ?thesis using consumer_load_update [OF pop(1), of "Executing task"] pop(2) assms(3) by (simp add: node_load_def)
  qed
next
  case (execute i task)
  then show ?thesis using consumer_load_update [OF execute(2), of "Reporting (Executor_execute task) task"] assms(3)
    by (simp add: consumer_execute_def node_load_def)
next
  case (finish i result task)
  then show ?thesis using consumer_load_update [OF finish(2), of At_Head] assms(3)
    by (simp add: consumer_finish_def WorkerNode_finishTask_def node_load_def)
qed (use assms(3) in \<open>simp_all add: serving_def\<close>)

lemma load_progress:
  assumes "stage_inv s" "nr_stop s = Not_Stopping" "nr_consumers s \<noteq> []" "\<not> node_idle s"
  shows "\<exists>s'. own_step s s'"
proof (cases "nr_accept s = Accepting")
  case False
  moreover have "nr_accept s \<noteq> Accept_Ended" using assms(1,2) by (auto simp: stage_inv_def serving_def)
  ultimately show ?thesis by (cases "nr_accept s") (blast intro: own_step.intros)+
next
  case accepting: True
  show ?thesis
  proof (cases "list_all (\<lambda>c. c = Popping) (nr_consumers s)")
    case False
    then obtain i where i: "i < length (nr_consumers s)" "nr_consumers s ! i \<noteq> Popping" by (auto simp: list_all_length)
    moreover have "nr_consumers s ! i \<noteq> Consumer_Ended" using assms(1,2) i(1) nth_mem by (fastforce simp: stage_inv_def)
    ultimately show ?thesis by (cases "nr_consumers s ! i") (blast intro: own_step.intros)+
  next
    case True
    then have "0 < length (nr_consumers s)" "nr_consumers s ! 0 = Popping" using assms(3) by (simp_all add: list_all_length)
    moreover obtain task rest where "tq_queue (wn_queue s) = task # rest"
      using assms(2,4) accepting True by (cases "tq_queue (wn_queue s)") (simp_all add: node_idle_def)
    moreover have "\<not> tq_stopped (wn_queue s)" using assms(1,2) by (simp add: stage_inv_def)
    ultimately have "\<exists>s'. consumer_pop 0 s = Some s'" by (simp add: consumer_pop_def TaskQueue_waitPop_def)
    then show ?thesis using \<open>0 < length (nr_consumers s)\<close> \<open>nr_consumers s ! 0 = Popping\<close> own_step.pop by blast
  qed
qed

lemma node_goes_idle:
  assumes "node_inv s" "nr_stop s = Not_Stopping" "nr_consumers s \<noteq> []"
  obtains s' where "own_step\<^sup>*\<^sup>* s s'" "node_inv s'" "node_idle s'" "length (nr_consumers s') = length (nr_consumers s)"
  using assms
proof (induction "node_load s" arbitrary: s thesis rule: less_induct)
  case less
  have stage: "stage_inv s" using less.prems(2) by (simp add: node_inv_def)
  show ?case
  proof (cases "node_idle s")
    case True
    then show ?thesis using less.prems by blast
  next
    case False
    then obtain u where u: "own_step s u" using load_progress [OF stage less.prems(3,4)] by blast
    note load = own_step_load [OF u stage less.prems(3)]
    have inv: "node_inv u" "length (nr_consumers u) = length (nr_consumers s)"
      using node_step_inv [OF node_step.own [OF u] less.prems(2)] own_step_consumers [OF u] by simp_all
    then have "nr_consumers u \<noteq> []" using less.prems(4) by auto
    from less.hyps [OF conjunct1 [OF load] _ inv(1) conjunct2 [OF load] this] obtain s' where
      "own_step\<^sup>*\<^sup>* u s'" "node_inv s'" "node_idle s'" "length (nr_consumers s') = length (nr_consumers u)" by blast
    then show ?thesis using less.prems(1) u inv(2) by (metis converse_rtranclp_into_rtranclp)
  qed
qed

lemma idle_active: "node_inv s \<Longrightarrow> node_idle s \<Longrightarrow> wn_active s = {}"
proof -
  assume inv: "node_inv s" and idle: "node_idle s"
  have "\<forall>c \<in> set (nr_consumers s). consumer_tasks c = []" using idle by (auto simp: node_idle_def list_all_iff)
  then have "in_flight s = {#}" using idle by (simp add: in_flight_def executing_def node_idle_def)
  then show ?thesis using inv by (simp add: node_inv_def ids_inv_def)
qed

section \<open>Heartbeats\<close>

text \<open>A heartbeat between whose two reads no thread moves carries the tasks in flight, and their number.\<close>

lemma heartbeat_exact:
  assumes "node_inv s" "\<And>S. finite S \<Longrightarrow> set (listing S) = S \<and> distinct (listing S)" "heartbeat_callback listing s s = Some (running, ids)"
  shows "set ids = task_id ` set_mset (in_flight s)" "running = int (length ids)"
proof -
  have active: "wn_active s = task_id ` set_mset (in_flight s)" using assms(1) by (simp add: node_inv_def ids_inv_def)
  then have ids: "ids = listing (wn_active s)" "set ids = wn_active s" "distinct ids" and running: "running = int (card (wn_active s))"
    using assms(2) [of "wn_active s"] assms(3)
    by (auto simp: heartbeat_callback_def WorkerNode_snapshotActiveTaskIDs_def WorkerNode_runningTaskCount_def split: if_splits)
  show "set ids = task_id ` set_mset (in_flight s)" using ids(2) active by simp
  show "running = int (length ids)" using ids running distinct_card by fastforce
qed

section \<open>Properties\<close>

lemma all_distinct_size: "all_distinct M \<Longrightarrow> card (set_mset M) = size M"
  by (induction M) (auto simp: all_distinct_add)

lemma held_by_two:
  assumes "i < j" "j < length cs" "t \<in> set (consumer_tasks (cs ! i))" "u \<in> set (consumer_tasks (cs ! j))"
  shows "{#t, u#} \<subseteq># mset (concat (map consumer_tasks cs))"
proof -
  have "cs = take j cs @ cs ! j # drop (Suc j) cs" using assms(2) by (rule id_take_nth_drop)
  then have split: "concat (map consumer_tasks cs) =
      concat (map consumer_tasks (take j cs)) @ consumer_tasks (cs ! j) @ concat (map consumer_tasks (drop (Suc j) cs))"
    by (metis concat.simps(2) concat_append list.simps(9) map_append)
  have "cs ! i \<in> set (take j cs)" using assms(1,2) by (metis in_set_conv_nth length_take min.absorb4 nth_take)
  then have "t \<in> set (concat (map consumer_tasks (take j cs)))" using assms(3) by auto
  then have "{#t#} \<subseteq># mset (concat (map consumer_tasks (take j cs)))" by (simp add: single_subset_iff)
  moreover have "{#u#} \<subseteq># mset (consumer_tasks (cs ! j))" using assms(4) by (simp add: single_subset_iff)
  ultimately have "{#t#} + {#u#} \<subseteq># mset (concat (map consumer_tasks (take j cs))) + mset (consumer_tasks (cs ! j))"
    by (rule subset_mset.add_mono)
  then show ?thesis unfolding split by (simp add: subset_mset.add_increasing2 add_mset_commute flip: add.assoc)
qed

text \<open>
  C5. No task is executed twice at the same time, and heartbeats are exact: in every state of a started worker, whatever
  tasks (also repeated ones) clients send and however the threads interleave, the active ids are those of the
  tasks being enqueued, queued, executed or reported, all different; the count sent with a heartbeat is the number of
  these tasks; and two consumers never hold tasks with the same id.
\<close>

theorem active_ids_exact:
  assumes "node_run env config_path n s"
  shows "wn_active s = task_id ` set_mset (in_flight s) \<and> WorkerNode_runningTaskCount s = int (size (in_flight s)) \<and>
    (\<forall>i j t u. i < j \<longrightarrow> j < length (nr_consumers s) \<longrightarrow> t \<in> set (consumer_tasks (nr_consumers s ! i)) \<longrightarrow>
       u \<in> set (consumer_tasks (nr_consumers s ! j)) \<longrightarrow> task_id t \<noteq> task_id u)"
proof (intro conjI allI impI)
  have inv: "all_distinct (image_mset task_id (in_flight s))" "wn_active s = task_id ` set_mset (in_flight s)"
    using node_run_inv [OF assms] by (simp_all add: node_inv_def ids_inv_def)
  show "wn_active s = task_id ` set_mset (in_flight s)" by (rule inv(2))
  show "WorkerNode_runningTaskCount s = int (size (in_flight s))"
    using all_distinct_size [OF inv(1)] by (simp add: WorkerNode_runningTaskCount_def inv(2))
  fix i j t u
  assume held: "i < j" "j < length (nr_consumers s)" "t \<in> set (consumer_tasks (nr_consumers s ! i))"
    "u \<in> set (consumer_tasks (nr_consumers s ! j))"
  have "{#t, u#} \<subseteq># in_flight s"
    using held_by_two [OF held] by (simp add: in_flight_def executing_def subset_mset.add_increasing)
  then have "{#task_id t, task_id u#} \<subseteq># image_mset task_id (in_flight s)" using image_mset_subseteq_mono by fastforce
  moreover have "count (image_mset task_id (in_flight s)) (task_id t) \<le> 1" using inv(1) by (simp add: all_distinct_def)
  ultimately show "task_id t \<noteq> task_id u"
    using mset_subset_eq_count [of "{#task_id t, task_id u#}" _ "task_id t"] by fastforce
qed

text \<open>
  C10. Tasks are taken in the order they were queued, and each of them once: at every moment the tasks popped so far followed by
  those still queued are the tasks pushed, every popped task is held by a consumer or was reported with
  the executor's result for it. Once \<open>stop()\<close> has returned, the tasks pushed are the reported ones and those left
  in the queue, which are never executed.
\<close>

theorem tasks_reported_once:
  assumes "node_run env config_path n s"
  shows "nr_pushed s = nr_popped s @ tq_queue (wn_queue s) \<and>
    mset (nr_popped s) = mset (map fst (nr_reported s)) + executing s \<and>
    (\<forall>(t, r) \<in> set (nr_reported s). r = Executor_execute t) \<and>
    (nr_stop s = Stop_Done \<longrightarrow> mset (nr_pushed s) = mset (map fst (nr_reported s)) + mset (tq_queue (wn_queue s)))"
proof -
  have inv: "tasks_of s" "results_inv s" "stage_inv s" using node_run_inv [OF assms] by (simp_all add: node_inv_def)
  have "executing s = {#}" if "nr_stop s = Stop_Done"
  proof -
    have "\<forall>c \<in> set (nr_consumers s). consumer_tasks c = []" using inv(3) that by (auto simp: stage_inv_def)
    then show ?thesis by (simp add: executing_def)
  qed
  then show ?thesis using inv by (auto simp: tasks_of_def results_inv_def)
qed


section \<open>Runs\<close>

lemma enqueue_run:
  assumes "nr_accept s = Accepting" "nr_stop s = Not_Stopping" "wn_running s" "\<not> tq_stopped (wn_queue s)"
    "task_id t \<notin> wn_active s"
  shows "node_step\<^sup>*\<^sup>* s (s\<lparr>wn_active := insert (task_id t) (wn_active s),
    wn_queue := (wn_queue s)\<lparr>tq_queue := tq_queue (wn_queue s) @ [t]\<rparr>, nr_pushed := nr_pushed s @ [t]\<rparr>)"
proof -
  let ?s1 = "s\<lparr>nr_accept := Handling t\<rparr>" and ?s2 = "s\<lparr>nr_accept := Inserting t\<rparr>"
  let ?s3 = "s\<lparr>wn_active := insert (task_id t) (wn_active s), nr_accept := Pushing t\<rparr>"
  have "node_step s ?s1" using assms(1) by (rule node_step.task)
  moreover have "node_step ?s1 (handler_check t ?s1)" by (intro node_step.own own_step.check) simp
  moreover have "handler_check t ?s1 = ?s2" using assms by (simp add: handler_check_def)
  moreover have "node_step ?s2 (handler_insert t ?s2)" by (intro node_step.own own_step.ins) simp
  moreover have "handler_insert t ?s2 = ?s3" using assms by (simp add: handler_insert_def enqueue_insert_def)
  moreover have "node_step ?s3 (handler_push t ?s3)" by (intro node_step.own own_step.push) simp
  moreover have "handler_push t ?s3 = s\<lparr>wn_active := insert (task_id t) (wn_active s),
      wn_queue := (wn_queue s)\<lparr>tq_queue := tq_queue (wn_queue s) @ [t]\<rparr>, nr_pushed := nr_pushed s @ [t]\<rparr>"
    using assms by (simp add: handler_push_def enqueue_push_def TaskQueue_push_def accept_next_def serving_def)
  ultimately show ?thesis by (metis (no_types, lifting) rtranclp.simps)
qed

lemma heads_run:
  assumes "\<not> wn_running s" "nr_consumers s = replicate j Consumer_Ended @ replicate k At_Head"
  shows "node_step\<^sup>*\<^sup>* s (s\<lparr>nr_consumers := replicate (j + k) Consumer_Ended\<rparr>)"
  using assms
proof (induction k arbitrary: j s)
  case 0
  then have "s\<lparr>nr_consumers := replicate (j + 0) Consumer_Ended\<rparr> = s" by simp
  then show ?case by simp
next
  case (Suc k)
  let ?s1 = "s\<lparr>nr_consumers := replicate (Suc j) Consumer_Ended @ replicate k At_Head\<rparr>"
  have "node_step s (consumer_head j s)"
    using Suc.prems by (intro node_step.own own_step.head) (simp_all add: nth_append)
  moreover have "consumer_head j s = ?s1"
    using Suc.prems by (simp add: consumer_head_def list_update_append replicate_app_Cons_same)
  moreover have "node_step\<^sup>*\<^sup>* ?s1 (?s1\<lparr>nr_consumers := replicate (Suc j + k) Consumer_Ended\<rparr>)"
    using Suc.IH [of ?s1 "Suc j"] Suc.prems by simp
  ultimately show ?case by (simp add: converse_rtranclp_into_rtranclp)
qed

text \<open>Stopping a node whose consumers are all at the head of their loops.\<close>

lemma stop_run:
  assumes "nr_accept s = Accepting" "nr_stop s = Not_Stopping" "nr_consumers s = replicate k At_Head"
  obtains s' where "node_step\<^sup>*\<^sup>* s s'" "nr_stop s' = Stop_Done" "tq_queue (wn_queue s') = tq_queue (wn_queue s)"
    "nr_pushed s' = nr_pushed s" "nr_reported s' = nr_reported s"
proof -
  let ?s1 = "stop_flag s"
  let ?s2 = "stop_serving ?s1"
  let ?s3 = "?s2\<lparr>nr_accept := Accept_Ended\<rparr>"
  let ?s4 = "stop_transport ?s3"
  let ?s5 = "stop_queue ?s4"
  let ?s6 = "?s5\<lparr>nr_consumers := replicate k Consumer_Ended\<rparr>"
  have "node_step s ?s1" using assms(2) by (rule node_step.stop)
  moreover have "node_step ?s1 ?s2" by (intro node_step.own own_step.serving) (simp add: stop_flag_def)
  moreover have "node_step ?s2 ?s3"
    using assms(1) by (intro node_step.own own_step.accept_fails) (simp_all add: stop_flag_def stop_serving_def serving_def)
  moreover have "node_step ?s3 ?s4" by (intro node_step.own own_step.transport) (simp_all add: stop_serving_def)
  moreover have "node_step ?s4 ?s5" by (intro node_step.own own_step.queue) (simp add: stop_transport_def)
  moreover have "node_step\<^sup>*\<^sup>* ?s5 ?s6" using heads_run [of ?s5 0 k] assms(3) by (simp add: step_defs)
  moreover have "node_step ?s6 (stop_pool ?s6)" by (intro node_step.own own_step.pool) (simp_all add: stop_queue_def)
  ultimately have "node_step\<^sup>*\<^sup>* s (stop_pool ?s6)"
    by (meson converse_rtranclp_into_rtranclp rtranclp.rtrancl_into_rtrancl)
  then show thesis by (rule that) (simp_all add: step_defs TaskQueue_stop_def)
qed

definition sample_job :: Task where
  "sample_job = \<lparr>task_id = ''7'', task_prompt = ''p''\<rparr>"

text \<open>The sample node after its start, and after it has queued one task.\<close>

lemma sample_run:
  obtains n where "WorkerNode_start sample_env (WorkerNode_new ''config/worker.yaml'') = Some (True, n)" "threads (wn_config n) = 4"
    "wn_active n = {}" "wn_queue n = TaskQueue_new" "wn_running n"
proof -
  obtain n where n: "WorkerNode_start sample_env (WorkerNode_new ''config/worker.yaml'') = Some (True, n)"
    "wn_config n = WorkerConfig_default"
    by (rule sample_start [of "WorkerNode_new ''config/worker.yaml''"]) (simp_all add: WorkerNode_new_def)
  then show thesis using that started_fields [OF n(1)] by (simp add: WorkerConfig_default_def)
qed

lemma sample_queued_run:
  obtains n s where "node_run sample_env ''config/worker.yaml'' n s" "threads (wn_config n) = 4" "nr_accept s = Accepting"
    "nr_stop s = Not_Stopping" "nr_consumers s = replicate 4 At_Head" "tq_queue (wn_queue s) = [sample_job]"
    "nr_pushed s = [sample_job]" "nr_reported s = []"
proof -
  obtain n where n: "WorkerNode_start sample_env (WorkerNode_new ''config/worker.yaml'') = Some (True, n)" "threads (wn_config n) = 4"
    "wn_active n = {}" "wn_queue n = TaskQueue_new" "wn_running n" by (rule sample_run)
  let ?s = "node_started n"
  let ?t = "?s\<lparr>wn_active := insert (task_id sample_job) (wn_active ?s),
    wn_queue := (wn_queue ?s)\<lparr>tq_queue := tq_queue (wn_queue ?s) @ [sample_job]\<rparr>, nr_pushed := nr_pushed ?s @ [sample_job]\<rparr>"
  have "node_step\<^sup>*\<^sup>* ?s ?t"
    using n by (intro enqueue_run) (simp_all add: node_started_def WorkerNode.defs TaskQueue_new_def)
  then have "node_run sample_env ''config/worker.yaml'' n ?t" using n(1) by (simp add: node_run_def)
  then show thesis
    by (rule that) (simp_all add: n node_started_def WorkerNode.defs TaskQueue_new_def)
qed

text \<open>Otherwise the two need not agree: the task queued between the reads is listed and not counted.\<close>

lemma heartbeat_can_tear:
  assumes "listing {''7''} = [''7'']"
  shows "\<exists>n s s'. node_run sample_env ''config/worker.yaml'' n s \<and> node_step\<^sup>*\<^sup>* s s' \<and> heartbeat_callback listing s s' = Some (0, [''7''])"
proof -
  obtain n where n: "WorkerNode_start sample_env (WorkerNode_new ''config/worker.yaml'') = Some (True, n)"
    "wn_active n = {}" "wn_queue n = TaskQueue_new" "wn_running n" by (rule sample_run)
  let ?s = "node_started n"
  let ?t = "?s\<lparr>wn_active := insert (task_id sample_job) (wn_active ?s),
    wn_queue := (wn_queue ?s)\<lparr>tq_queue := tq_queue (wn_queue ?s) @ [sample_job]\<rparr>, nr_pushed := nr_pushed ?s @ [sample_job]\<rparr>"
  have "node_step\<^sup>*\<^sup>* ?s ?t"
    using n by (intro enqueue_run) (simp_all add: node_started_def WorkerNode.defs TaskQueue_new_def)
  moreover have "node_run sample_env ''config/worker.yaml'' n ?s" using n(1) by (simp add: node_run_def)
  moreover have "wn_active ?s = {}" "wn_running ?s" using n by (simp_all add: node_started_def WorkerNode.defs)
  then have "heartbeat_callback listing ?s ?t = Some (0, [''7''])"
    using assms by (simp add: heartbeat_callback_def WorkerNode_snapshotActiveTaskIDs_def WorkerNode_runningTaskCount_def sample_job_def)
  ultimately show ?thesis by blast
qed

theorem active_ids_exact_witness:
  "\<exists>n s. node_run sample_env ''config/worker.yaml'' n s \<and> WorkerNode_runningTaskCount s = 1"
proof -
  obtain n s where s: "node_run sample_env ''config/worker.yaml'' n s" "nr_accept s = Accepting"
    "nr_consumers s = replicate 4 At_Head" "tq_queue (wn_queue s) = [sample_job]" by (rule sample_queued_run)
  then have "in_flight s = {#sample_job#}" by (simp add: in_flight_def executing_def)
  then show ?thesis using active_ids_exact [OF s(1)] s(1) by auto
qed

theorem tasks_reported_once_witness:
  "\<exists>n s. node_run sample_env ''config/worker.yaml'' n s \<and> nr_stop s = Stop_Done \<and> nr_pushed s = [sample_job] \<and>
     nr_popped s = [] \<and> nr_reported s = []"
proof -
  obtain n s where s: "node_run sample_env ''config/worker.yaml'' n s" "nr_accept s = Accepting" "nr_stop s = Not_Stopping"
    "nr_consumers s = replicate 4 At_Head" "tq_queue (wn_queue s) = [sample_job]" "nr_pushed s = [sample_job]" "nr_reported s = []"
    by (rule sample_queued_run)
  obtain s' where s': "node_step\<^sup>*\<^sup>* s s'" "nr_stop s' = Stop_Done" "tq_queue (wn_queue s') = [sample_job]"
    "nr_pushed s' = [sample_job]" "nr_reported s' = []"
    by (rule stop_run [OF s(2-4)]) (simp add: s)
  have run: "node_run sample_env ''config/worker.yaml'' n s'" using s(1) s'(1) by (auto simp: node_run_def)
  show ?thesis using tasks_reported_once [OF run] run s' by auto
qed


end
