(* ===== verification/Worker_Main.thy ===== *)
theory Worker_Main
  imports Worker_Node_Run
begin

text \<open>
  The main program (\<open>worker/main.cpp\<close>) and the wait of \<open>WorkerNode::run\<close>: the main thread, the signal watcher and the
  signal handler after a successful \<open>start()\<close>. Of \<open>stop()\<close> only what the main thread can see is here: \<open>running_\<close> is
  cleared first and \<open>state_condition_\<close> is notified last; what happens in between, and that it ends, is in
  \<open>Worker_Node_Run\<close>. \<open>wait(lock, pred)\<close> is the loop \<open>while (!pred()) wait(lock)\<close>. The waiting thread holds
  \<open>state_mutex_\<close> from its test of the predicate until it sleeps, but \<open>stop()\<close> never takes that mutex. A spurious
  wake-up, which an implementation may produce but nobody can rely on, is left out.
\<close>

text \<open>The main thread: about to test \<open>!running_\<close>; about to go to sleep; asleep; past \<open>run()\<close>; joining the watcher; returned.\<close>

datatype main_pc = Run_Test | Run_Block | Run_Sleep | Main_Exit | Main_Join | Main_Return

text \<open>The watcher: at its loop condition; past the loop; about to clear \<open>running_\<close> in \<open>stop()\<close>; about to notify; ended.\<close>

datatype watcher_pc = Watch_Loop | Watch_Check | Watch_Clear | Watch_Notify | Watch_End

record MainRun =
  g_stop_requested :: bool
  g_exit_requested :: bool
  mr_running :: bool
  mr_main :: main_pc
  mr_watcher :: watcher_pc

definition main_started :: MainRun where
  "main_started =
     \<lparr>g_stop_requested = False, g_exit_requested = False, mr_running = True, mr_main = Run_Test, mr_watcher = Watch_Loop\<rparr>"

definition handleSignal :: "MainRun \<Rightarrow> MainRun" where
  "handleSignal m = m\<lparr>g_stop_requested := True\<rparr>"

text \<open>One move of the main thread (\<open>None\<close>: it is blocked or has returned).\<close>

definition main_thread :: "MainRun \<Rightarrow> MainRun option" where
  "main_thread m =
     (case mr_main m of
        Run_Test \<Rightarrow> Some (m\<lparr>mr_main := (if mr_running m then Run_Block else Main_Exit)\<rparr>)
      | Run_Block \<Rightarrow> Some (m\<lparr>mr_main := Run_Sleep\<rparr>)
      | Run_Sleep \<Rightarrow> None
      | Main_Exit \<Rightarrow> Some (m\<lparr>g_exit_requested := True, mr_main := Main_Join\<rparr>)
      | Main_Join \<Rightarrow> (if mr_watcher m = Watch_End then Some (m\<lparr>mr_main := Main_Return\<rparr>) else None)
      | Main_Return \<Rightarrow> None)"

text \<open>One move of the watcher; while no flag is set it sleeps and looks again. \<open>notify_all\<close> sends a sleeping main
  thread back to its test.\<close>

definition signal_watcher :: "MainRun \<Rightarrow> MainRun option" where
  "signal_watcher m =
     (case mr_watcher m of
        Watch_Loop \<Rightarrow>
          (if \<not> g_stop_requested m \<and> \<not> g_exit_requested m then None else Some (m\<lparr>mr_watcher := Watch_Check\<rparr>))
      | Watch_Check \<Rightarrow> Some (m\<lparr>mr_watcher := (if g_stop_requested m then Watch_Clear else Watch_End)\<rparr>)
      | Watch_Clear \<Rightarrow> Some (m\<lparr>mr_running := False, mr_watcher := Watch_Notify\<rparr>)
      | Watch_Notify \<Rightarrow>
          Some (m\<lparr>mr_main := (if mr_main m = Run_Sleep then Run_Test else mr_main m), mr_watcher := Watch_End\<rparr>)
      | Watch_End \<Rightarrow> None)"

inductive thread_step :: "MainRun \<Rightarrow> MainRun \<Rightarrow> bool" where
  main_moves: "main_thread m = Some m' \<Longrightarrow> thread_step m m'"
| watcher_moves: "signal_watcher m = Some m' \<Longrightarrow> thread_step m m'"

inductive main_step :: "MainRun \<Rightarrow> MainRun \<Rightarrow> bool" where
  thread: "thread_step m m' \<Longrightarrow> main_step m m'"
| signal: "main_step m (handleSignal m)"

section \<open>Invariant\<close>

fun before_clear :: "watcher_pc \<Rightarrow> bool" where
  "before_clear Watch_Notify = False"
| "before_clear Watch_End = False"
| "before_clear _ = True"

fun past_run :: "main_pc \<Rightarrow> bool" where
  "past_run Run_Test = False"
| "past_run Run_Block = False"
| "past_run Run_Sleep = False"
| "past_run _ = True"

definition main_inv :: "MainRun \<Rightarrow> bool" where
  "main_inv m \<longleftrightarrow>
     (mr_running m \<longleftrightarrow> before_clear (mr_watcher m)) \<and>
     (mr_watcher m \<noteq> Watch_Loop \<longrightarrow> g_stop_requested m) \<and>
     (past_run (mr_main m) \<longrightarrow> \<not> before_clear (mr_watcher m)) \<and>
     (g_exit_requested m \<longrightarrow> \<not> before_clear (mr_watcher m)) \<and>
     (mr_main m = Main_Return \<longrightarrow> mr_watcher m = Watch_End)"

lemma thread_step_inv: "thread_step m m' \<Longrightarrow> main_inv m \<Longrightarrow> main_inv m'"
  by (induction rule: thread_step.induct)
    (auto simp: main_inv_def main_thread_def signal_watcher_def split: main_pc.splits watcher_pc.splits if_splits)

lemma main_step_inv: "main_step m m' \<Longrightarrow> main_inv m \<Longrightarrow> main_inv m'"
proof (induction rule: main_step.induct)
  case (signal m)
  then show ?case by (simp add: main_inv_def handleSignal_def)
qed (rule thread_step_inv)

lemma main_reach_inv: "main_step\<^sup>*\<^sup>* main_started m \<Longrightarrow> main_inv m"
proof (induction rule: rtranclp_induct)
  case base
  show ?case by (simp add: main_inv_def main_started_def)
qed (rule main_step_inv)

section \<open>Runs\<close>

abbreviation main_state :: "bool \<Rightarrow> bool \<Rightarrow> bool \<Rightarrow> main_pc \<Rightarrow> watcher_pc \<Rightarrow> MainRun" where
  "main_state stop exit_flag r p q \<equiv>
     \<lparr>g_stop_requested = stop, g_exit_requested = exit_flag, mr_running = r, mr_main = p, mr_watcher = q\<rparr>"

lemma then_step: "main_step m m1 \<Longrightarrow> main_step\<^sup>*\<^sup>* m1 m' \<Longrightarrow> main_step\<^sup>*\<^sup>* m m'"
  by (rule converse_rtranclp_into_rtranclp)

lemma last_step: "main_step m m' \<Longrightarrow> main_step\<^sup>*\<^sup>* m m'"
  by (rule r_into_rtranclp)

lemma main_moves_step: "main_thread m = Some m' \<Longrightarrow> main_step m m'"
  by (intro main_step.thread thread_step.main_moves)

lemma watcher_moves_step: "signal_watcher m = Some m' \<Longrightarrow> main_step m m'"
  by (intro main_step.thread thread_step.watcher_moves)

lemma signal_step: "main_step (main_state stop e r p q) (main_state True e r p q)"
  using main_step.signal [of "main_state stop e r p q"] by (simp add: handleSignal_def)

text \<open>A signal that comes while the main thread sleeps, up to the end of the process.\<close>

lemma sleeping_run: "main_step\<^sup>*\<^sup>* main_started (main_state True False True Run_Sleep Watch_Loop)"
proof -
  have s1: "main_step main_started (main_state False False True Run_Block Watch_Loop)"
    by (rule main_moves_step) (simp add: main_thread_def main_started_def)
  have s2: "main_step (main_state False False True Run_Block Watch_Loop) (main_state False False True Run_Sleep Watch_Loop)"
    by (rule main_moves_step) (simp add: main_thread_def)
  show ?thesis by (rule then_step [OF s1 then_step [OF s2 last_step [OF signal_step]]])
qed

lemma ending_run: "main_step\<^sup>*\<^sup>* main_started (main_state True True False Main_Return Watch_End)"
proof -
  have s1: "main_step (main_state True False True Run_Sleep Watch_Loop) (main_state True False True Run_Sleep Watch_Check)"
    by (rule watcher_moves_step) (simp add: signal_watcher_def)
  have s2: "main_step (main_state True False True Run_Sleep Watch_Check) (main_state True False True Run_Sleep Watch_Clear)"
    by (rule watcher_moves_step) (simp add: signal_watcher_def)
  have s3: "main_step (main_state True False True Run_Sleep Watch_Clear) (main_state True False False Run_Sleep Watch_Notify)"
    by (rule watcher_moves_step) (simp add: signal_watcher_def)
  have s4: "main_step (main_state True False False Run_Sleep Watch_Notify) (main_state True False False Run_Test Watch_End)"
    by (rule watcher_moves_step) (simp add: signal_watcher_def)
  have s5: "main_step (main_state True False False Run_Test Watch_End) (main_state True False False Main_Exit Watch_End)"
    by (rule main_moves_step) (simp add: main_thread_def)
  have s6: "main_step (main_state True False False Main_Exit Watch_End) (main_state True True False Main_Join Watch_End)"
    by (rule main_moves_step) (simp add: main_thread_def)
  have s7: "main_step (main_state True True False Main_Join Watch_End) (main_state True True False Main_Return Watch_End)"
    by (rule main_moves_step) (simp add: main_thread_def)
  show ?thesis
    by (rule rtranclp_trans [OF sleeping_run then_step [OF s1 then_step [OF s2 then_step [OF s3 then_step [OF s4
      then_step [OF s5 then_step [OF s6 last_step [OF s7]]]]]]]])
qed

section \<open>Properties\<close>

text \<open>
  The worker process returns only after a signal: in every run, when \<open>main\<close> has returned, a stop signal was
  received, the watcher has called \<open>stop()\<close> to its end and the node no longer runs; before the first signal the main
  thread never gets past \<open>run()\<close>.
\<close>

theorem main_returns_only_after_stop:
  assumes "main_step\<^sup>*\<^sup>* main_started m"
  shows "(mr_main m = Main_Return \<longrightarrow> g_stop_requested m \<and> mr_watcher m = Watch_End \<and> \<not> mr_running m) \<and>
    (\<not> g_stop_requested m \<longrightarrow> mr_running m \<and> mr_main m \<in> {Run_Test, Run_Block, Run_Sleep})"
proof -
  have inv: "main_inv m" using main_reach_inv [OF assms] .
  have "mr_running m \<and> mr_main m \<in> {Run_Test, Run_Block, Run_Sleep}" if "\<not> g_stop_requested m"
  proof -
    have "mr_watcher m = Watch_Loop" using inv that by (auto simp: main_inv_def)
    then have "mr_running m" "\<not> past_run (mr_main m)" using inv by (simp_all add: main_inv_def)
    then show ?thesis by (cases "mr_main m") simp_all
  qed
  moreover have "g_stop_requested m \<and> mr_watcher m = Watch_End \<and> \<not> mr_running m" if "mr_main m = Main_Return"
    using inv that by (simp add: main_inv_def)
  ultimately show ?thesis by blast
qed

theorem main_returns_only_after_stop_witness:
  "\<exists>m. main_step\<^sup>*\<^sup>* main_started m \<and> mr_main m = Main_Return \<and> g_stop_requested m"
  using main_returns_only_after_stop [OF ending_run] ending_run
  by (intro exI [of _ "main_state True True False Main_Return Watch_End"]) simp

text \<open>The moves left once a signal has come and the main thread sleeps or has not tested yet.\<close>

fun main_weight :: "main_pc \<Rightarrow> nat" where
  "main_weight Run_Sleep = 4"
| "main_weight Run_Block = 5"
| "main_weight Run_Test = 6"
| "main_weight Main_Exit = 2"
| "main_weight Main_Join = 1"
| "main_weight Main_Return = 0"

fun watcher_weight :: "watcher_pc \<Rightarrow> nat" where
  "watcher_weight Watch_Loop = 16"
| "watcher_weight Watch_Check = 15"
| "watcher_weight Watch_Clear = 14"
| "watcher_weight Watch_Notify = 10"
| "watcher_weight Watch_End = 0"

definition shutdown_weight :: "MainRun \<Rightarrow> nat" where
  "shutdown_weight m = main_weight (mr_main m) + watcher_weight (mr_watcher m)"

lemma thread_step_weight: "thread_step m m' \<Longrightarrow> shutdown_weight m' < shutdown_weight m"
  by (induction rule: thread_step.induct)
    (auto simp: shutdown_weight_def main_thread_def signal_watcher_def split: main_pc.splits watcher_pc.splits if_splits)

lemma thread_steps_weight: "(thread_step ^^ k) m m' \<Longrightarrow> k + shutdown_weight m' \<le> shutdown_weight m"
proof (induction k arbitrary: m)
  case (Suc k)
  then obtain m1 where "thread_step m m1" "(thread_step ^^ k) m1 m'" by (metis relpowp_Suc_E2)
  then show ?case using Suc.IH [of m1] thread_step_weight [of m m1] by simp
qed simp

text \<open>The main thread is not caught between its test and its sleep.\<close>

definition awake_safe :: "MainRun \<Rightarrow> bool" where
  "awake_safe m \<longleftrightarrow> main_inv m \<and> g_stop_requested m \<and>
     (if mr_watcher m = Watch_End then mr_main m \<noteq> Run_Block \<and> mr_main m \<noteq> Run_Sleep else mr_main m = Run_Sleep)"

lemma awake_safe_step:
  assumes "thread_step m m'" "awake_safe m"
  shows "awake_safe m'"
proof -
  have "main_inv m'" using assms thread_step_inv by (auto simp: awake_safe_def)
  moreover have "main_inv m" using assms by (simp add: awake_safe_def)
  ultimately show ?thesis using assms
  proof (cases "mr_watcher m = Watch_End")
    case True
    then have "signal_watcher m = None" by (simp add: signal_watcher_def)
    with assms(1) have "main_thread m = Some m'" by (auto elim: thread_step.cases)
    moreover have "\<not> mr_running m" using \<open>main_inv m\<close> True by (simp add: main_inv_def)
    ultimately show ?thesis
      using True assms(2) \<open>main_inv m'\<close> by (cases "mr_main m") (auto simp: main_thread_def awake_safe_def)
  next
    case False
    then have "main_thread m = None" using assms(2) by (simp add: main_thread_def awake_safe_def)
    with assms(1) have "signal_watcher m = Some m'" by (auto elim: thread_step.cases)
    then show ?thesis
      using False assms(2) \<open>main_inv m'\<close>
      by (cases "mr_watcher m") (auto simp: signal_watcher_def awake_safe_def split: if_splits)
  qed
qed

lemma awake_safe_progress:
  assumes "awake_safe m" "mr_main m \<noteq> Main_Return"
  shows "\<exists>m'. thread_step m m'"
proof (cases "mr_watcher m = Watch_End")
  case True
  then have "main_thread m \<noteq> None" using assms by (cases "mr_main m") (simp_all add: main_thread_def awake_safe_def)
  then show ?thesis by (auto intro: thread_step.main_moves)
next
  case False
  then have "signal_watcher m \<noteq> None" using assms by (cases "mr_watcher m") (simp_all add: signal_watcher_def awake_safe_def)
  then show ?thesis by (auto intro: thread_step.watcher_moves)
qed

text \<open>
  A stop signal that finds the main thread asleep in \<open>run()\<close> ends the process: from such a state no run of the threads has more
  than 20 moves, and the threads can always move until \<open>main\<close> has returned.
\<close>

theorem signal_ends_sleeping_main:
  assumes "main_step\<^sup>*\<^sup>* main_started m" "g_stop_requested m" "mr_running m" "mr_main m = Run_Sleep" "(thread_step ^^ k) m m'"
  shows "k \<le> 20 \<and> (mr_main m' = Main_Return \<or> (\<exists>m''. thread_step m' m''))"
proof -
  have inv: "main_inv m" using main_reach_inv [OF assms(1)] .
  then have "mr_watcher m \<noteq> Watch_End" using assms(3) by (auto simp: main_inv_def)
  then have "awake_safe m" using inv assms(2,4) by (simp add: awake_safe_def)
  with assms(5) have "awake_safe m'"
    by (induction k arbitrary: m') (auto intro: awake_safe_step)
  moreover have "shutdown_weight m \<le> 20" using assms(4) by (cases "mr_watcher m") (simp_all add: shutdown_weight_def)
  ultimately show ?thesis using thread_steps_weight [OF assms(5)] awake_safe_progress by auto
qed

theorem signal_ends_sleeping_main_witness:
  "\<exists>m m'. thread_step m m' \<and> g_stop_requested m \<and> mr_main m = Run_Sleep \<and> (\<exists>m''. thread_step m' m'')"
proof -
  let ?m = "main_state True False True Run_Sleep Watch_Loop" and ?m' = "main_state True False True Run_Sleep Watch_Check"
  have "thread_step ?m ?m'" by (rule thread_step.watcher_moves) (simp add: signal_watcher_def)
  then have step: "(thread_step ^^ 1) ?m ?m'" by (simp add: eq_OO)
  have "\<exists>m''. thread_step ?m' m''" using signal_ends_sleeping_main [OF sleeping_run _ _ _ step] by simp
  then show ?thesis using \<open>thread_step ?m ?m'\<close> by (intro exI [of _ ?m] exI [of _ ?m']) simp
qed

text \<open>
  C32. The wake-up of \<open>run()\<close> can be lost: \<open>stop()\<close> changes \<open>running_\<close> and notifies without holding \<open>state_mutex_\<close>, so
  both can happen between the main thread's test of \<open>running_\<close> and its sleep. There is a run in which a stop signal was received
  and \<open>stop()\<close> has returned, but the main thread sleeps for ever and further signals change nothing.
\<close>

theorem run_can_miss_the_wakeup:
  "\<exists>m. main_step\<^sup>*\<^sup>* main_started m \<and> g_stop_requested m \<and> \<not> mr_running m \<and> mr_watcher m = Watch_End \<and>
     mr_main m = Run_Sleep \<and> main_step m = (\<lambda>m'. m' = m)"
proof -
  let ?m = "main_state True False"
  have s1: "main_step main_started (main_state False False True Run_Block Watch_Loop)"
    by (rule main_moves_step) (simp add: main_thread_def main_started_def)
  have s2: "main_step (?m True Run_Block Watch_Loop) (?m True Run_Block Watch_Check)"
    by (rule watcher_moves_step) (simp add: signal_watcher_def)
  have s3: "main_step (?m True Run_Block Watch_Check) (?m True Run_Block Watch_Clear)"
    by (rule watcher_moves_step) (simp add: signal_watcher_def)
  have s4: "main_step (?m True Run_Block Watch_Clear) (?m False Run_Block Watch_Notify)"
    by (rule watcher_moves_step) (simp add: signal_watcher_def)
  have s5: "main_step (?m False Run_Block Watch_Notify) (?m False Run_Block Watch_End)"
    by (rule watcher_moves_step) (simp add: signal_watcher_def)
  have s6: "main_step (?m False Run_Block Watch_End) (?m False Run_Sleep Watch_End)"
    by (rule main_moves_step) (simp add: main_thread_def)
  have reach: "main_step\<^sup>*\<^sup>* main_started (?m False Run_Sleep Watch_End)"
    by (rule then_step [OF s1 then_step [OF signal_step then_step [OF s2 then_step [OF s3 then_step [OF s4
      then_step [OF s5 last_step [OF s6]]]]]]])
  have "main_step (?m False Run_Sleep Watch_End) m' \<longleftrightarrow> m' = ?m False Run_Sleep Watch_End" for m'
    by (auto simp: main_step.simps thread_step.simps main_thread_def signal_watcher_def handleSignal_def)
  then show ?thesis using reach by (intro exI [of _ "?m False Run_Sleep Watch_End"]) (simp add: fun_eq_iff)
qed

end
