(* ===== verification/Sched_Model.thy ===== *)
theory Sched_Model
  imports Rdma_Prelude "HOL-Library.AList" "HOL-Library.Product_Lexorder"
begin

text \<open>
  The data of the scheduler service (\<open>scheduler/internal/model\<close>, \<open>storage\<close>, \<open>util\<close>), a separate Go program
  that the worker of \<open>Worker_Node\<close> registers with. A Go map is an association list with distinct keys: the code reads
  maps by key, or ranges over them where the order makes no difference to the outcome. Pointers to nodes and
  tasks are held by the store only, every answer is a copy, so a state is a value. Go's \<open>int\<close> is an \<open>int\<close>, wrapped
  to 64 bits where the code multiplies.
\<close>

section \<open>Time\<close>

text \<open>\<open>time.Time\<close> in nanoseconds after Go's zero time; \<open>Sub\<close> saturates at the range of \<open>time.Duration\<close>.\<close>

type_synonym gotime = int
type_synonym duration = int

definition time_IsZero :: "gotime \<Rightarrow> bool" where
  "time_IsZero t \<longleftrightarrow> t = 0"

definition time_Sub :: "gotime \<Rightarrow> gotime \<Rightarrow> duration" where
  "time_Sub t u = max (- (2 ^ 63)) (min (2 ^ 63 - 1) (t - u))"

abbreviation second :: duration where "second \<equiv> 1000000000"

section \<open>Nodes\<close>

text \<open>\<open>NodeNone\<close> is the empty string, the zero value.\<close>

datatype NodeState = NodeNone | NodeReady | NodeBusy | NodeOffline

record Node =
  n_ID :: string
  n_Address :: string
  n_Capacity :: int
  n_Labels :: "string list"
  n_RunningTasks :: int
  n_Status :: NodeState
  n_LastHeartbeat :: gotime

definition Node_zero :: Node where
  "Node_zero =
     \<lparr>n_ID = [], n_Address = [], n_Capacity = 0, n_Labels = [], n_RunningTasks = 0, n_Status = NodeNone, n_LastHeartbeat = 0\<rparr>"

record RegisterNodeRequest =
  reg_ID :: string
  reg_Address :: string
  reg_Capacity :: int
  reg_Labels :: "string list"

record HeartbeatRequest =
  hb_ID :: string
  hb_RunningTasks :: int
  hb_Status :: string
  hb_ActiveTaskIDs :: "string list"

fun DeriveNodeState :: "Node option \<Rightarrow> gotime \<Rightarrow> duration \<Rightarrow> NodeState" where
  "DeriveNodeState None now offlineAfter = NodeOffline"
| "DeriveNodeState (Some node) now offlineAfter =
     (if \<not> time_IsZero (n_LastHeartbeat node) \<and> time_Sub now (n_LastHeartbeat node) > offlineAfter then NodeOffline
      else if n_Capacity node > 0 \<and> n_RunningTasks node \<ge> n_Capacity node then NodeBusy
      else NodeReady)"

declare DeriveNodeState.simps [simp del]

section \<open>Tasks\<close>

datatype TaskState = TaskPending | TaskRunning | TaskCompleted | TaskFailed

record SchedTask =
  t_ID :: string
  t_Model :: string
  t_Operation :: string
  t_PayloadRef :: string
  t_Metadata :: "(string \<times> string) list"
  t_Status :: TaskState
  t_AssignedWorker :: string
  t_Message :: string
  t_CreatedAt :: gotime
  t_StartedAt :: "gotime option"
  t_CompletedAt :: "gotime option"

record SubmitTaskRequest =
  sub_Model :: string
  sub_Operation :: string
  sub_PayloadRef :: string
  sub_Metadata :: "(string \<times> string) list"

record CompleteTaskRequest =
  done_Success :: bool
  done_Message :: string

text \<open>\<open>fmt.Sprintf("task-%06d", counter)\<close>.\<close>

definition FormatTaskID :: "64 word \<Rightarrow> string" where
  "FormatTaskID counter =
     (let digits = to_string (unat counter) in ''task-'' @ replicate (6 - length digits) (CHR ''0'') @ digits)"

text \<open>What the services can return as an error; the last two carry the id.\<close>

datatype sched_error =
    WorkerIdRequired
  | ModelRequired
  | OperationRequired
  | TaskIdRequired
  | WorkerNotFound string
  | TaskNotFound string

section \<open>Store\<close>

record State =
  Nodes :: "(string \<times> Node) list"
  Tasks :: "(string \<times> SchedTask) list"
  NodeOrder :: "string list"
  NextNodeIndex :: nat
  TaskCounter :: "64 word"

definition NewMemoryStore :: State where
  "NewMemoryStore = \<lparr>Nodes = [], Tasks = [], NodeOrder = [], NextNodeIndex = 0, TaskCounter = 0\<rparr>"

text \<open>Changing the object a map entry points to.\<close>

definition modify :: "string \<Rightarrow> ('v \<Rightarrow> 'v) \<Rightarrow> (string \<times> 'v) list \<Rightarrow> (string \<times> 'v) list" where
  "modify k f m = map (\<lambda>(k', v). (k', if k' = k then f v else v)) m"

section \<open>Lemmas\<close>

lemma modify_keys [simp]: "map fst (modify k f m) = map fst m"
  by (induction m) (auto simp: modify_def)

lemma modify_lookup [simp]: "map_of (modify k f m) k' = (if k' = k then map_option f (map_of m k) else map_of m k')"
  by (induction m) (auto simp: modify_def)

lemma modify_set: "(k', v) \<in> set (modify k f m) \<longleftrightarrow> (\<exists>u. (k', u) \<in> set m \<and> v = (if k' = k then f u else u))"
  by (induction m) (auto simp: modify_def)

lemma modify_length [simp]: "length (modify k f m) = length m"
  by (simp add: modify_def)

lemma modify_all:
  assumes "\<forall>(k, v) \<in> set m. P k v" "\<And>v. (k0, v) \<in> set m \<Longrightarrow> P k0 v \<Longrightarrow> P k0 (f v)"
  shows "\<forall>(k, v) \<in> set (modify k0 f m). P k v"
proof
  fix e assume "e \<in> set (modify k0 f m)"
  then obtain k u where "e = (k, if k = k0 then f u else u)" "(k, u) \<in> set m" by (auto simp: modify_def)
  then show "case e of (k, v) \<Rightarrow> P k v" using assms by auto
qed

lemma zeros_value: "dec_value (replicate k (CHR ''0'') @ s) = dec_value s"
proof -
  have "foldl (\<lambda>a c. 10 * a + digit_val c) 0 (replicate k (CHR ''0'')) = 0"
    by (induction k) (simp_all add: digit_val_def)
  then show ?thesis by (simp add: dec_value_def)
qed

lemma FormatTaskID_value: "dec_value (drop 5 (FormatTaskID c)) = unat c"
  by (simp add: FormatTaskID_def Let_def zeros_value)

lemma FormatTaskID_inj: "FormatTaskID c = FormatTaskID d \<longleftrightarrow> c = d"
  by (metis FormatTaskID_value word_unat_eq_iff)

lemma FormatTaskID_not_Nil [simp]: "FormatTaskID c \<noteq> []"
  by (simp add: FormatTaskID_def Let_def)

text \<open>A task id has no separator and no line break.\<close>

lemma FormatTaskID_chars: "CHR ''|'' \<notin> set (FormatTaskID c)" "NL \<notin> set (FormatTaskID c)"
proof -
  have "\<not> is_digit (CHR ''|'')" "\<not> is_digit NL" by (simp_all add: is_digit_def)
  then have "CHR ''|'' \<notin> set (to_string (unat c))" "NL \<notin> set (to_string (unat c))"
    using to_string_digits [of "unat c"] by blast+
  then show "CHR ''|'' \<notin> set (FormatTaskID c)" "NL \<notin> set (FormatTaskID c)"
    by (auto simp: FormatTaskID_def Let_def)
qed

end
