(* ===== verification/Sched_Strategy.thy ===== *)
theory Sched_Strategy
  imports Sched_Model Complex_Main
begin

text \<open>
  The least-loaded strategy of \<open>scheduler/internal/scheduler/strategy.go\<close>: how two candidate workers compare. A result
  below 0 prefers the left one. The products in \<open>compareLoadRatio\<close> are \<open>int64\<close> and wrap around.
\<close>

definition to_int64 :: "int \<Rightarrow> int" where
  "to_int64 x = signed_take_bit 63 x"

record nodeLoadSnapshot =
  ls_runningTasks :: int
  ls_capacity :: int
  ls_available :: int

fun snapshotNodeLoad :: "Node option \<Rightarrow> nodeLoadSnapshot" where
  "snapshotNodeLoad None = \<lparr>ls_runningTasks = 0, ls_capacity = 1, ls_available = 0\<rparr>"
| "snapshotNodeLoad (Some node) =
     (let runningTasks = (if n_RunningTasks node < 0 then 0 else n_RunningTasks node);
          capacity = (if n_Capacity node \<le> 0 then 1 else n_Capacity node);
          available = (if capacity - runningTasks < 0 then 0 else capacity - runningTasks)
      in \<lparr>ls_runningTasks = runningTasks, ls_capacity = capacity, ls_available = available\<rparr>)"

definition compareAscending :: "int \<Rightarrow> int \<Rightarrow> int" where
  "compareAscending left right = (if left < right then -1 else if left > right then 1 else 0)"

definition compareDescending :: "int \<Rightarrow> int \<Rightarrow> int" where
  "compareDescending left right = compareAscending right left"

definition compareLoadRatio :: "nodeLoadSnapshot \<Rightarrow> nodeLoadSnapshot \<Rightarrow> int" where
  "compareLoadRatio left right =
     (let leftValue = to_int64 (ls_runningTasks left * ls_capacity right);
          rightValue = to_int64 (ls_runningTasks right * ls_capacity left)
      in if leftValue < rightValue then -1 else if leftValue > rightValue then 1 else 0)"

fun LeastLoaded_Compare :: "Node option \<Rightarrow> Node option \<Rightarrow> int" where
  "LeastLoaded_Compare None None = 0"
| "LeastLoaded_Compare None (Some right) = 1"
| "LeastLoaded_Compare (Some left) None = -1"
| "LeastLoaded_Compare (Some left) (Some right) =
     (let leftLoad = snapshotNodeLoad (Some left);
          rightLoad = snapshotNodeLoad (Some right);
          ratio = compareLoadRatio leftLoad rightLoad;
          available = compareDescending (ls_available leftLoad) (ls_available rightLoad);
          running = compareAscending (ls_runningTasks leftLoad) (ls_runningTasks rightLoad)
      in if ratio \<noteq> 0 then ratio else if available \<noteq> 0 then available else if running \<noteq> 0 then running else 0)"

section \<open>The order it computes\<close>

text \<open>Nodes whose numbers are small enough that nothing wraps.\<close>

definition load_ok :: "Node \<Rightarrow> bool" where
  "load_ok n \<longleftrightarrow> 0 < n_Capacity n \<and> n_Capacity n < 2 ^ 31 \<and> 0 \<le> n_RunningTasks n \<and> n_RunningTasks n < 2 ^ 31"

text \<open>The reference: lower load ratio, then more free capacity, then fewer running tasks.\<close>

definition load_ratio :: "Node \<Rightarrow> rat" where
  "load_ratio n = of_int (n_RunningTasks n) / of_int (n_Capacity n)"

definition free_capacity :: "Node \<Rightarrow> int" where
  "free_capacity n = max 0 (n_Capacity n - n_RunningTasks n)"

definition load_key :: "Node \<Rightarrow> rat \<times> int \<times> int" where
  "load_key n = (load_ratio n, - free_capacity n, n_RunningTasks n)"

lemma to_int64_small: "\<bar>x\<bar> < 2 ^ 62 \<Longrightarrow> to_int64 x = x"
  by (simp add: to_int64_def signed_take_bit_int_eq_self)

lemma small_product:
  assumes "0 \<le> x" "x < 2 ^ 31" "0 \<le> y" "y < 2 ^ 31"
  shows "\<bar>x * y\<bar> < (2 ^ 62 :: int)"
proof -
  have "x * y < 2 ^ 31 * 2 ^ 31" using assms by (intro mult_strict_mono) auto
  then show ?thesis using assms by simp
qed

lemma ratio_less:
  assumes "0 < c" "0 < d"
  shows "(of_int r / of_int c :: rat) < of_int q / of_int d \<longleftrightarrow> r * d < q * (c :: int)"
proof -
  have "(of_int r / of_int c :: rat) < of_int q / of_int d \<longleftrightarrow> (of_int (r * d) :: rat) < of_int (q * c)"
    using assms by (simp add: field_simps)
  then show ?thesis by (simp only: of_int_less_iff)
qed

lemma compareLoadRatio_key:
  assumes "load_ok l" "load_ok r"
  shows "compareLoadRatio (snapshotNodeLoad (Some l)) (snapshotNodeLoad (Some r)) =
    (if load_ratio l < load_ratio r then -1 else if load_ratio r < load_ratio l then 1 else 0)"
proof -
  have "load_ratio l < load_ratio r \<longleftrightarrow> n_RunningTasks l * n_Capacity r < n_RunningTasks r * n_Capacity l"
    "load_ratio r < load_ratio l \<longleftrightarrow> n_RunningTasks r * n_Capacity l < n_RunningTasks l * n_Capacity r"
    using assms by (simp_all add: load_ratio_def load_ok_def ratio_less)
  moreover have "to_int64 (n_RunningTasks l * n_Capacity r) = n_RunningTasks l * n_Capacity r"
    "to_int64 (n_RunningTasks r * n_Capacity l) = n_RunningTasks r * n_Capacity l"
    using assms by (auto simp: load_ok_def intro!: to_int64_small small_product)
  ultimately show ?thesis using assms by (simp add: compareLoadRatio_def load_ok_def Let_def)
qed

text \<open>So the strategy compares by a key in a linear order.\<close>

lemma Compare_key:
  assumes "load_ok l" "load_ok r"
  shows "LeastLoaded_Compare (Some l) (Some r) =
    (if load_key l < load_key r then -1 else if load_key r < load_key l then 1 else 0)"
proof -
  have "ls_available (snapshotNodeLoad (Some n)) = free_capacity n" "ls_runningTasks (snapshotNodeLoad (Some n)) = n_RunningTasks n"
    if "load_ok n" for n
    using that by (auto simp: load_ok_def free_capacity_def Let_def)
  note snap = this(1) [OF assms(1)] this(1) [OF assms(2)] this(2) [OF assms(1)] this(2) [OF assms(2)]
  show ?thesis
    unfolding LeastLoaded_Compare.simps Let_def compareLoadRatio_key [OF assms] snap compareDescending_def compareAscending_def
    by (auto simp: load_key_def less_prod_simp)
qed

declare LeastLoaded_Compare.simps [simp del]

section \<open>Properties\<close>

text \<open>
  C29. The comparison by products is the comparison of the load ratios themselves: for counts and capacities below \<open>2 ^ 31\<close> the strategy
  orders two workers exactly as the lexicographic order of their ratio of running tasks to capacity (as a rational number), their
  free capacity (more first) and their running tasks.
\<close>

theorem compare_is_load_order:
  assumes "load_ok l" "load_ok r"
  shows "LeastLoaded_Compare (Some l) (Some r) =
    (if load_key l < load_key r then -1 else if load_key r < load_key l then 1 else 0)"
  by (rule Compare_key [OF assms])

definition loaded :: "int \<Rightarrow> int \<Rightarrow> Node" where
  "loaded running capacity = Node_zero\<lparr>n_Capacity := capacity, n_RunningTasks := running\<rparr>"

theorem compare_is_load_order_witness: "LeastLoaded_Compare (Some (loaded 1 3)) (Some (loaded 2 5)) = -1"
proof -
  have "load_ok (loaded 1 3)" "load_ok (loaded 2 5)" by (simp_all add: load_ok_def loaded_def Node_zero_def)
  moreover have "load_key (loaded 1 3) < load_key (loaded 2 5)"
    by (simp add: load_key_def load_ratio_def loaded_def Node_zero_def)
  ultimately show ?thesis using compare_is_load_order by simp
qed

text \<open>
  Beyond that the products wrap around: a worker that runs half of its capacity of \<open>2 ^ 32\<close> tasks is preferred to one with the same
  capacity that runs a single task.
\<close>

theorem compare_wraps_around: "LeastLoaded_Compare (Some (loaded (2 ^ 31) (2 ^ 32))) (Some (loaded 1 (2 ^ 32))) < 0"
  by (simp add: LeastLoaded_Compare.simps compareLoadRatio_def snapshotNodeLoad.simps to_int64_def loaded_def Node_zero_def Let_def)

end
