(* ===== verification/Sched_Dispatch.thy ===== *)
theory Sched_Dispatch
  imports Sched_Strategy
begin

text \<open>
  The registry (\<open>scheduler/internal/registry/registry.go\<close>) and the scheduler (\<open>scheduler/internal/scheduler\<close>): registration,
  heartbeats, selection of a worker and assignment of the pending tasks. Each definition is the body of one
  \<open>store.Write\<close> or \<open>store.Read\<close>, which the store's lock makes atomic.
\<close>

section \<open>Registry\<close>

text \<open>What a registration and a heartbeat do to the node.\<close>

definition register_node :: "duration \<Rightarrow> RegisterNodeRequest \<Rightarrow> gotime \<Rightarrow> Node \<Rightarrow> Node" where
  "register_node offlineAfter req now node =
     (let capacity = (if reg_Capacity req \<le> 0 then 1 else reg_Capacity req);
          node1 = node\<lparr>n_Address := reg_Address req, n_Capacity := capacity, n_Labels := reg_Labels req, n_LastHeartbeat := now\<rparr>
      in node1\<lparr>n_Status := DeriveNodeState (Some node1) now offlineAfter\<rparr>)"

definition heartbeat_node :: "duration \<Rightarrow> HeartbeatRequest \<Rightarrow> gotime \<Rightarrow> Node \<Rightarrow> Node" where
  "heartbeat_node offlineAfter req now node =
     (let running = (if hb_RunningTasks req < 0 then 0 else hb_RunningTasks req);
          node1 = node\<lparr>n_RunningTasks := running, n_LastHeartbeat := now\<rparr>
      in node1\<lparr>n_Status := DeriveNodeState (Some node1) now offlineAfter\<rparr>)"

text \<open>\<open>Inl\<close> is the error.\<close>

definition Registry_Register ::
    "duration \<Rightarrow> RegisterNodeRequest \<Rightarrow> gotime \<Rightarrow> State \<Rightarrow> sched_error + Node \<times> State" where
  "Registry_Register offlineAfter req now state =
     (if reg_ID req = [] then Inl WorkerIdRequired
      else case map_of (Nodes state) (reg_ID req) of
        None \<Rightarrow>
          (let node = register_node offlineAfter req now (Node_zero\<lparr>n_ID := reg_ID req\<rparr>)
           in Inr (node, state\<lparr>Nodes := AList.update (reg_ID req) node (Nodes state),
                               NodeOrder := NodeOrder state @ [reg_ID req]\<rparr>))
      | Some old \<Rightarrow>
          (let node = register_node offlineAfter req now old
           in Inr (node, state\<lparr>Nodes := AList.update (reg_ID req) node (Nodes state)\<rparr>)))"

definition Registry_Heartbeat ::
    "duration \<Rightarrow> HeartbeatRequest \<Rightarrow> gotime \<Rightarrow> State \<Rightarrow> sched_error + Node \<times> State" where
  "Registry_Heartbeat offlineAfter req now state =
     (if hb_ID req = [] then Inl WorkerIdRequired
      else case map_of (Nodes state) (hb_ID req) of
        None \<Rightarrow> Inl (WorkerNotFound (hb_ID req))
      | Some old \<Rightarrow>
          (let node = heartbeat_node offlineAfter req now old
           in Inr (node, state\<lparr>Nodes := AList.update (hb_ID req) node (Nodes state)\<rparr>)))"

definition Registry_Get :: "string \<Rightarrow> State \<Rightarrow> Node option" where
  "Registry_Get ident state = map_of (Nodes state) ident"

text \<open>The same loop in \<open>Registry.Refresh\<close> and \<open>Scheduler.refreshNodeStatesLocked\<close>.\<close>

definition refreshNodeStates :: "duration \<Rightarrow> gotime \<Rightarrow> State \<Rightarrow> State" where
  "refreshNodeStates offlineAfter now state =
     state\<lparr>Nodes := map (\<lambda>(k, node). (k, node\<lparr>n_Status := DeriveNodeState (Some node) now offlineAfter\<rparr>)) (Nodes state)\<rparr>"

section \<open>Selecting a worker\<close>

type_synonym strategy = "Node option \<Rightarrow> Node option \<Rightarrow> int"

text \<open>\<open>None\<close> is a nil strategy.\<close>

record Scheduler =
  sch_strategy :: "strategy option"
  sch_offlineAfter :: duration

text \<open>The checks in front of the comparison.\<close>

definition candidate :: "Node option \<Rightarrow> Node option" where
  "candidate entry =
     (case entry of
        None \<Rightarrow> None
      | Some node \<Rightarrow>
          if n_Status node = NodeOffline then None
          else if n_Capacity node > 0 \<and> n_RunningTasks node \<ge> n_Capacity node then None
          else Some node)"

text \<open>One iteration of the loop, on the best candidate so far with its index.\<close>

definition select_step :: "strategy \<Rightarrow> State \<Rightarrow> nat \<Rightarrow> (nat \<times> Node) option \<Rightarrow> (nat \<times> Node) option" where
  "select_step strategy state index best =
     (case candidate (map_of (Nodes state) (NodeOrder state ! index)) of
        None \<Rightarrow> best
      | Some node \<Rightarrow>
          (case best of
             None \<Rightarrow> Some (index, node)
           | Some (bestIndex, bestNode) \<Rightarrow>
               if strategy (Some node) (Some bestNode) < 0 then Some (index, node) else best))"

definition selectNodeLocked :: "Scheduler \<Rightarrow> State \<Rightarrow> string option \<times> State" where
  "selectNodeLocked s state =
     (if NodeOrder state = [] then (None, state)
      else
        (let strategy = (case sch_strategy s of None \<Rightarrow> LeastLoaded_Compare | Some f \<Rightarrow> f);
             n = length (NodeOrder state);
             start = NextNodeIndex state mod n;
             best = fold (\<lambda>offset. select_step strategy state ((start + offset) mod n)) [0 ..< n] None
         in case best of
              None \<Rightarrow> (None, state)
            | Some (bestIndex, _) \<Rightarrow>
                (Some (NodeOrder state ! bestIndex), state\<lparr>NextNodeIndex := (bestIndex + 1) mod n\<rparr>)))"

section \<open>Assigning tasks\<close>

definition assign_task :: "string \<Rightarrow> gotime \<Rightarrow> SchedTask \<Rightarrow> SchedTask" where
  "assign_task worker now task =
     task\<lparr>t_AssignedWorker := worker, t_Status := TaskRunning, t_Message := ''assigned to worker'', t_StartedAt := Some now\<rparr>"

definition assign_node :: "duration \<Rightarrow> gotime \<Rightarrow> Node \<Rightarrow> Node" where
  "assign_node offlineAfter now node =
     (let node1 = node\<lparr>n_RunningTasks := n_RunningTasks node + 1\<rparr>
      in node1\<lparr>n_Status := DeriveNodeState (Some node1) now offlineAfter\<rparr>)"

definition assignTaskLocked :: "Scheduler \<Rightarrow> string \<Rightarrow> gotime \<Rightarrow> State \<Rightarrow> bool \<times> State" where
  "assignTaskLocked s ident now state =
     (case map_of (Tasks state) ident of
        None \<Rightarrow> (False, state)
      | Some task \<Rightarrow>
          if t_Status task \<noteq> TaskPending then (False, state)
          else case selectNodeLocked s state of
                 (None, state1) \<Rightarrow> (False, state1)
               | (Some worker, state1) \<Rightarrow>
                   (True, state1\<lparr>Tasks := modify ident (assign_task worker now) (Tasks state1),
                                 Nodes := modify worker (assign_node (sch_offlineAfter s) now) (Nodes state1)\<rparr>))"

text \<open>The pending tasks in the order of their creation.\<close>

definition pendingTasks :: "State \<Rightarrow> SchedTask list" where
  "pendingTasks state =
     sort_key (\<lambda>task. (t_CreatedAt task, t_ID task)) (filter (\<lambda>task. t_Status task = TaskPending) (map snd (Tasks state)))"

fun assign_all :: "Scheduler \<Rightarrow> SchedTask list \<Rightarrow> gotime \<Rightarrow> State \<Rightarrow> State" where
  "assign_all s [] now state = state"
| "assign_all s (task # rest) now state =
     (case assignTaskLocked s (t_ID task) now state of
        (False, state1) \<Rightarrow> state1
      | (True, state1) \<Rightarrow> assign_all s rest now state1)"

definition dispatchPendingLocked :: "Scheduler \<Rightarrow> gotime \<Rightarrow> State \<Rightarrow> State" where
  "dispatchPendingLocked s now state = assign_all s (pendingTasks state) now state"

definition DispatchPending :: "Scheduler \<Rightarrow> gotime \<Rightarrow> State \<Rightarrow> State" where
  "DispatchPending s now state = dispatchPendingLocked s now (refreshNodeStates (sch_offlineAfter s) now state)"

definition RefreshNodeStates :: "Scheduler \<Rightarrow> gotime \<Rightarrow> State \<Rightarrow> State" where
  "RefreshNodeStates s now state = refreshNodeStates (sch_offlineAfter s) now state"

section \<open>Overview\<close>

record StatusResponse =
  sr_GeneratedAt :: gotime
  sr_TotalWorkers :: nat
  sr_ActiveWorkers :: nat
  sr_PendingTasks :: nat
  sr_RunningTasks :: nat
  sr_CompletedTasks :: nat
  sr_Workers :: "Node list"
  sr_Tasks :: "SchedTask list"

definition Scheduler_Overview :: "Scheduler \<Rightarrow> gotime \<Rightarrow> State \<Rightarrow> StatusResponse \<times> State" where
  "Scheduler_Overview s now state =
     (let state1 = refreshNodeStates (sch_offlineAfter s) now state;
          nodes = map snd (Nodes state1);
          tasks = map snd (Tasks state1)
      in (\<lparr>sr_GeneratedAt = now, sr_TotalWorkers = length nodes,
           sr_ActiveWorkers = length (filter (\<lambda>node. n_Status node \<noteq> NodeOffline) nodes),
           sr_PendingTasks = length (filter (\<lambda>task. t_Status task = TaskPending) tasks),
           sr_RunningTasks = length (filter (\<lambda>task. t_Status task = TaskRunning) tasks),
           sr_CompletedTasks = length (filter (\<lambda>task. t_Status task = TaskCompleted) tasks),
           sr_Workers = sort_key n_ID nodes,
           sr_Tasks = sort_key (\<lambda>task. (t_CreatedAt task, t_ID task)) tasks\<rparr>, state1))"

section \<open>The invariant of the store\<close>

definition node_ok :: "string \<Rightarrow> Node \<Rightarrow> bool" where
  "node_ok k n \<longleftrightarrow> n_ID n = k \<and> k \<noteq> [] \<and> 0 < n_Capacity n \<and> 0 \<le> n_RunningTasks n"

definition task_ok :: "string set \<Rightarrow> string \<Rightarrow> SchedTask \<Rightarrow> bool" where
  "task_ok workers k t \<longleftrightarrow>
     t_ID t = k \<and> (t_AssignedWorker t = [] \<or> t_AssignedWorker t \<in> workers) \<and>
     (t_Status t = TaskPending \<longleftrightarrow> t_StartedAt t = None \<and> t_CompletedAt t = None) \<and>
     (t_Status t = TaskPending \<longrightarrow> t_AssignedWorker t = []) \<and>
     (t_Status t = TaskRunning \<longrightarrow> t_AssignedWorker t \<noteq> [] \<and> t_StartedAt t \<noteq> None \<and> t_CompletedAt t = None) \<and>
     (t_Status t \<in> {TaskCompleted, TaskFailed} \<longleftrightarrow> t_CompletedAt t \<noteq> None)"

definition nodes_ok :: "State \<Rightarrow> bool" where
  "nodes_ok state \<longleftrightarrow>
     NodeOrder state = map fst (Nodes state) \<and> distinct (NodeOrder state) \<and>
     (\<forall>(k, n) \<in> set (Nodes state). node_ok k n) \<and>
     (NextNodeIndex state = 0 \<or> NextNodeIndex state < length (NodeOrder state))"

definition tasks_ok :: "State \<Rightarrow> bool" where
  "tasks_ok state \<longleftrightarrow>
     map fst (Tasks state) = map (\<lambda>i. FormatTaskID (word_of_nat i)) [1 ..< Suc (length (Tasks state))] \<and>
     TaskCounter state = word_of_nat (length (Tasks state)) \<and> length (Tasks state) < 2 ^ 64 \<and>
     (\<forall>(k, t) \<in> set (Tasks state). task_ok (set (NodeOrder state)) k t)"

definition store_ok :: "State \<Rightarrow> bool" where
  "store_ok state \<longleftrightarrow> nodes_ok state \<and> tasks_ok state"

lemma store_ok_new: "store_ok NewMemoryStore"
  by (simp add: store_ok_def nodes_ok_def tasks_ok_def NewMemoryStore_def)

lemma task_ids_distinct:
  assumes "tasks_ok state"
  shows "distinct (map fst (Tasks state))"
proof -
  have "inj_on (\<lambda>i. FormatTaskID (word_of_nat i)) {1 ..< Suc (length (Tasks state))}"
    using assms
    by (intro inj_onI) (auto simp: tasks_ok_def FormatTaskID_inj unat_of_nat dest!: arg_cong [of _ _ unat])
  moreover have "map fst (Tasks state) = map (\<lambda>i. FormatTaskID (word_of_nat i)) [1 ..< Suc (length (Tasks state))]"
    using assms by (simp add: tasks_ok_def)
  ultimately show ?thesis by (metis distinct_map distinct_upt set_upt)
qed

lemma node_ids_distinct: "nodes_ok state \<Longrightarrow> distinct (map fst (Nodes state))"
  unfolding nodes_ok_def by metis

lemma task_entry: "tasks_ok state \<Longrightarrow> (k, t) \<in> set (Tasks state) \<Longrightarrow> t_ID t = k"
  unfolding tasks_ok_def task_ok_def by blast

lemma node_entry: "nodes_ok state \<Longrightarrow> (k, n) \<in> set (Nodes state) \<Longrightarrow> node_ok k n"
  unfolding nodes_ok_def by blast

text \<open>Steps that keep the keys.\<close>

lemma nodes_ok_upd:
  assumes "nodes_ok st" "NodeOrder st' = NodeOrder st" "map fst (Nodes st') = map fst (Nodes st)"
    "\<forall>(k, n) \<in> set (Nodes st'). node_ok k n" "NextNodeIndex st' = NextNodeIndex st \<or> NextNodeIndex st' < length (NodeOrder st)"
  shows "nodes_ok st'"
  using assms unfolding nodes_ok_def by metis

lemma tasks_ok_upd:
  assumes "tasks_ok st" "map fst (Tasks st') = map fst (Tasks st)" "TaskCounter st' = TaskCounter st"
    "\<forall>(k, t) \<in> set (Tasks st'). task_ok (set (NodeOrder st')) k t"
  shows "tasks_ok st'"
proof -
  have "length (Tasks st') = length (Tasks st)" using assms(2) by (metis length_map)
  then show ?thesis using assms unfolding tasks_ok_def by metis
qed

lemma tasks_ok_cong: "Tasks st' = Tasks st \<Longrightarrow> NodeOrder st' = NodeOrder st \<Longrightarrow> TaskCounter st' = TaskCounter st \<Longrightarrow>
    tasks_ok st' = tasks_ok st"
  by (simp add: tasks_ok_def)

lemma nodes_ok_cong: "Nodes st' = Nodes st \<Longrightarrow> NodeOrder st' = NodeOrder st \<Longrightarrow> NextNodeIndex st' = NextNodeIndex st \<Longrightarrow>
    nodes_ok st' = nodes_ok st"
  by (simp add: nodes_ok_def)

lemma entries_ok: "nodes_ok st \<Longrightarrow> \<forall>(k, n) \<in> set (Nodes st). node_ok k n"
  "tasks_ok st \<Longrightarrow> \<forall>(k, t) \<in> set (Tasks st). task_ok (set (NodeOrder st)) k t"
  unfolding nodes_ok_def tasks_ok_def by blast+

subsection \<open>Refreshing\<close>

lemma refresh_fields [simp]:
  "NodeOrder (refreshNodeStates d now st) = NodeOrder st" "Tasks (refreshNodeStates d now st) = Tasks st"
  "NextNodeIndex (refreshNodeStates d now st) = NextNodeIndex st" "TaskCounter (refreshNodeStates d now st) = TaskCounter st"
  by (simp_all add: refreshNodeStates_def)

lemma refresh_keys [simp]: "map fst (Nodes (refreshNodeStates d now st)) = map fst (Nodes st)"
  by (auto simp: refreshNodeStates_def)

lemma refresh_ok:
  assumes "store_ok st"
  shows "store_ok (refreshNodeStates d now st)"
proof -
  have "\<forall>(k, n) \<in> set (Nodes (refreshNodeStates d now st)). node_ok k n"
    using assms by (auto simp: refreshNodeStates_def store_ok_def nodes_ok_def node_ok_def)
  then have "nodes_ok (refreshNodeStates d now st)"
    using assms unfolding store_ok_def nodes_ok_def refresh_fields refresh_keys by blast
  moreover have "tasks_ok (refreshNodeStates d now st)"
    using assms tasks_ok_cong [of "refreshNodeStates d now st" st] by (simp add: store_ok_def)
  ultimately show ?thesis by (simp add: store_ok_def)
qed

section \<open>Selection\<close>

text \<open>The indices in the order of the scan.\<close>

definition rotation :: "State \<Rightarrow> nat list" where
  "rotation st =
     (let n = length (NodeOrder st) in map (\<lambda>offset. (NextNodeIndex st mod n + offset) mod n) [0 ..< n])"

definition candidate_at :: "State \<Rightarrow> nat \<Rightarrow> Node option" where
  "candidate_at st i = candidate (map_of (Nodes st) (NodeOrder st ! i))"

lemma rotation_set: "set (rotation st) = {..<length (NodeOrder st)}"
proof (cases "length (NodeOrder st)")
  case (Suc m)
  let ?n = "length (NodeOrder st)" and ?s = "NextNodeIndex st mod length (NodeOrder st)"
  have n: "0 < ?n" using Suc by simp
  have "i \<in> (\<lambda>offset. (?s + offset) mod ?n) ` {0 ..< ?n}" if "i < ?n" for i
  proof (rule image_eqI)
    have "(?s + (i + ?n - ?s) mod ?n) mod ?n = (?s + (i + ?n - ?s)) mod ?n" by (rule mod_add_right_eq)
    also have "?s + (i + ?n - ?s) = i + ?n" using mod_less_divisor [OF n, of "NextNodeIndex st"] by linarith
    also have "(i + ?n) mod ?n = i" using that by simp
    finally show "i = (?s + (i + ?n - ?s) mod ?n) mod ?n" by simp
  qed (use n in simp)
  moreover have "set (rotation st) = (\<lambda>offset. (?s + offset) mod ?n) ` {0 ..< ?n}" by (simp add: rotation_def Let_def)
  ultimately show ?thesis using n by (auto simp: mod_less_divisor)
qed (simp add: rotation_def)

text \<open>What the scan has found after some indices: nothing if there was no candidate, otherwise the first of the best.\<close>

definition best_of :: "State \<Rightarrow> nat list \<Rightarrow> (nat \<times> Node) option \<Rightarrow> bool" where
  "best_of st is best =
     (case best of
        None \<Rightarrow> \<forall>i \<in> set is. candidate_at st i = None
      | Some (b, node) \<Rightarrow>
          \<exists>before after. is = before @ b # after \<and> candidate_at st b = Some node \<and>
            (\<forall>i \<in> set before. \<forall>m. candidate_at st i = Some m \<longrightarrow> load_key node < load_key m) \<and>
            (\<forall>i \<in> set after. \<forall>m. candidate_at st i = Some m \<longrightarrow> load_key node \<le> load_key m))"

definition loads_ok :: "State \<Rightarrow> bool" where
  "loads_ok st \<longleftrightarrow> (\<forall>(k, n) \<in> set (Nodes st). load_ok n)"

lemma candidate_Some: "candidate e = Some n \<Longrightarrow> e = Some n"
  by (auto simp: candidate_def split: option.splits if_splits)

lemma candidate_load_ok: "loads_ok st \<Longrightarrow> candidate_at st i = Some n \<Longrightarrow> load_ok n"
  using map_of_SomeD [of "Nodes st" "NodeOrder st ! i" n]
  by (auto simp: candidate_at_def loads_ok_def dest!: candidate_Some)

lemma best_of_Some_I:
  "is = before @ b # after \<Longrightarrow> candidate_at st b = Some node \<Longrightarrow>
   \<forall>i \<in> set before. \<forall>m. candidate_at st i = Some m \<longrightarrow> load_key node < load_key m \<Longrightarrow>
   \<forall>i \<in> set after. \<forall>m. candidate_at st i = Some m \<longrightarrow> load_key node \<le> load_key m \<Longrightarrow> best_of st is (Some (b, node))"
  unfolding best_of_def by auto

lemma best_of_step:
  assumes "loads_ok st" "best_of st is best"
  shows "best_of st (is @ [i]) (select_step LeastLoaded_Compare st i best)"
proof (cases "candidate_at st i")
  case None
  then have same: "select_step LeastLoaded_Compare st i best = best" by (simp add: select_step_def candidate_at_def)
  show ?thesis
  proof (cases best)
    case (Some p)
    obtain b node where p: "p = (b, node)" by (cases p)
    obtain before after where split: "is = before @ b # after" "candidate_at st b = Some node"
      "\<forall>i \<in> set before. \<forall>m. candidate_at st i = Some m \<longrightarrow> load_key node < load_key m"
      "\<forall>i \<in> set after. \<forall>m. candidate_at st i = Some m \<longrightarrow> load_key node \<le> load_key m"
      using assms(2) unfolding Some p best_of_def by auto
    then show ?thesis using None unfolding same unfolding Some p
      by (intro best_of_Some_I [of _ before b "after @ [i]"]) auto
  qed (use assms(2) None same in \<open>simp add: best_of_def\<close>)
next
  case (Some n)
  show ?thesis
  proof (cases best)
    case None
    then have "select_step LeastLoaded_Compare st i best = Some (i, n)"
      using Some by (simp add: select_step_def candidate_at_def)
    moreover have "\<forall>j \<in> set is. candidate_at st j = None" using assms(2) None by (simp add: best_of_def)
    ultimately show ?thesis using Some by (simp add: best_of_Some_I [of _ "is" i "[]"])
  next
    case best: (Some p)
    obtain b node where p: "p = (b, node)" by (cases p)
    obtain before after where split: "is = before @ b # after" "candidate_at st b = Some node"
      "\<forall>i \<in> set before. \<forall>m. candidate_at st i = Some m \<longrightarrow> load_key node < load_key m"
      "\<forall>i \<in> set after. \<forall>m. candidate_at st i = Some m \<longrightarrow> load_key node \<le> load_key m"
      using assms(2) unfolding best p best_of_def by auto
    have cmp: "LeastLoaded_Compare (Some n) (Some node) < 0 \<longleftrightarrow> load_key n < load_key node"
      using candidate_load_ok [OF assms(1)] Some split(2) by (simp add: Compare_key)
    show ?thesis
    proof (cases "load_key n < load_key node")
      case True
      then have "select_step LeastLoaded_Compare st i best = Some (i, n)"
        using Some cmp by (simp add: select_step_def candidate_at_def best p)
      moreover have "\<forall>j \<in> set is. \<forall>m. candidate_at st j = Some m \<longrightarrow> load_key n < load_key m"
        using split True by (auto intro: less_trans less_le_trans)
      ultimately show ?thesis using Some by (simp add: best_of_Some_I [of _ "is" i "[]"])
    next
      case False
      then have "select_step LeastLoaded_Compare st i best = Some (b, node)"
        using Some cmp by (simp add: select_step_def candidate_at_def best p)
      moreover have "load_key node \<le> load_key n" using False by simp
      ultimately show ?thesis using split Some by (auto intro!: best_of_Some_I [of _ before b "after @ [i]"])
    qed
  qed
qed

lemma best_of_scan:
  assumes "loads_ok st" "best_of st is best"
  shows "best_of st (is @ js) (fold (select_step LeastLoaded_Compare st) js best)"
  using assms(2)
proof (induction js arbitrary: "is" best)
  case (Cons j js)
  show ?case using Cons.IH [OF best_of_step [OF assms(1) Cons.prems, of j]] by simp
qed simp

text \<open>The scheduler runs the least-loaded strategy, given or by default.\<close>

definition least_loaded :: "Scheduler \<Rightarrow> bool" where
  "least_loaded s \<longleftrightarrow> (case sch_strategy s of None \<Rightarrow> True | Some f \<Rightarrow> f = LeastLoaded_Compare)"

abbreviation strategy_of :: "Scheduler \<Rightarrow> strategy" where
  "strategy_of s \<equiv> (case sch_strategy s of None \<Rightarrow> LeastLoaded_Compare | Some f \<Rightarrow> f)"

lemma least_loaded_strategy: "least_loaded s \<Longrightarrow> strategy_of s = LeastLoaded_Compare"
  by (auto simp: least_loaded_def split: option.splits)

lemma selectNode_scan:
  assumes "NodeOrder st \<noteq> []"
  shows "selectNodeLocked s st =
    (case fold (select_step (strategy_of s) st) (rotation st) None of
       None \<Rightarrow> (None, st)
     | Some (b, _) \<Rightarrow> (Some (NodeOrder st ! b), st\<lparr>NextNodeIndex := (b + 1) mod length (NodeOrder st)\<rparr>))"
proof -
  have "fold (\<lambda>offset. select_step f st ((k + offset) mod n)) [0 ..< m] b =
      fold (select_step f st) (map (\<lambda>offset. (k + offset) mod n) [0 ..< m]) b" for f k n m b
    by (simp add: fold_map comp_def)
  then show ?thesis using assms unfolding selectNodeLocked_def rotation_def Let_def by simp
qed

lemma select_cases:
  assumes "least_loaded s" "loads_ok st"
  obtains (none) "selectNodeLocked s st = (None, st)" "\<forall>i < length (NodeOrder st). candidate_at st i = None"
    | (some) b node before after where
        "selectNodeLocked s st = (Some (NodeOrder st ! b), st\<lparr>NextNodeIndex := (b + 1) mod length (NodeOrder st)\<rparr>)"
        "rotation st = before @ b # after" "b < length (NodeOrder st)" "candidate_at st b = Some node"
        "\<forall>i \<in> set before. \<forall>m. candidate_at st i = Some m \<longrightarrow> load_key node < load_key m"
        "\<forall>i \<in> set after. \<forall>m. candidate_at st i = Some m \<longrightarrow> load_key node \<le> load_key m"
proof (cases "NodeOrder st = []")
  case True
  then show thesis by (intro none) (simp_all add: selectNodeLocked_def)
next
  case False
  have best: "best_of st (rotation st) (fold (select_step LeastLoaded_Compare st) (rotation st) None)"
    using best_of_scan [OF assms(2), of "[]" None "rotation st"] by (simp add: best_of_def)
  show thesis
  proof (cases "fold (select_step LeastLoaded_Compare st) (rotation st) None")
    case None
    then show thesis
      using best selectNode_scan [OF False, of s] least_loaded_strategy [OF assms(1)] rotation_set [of st] by (intro none) (auto simp: best_of_def)
  next
    case (Some p)
    obtain b node where p: "p = (b, node)" by (cases p)
    obtain before after where split: "rotation st = before @ b # after" "candidate_at st b = Some node"
      "\<forall>i \<in> set before. \<forall>m. candidate_at st i = Some m \<longrightarrow> load_key node < load_key m"
      "\<forall>i \<in> set after. \<forall>m. candidate_at st i = Some m \<longrightarrow> load_key node \<le> load_key m"
      using best unfolding Some p best_of_def by auto
    have "b \<in> set (rotation st)" by (simp add: split(1))
    then have "b < length (NodeOrder st)" by (simp add: rotation_set)
    then show thesis
      using some [OF _ split(1) _ split(2-4)] selectNode_scan [OF False, of s] least_loaded_strategy [OF assms(1)] Some p by simp
  qed
qed

section \<open>Dispatch\<close>

text \<open>Selection in general, for any strategy: the chosen worker is a registered candidate and only the index moves.\<close>

lemma select_step_candidate:
  assumes "\<forall>(b, node) \<in> set_option best. candidate_at st b = Some node \<and> b < n" "i < n"
  shows "\<forall>(b, node) \<in> set_option (select_step f st i best). candidate_at st b = Some node \<and> b < n"
  using assms by (auto simp: select_step_def candidate_at_def split: option.splits if_splits)

lemma select_scan_candidate:
  "\<forall>(b, node) \<in> set_option best. candidate_at st b = Some node \<and> b < n \<Longrightarrow> \<forall>i \<in> set is. i < n \<Longrightarrow>
   \<forall>(b, node) \<in> set_option (fold (select_step f st) is best). candidate_at st b = Some node \<and> b < n"
proof (induction "is" arbitrary: best)
  case (Cons i "is")
  have "\<forall>(b, node) \<in> set_option (select_step f st i best). candidate_at st b = Some node \<and> b < n"
    by (rule select_step_candidate [OF Cons.prems(1)]) (use Cons.prems(2) in simp)
  from Cons.IH [OF this] show ?case using Cons.prems(2) by simp
qed simp

lemma selectNode_Some:
  assumes "selectNodeLocked s st = (Some w, st')"
  obtains b node where "b < length (NodeOrder st)" "w = NodeOrder st ! b" "candidate_at st b = Some node"
    "st' = st\<lparr>NextNodeIndex := (b + 1) mod length (NodeOrder st)\<rparr>"
proof -
  let ?n = "length (NodeOrder st)"
  have ne: "NodeOrder st \<noteq> []" using assms by (auto simp: selectNodeLocked_def)
  define best where "best = fold (select_step (strategy_of s) st) (rotation st) None"
  have "\<forall>(b, node) \<in> set_option best. candidate_at st b = Some node \<and> b < ?n"
    unfolding best_def by (rule select_scan_candidate) (simp_all add: rotation_set)
  then show thesis
    using that assms selectNode_scan [OF ne, of s, folded best_def] by (cases best) auto
qed

lemma selectNode_None: "selectNodeLocked s st = (None, st') \<Longrightarrow> st' = st"
  by (auto simp: selectNodeLocked_def Let_def split: if_splits option.splits)

text \<open>The state after an assignment.\<close>

definition assigned :: "Scheduler \<Rightarrow> string \<Rightarrow> nat \<Rightarrow> gotime \<Rightarrow> State \<Rightarrow> State" where
  "assigned s ident b now st =
     st\<lparr>NextNodeIndex := (b + 1) mod length (NodeOrder st),
        Tasks := modify ident (assign_task (NodeOrder st ! b) now) (Tasks st),
        Nodes := modify (NodeOrder st ! b) (assign_node (sch_offlineAfter s) now) (Nodes st)\<rparr>"

lemma assignTask_cases:
  assumes "assignTaskLocked s ident now st = (ok, st')" "map_of (Tasks st) ident = Some task" "t_Status task = TaskPending"
  obtains (refused) "\<not> ok" "st' = st" "fst (selectNodeLocked s st) = None"
    | (taken) b node where "ok" "b < length (NodeOrder st)" "candidate_at st b = Some node" "st' = assigned s ident b now st"
proof -
  obtain w st1 where sel: "selectNodeLocked s st = (w, st1)" by (metis surj_pair)
  show thesis
  proof (cases w)
    case None
    then show thesis using refused assms sel selectNode_None [of s st st1] by (simp add: assignTaskLocked_def)
  next
    case (Some worker)
    then obtain b node where b: "b < length (NodeOrder st)" "worker = NodeOrder st ! b" "candidate_at st b = Some node"
      "st1 = st\<lparr>NextNodeIndex := (b + 1) mod length (NodeOrder st)\<rparr>"
      using sel selectNode_Some by metis
    then show thesis
      using taken [of b node] assms sel Some by (simp add: assignTaskLocked_def assigned_def)
  qed
qed

lemma assign_node_ok: "node_ok k n \<Longrightarrow> node_ok k (assign_node d now n)"
  by (simp add: node_ok_def assign_node_def Let_def)

lemma assign_task_ok:
  "task_ok W k t \<Longrightarrow> t_Status t = TaskPending \<Longrightarrow> w \<in> W \<Longrightarrow> w \<noteq> [] \<Longrightarrow> task_ok W k (assign_task w now t)"
  by (simp add: task_ok_def assign_task_def)

lemma assigned_fields [simp]:
  "NodeOrder (assigned s ident b now st) = NodeOrder st" "TaskCounter (assigned s ident b now st) = TaskCounter st"
  "map fst (Tasks (assigned s ident b now st)) = map fst (Tasks st)" "length (Tasks (assigned s ident b now st)) = length (Tasks st)"
  "map fst (Nodes (assigned s ident b now st)) = map fst (Nodes st)"
  by (simp_all add: assigned_def)

lemma assigned_nodes_ok:
  assumes "nodes_ok st" "b < length (NodeOrder st)"
  shows "nodes_ok (assigned s ident b now st)"
proof -
  have "\<forall>(k, n) \<in> set (Nodes (assigned s ident b now st)). node_ok k n"
    using assms(1) unfolding assigned_def by simp (intro modify_all assign_node_ok; simp add: nodes_ok_def)
  moreover have "NextNodeIndex (assigned s ident b now st) < length (NodeOrder st)"
    using assms(2) by (simp add: assigned_def) (metis gr_implies_not0 length_0_conv mod_less_divisor neq0_conv)
  ultimately show ?thesis using assms(1) unfolding nodes_ok_def assigned_fields by blast
qed

lemma assigned_tasks_ok:
  assumes "store_ok st" "b < length (NodeOrder st)" "map_of (Tasks st) ident = Some task" "t_Status task = TaskPending"
  shows "tasks_ok (assigned s ident b now st)"
proof -
  have worker: "NodeOrder st ! b \<in> set (NodeOrder st)" using assms(2) by simp
  have nodes: "\<forall>(k, n) \<in> set (Nodes st). node_ok k n" "NodeOrder st = map fst (Nodes st)"
    using assms(1) by (simp_all add: store_ok_def nodes_ok_def)
  have "NodeOrder st ! b \<in> fst ` set (Nodes st)" using worker nodes(2) by (metis list.set_map)
  then have "NodeOrder st ! b \<noteq> []" using nodes(1) by (auto simp: node_ok_def)
  moreover have "distinct (map fst (Tasks st))" using assms(1) task_ids_distinct by (simp add: store_ok_def)
  then have "t = task" if "(ident, t) \<in> set (Tasks st)" for t
    using that assms(3) map_of_eq_Some_iff [of "Tasks st" ident] by simp
  ultimately have step: "task_ok (set (NodeOrder st)) ident (assign_task (NodeOrder st ! b) now t)"
    if "(ident, t) \<in> set (Tasks st)" "task_ok (set (NodeOrder st)) ident t" for t
    using that assms(4) worker by (intro assign_task_ok) auto
  have old: "\<forall>(k, t) \<in> set (Tasks st). task_ok (set (NodeOrder st)) k t"
    using assms(1) unfolding store_ok_def tasks_ok_def by blast
  have "\<forall>(k, t) \<in> set (Tasks (assigned s ident b now st)). task_ok (set (NodeOrder st)) k t"
    using modify_all [OF old step] by (simp add: assigned_def)
  then show ?thesis using assms(1) unfolding store_ok_def tasks_ok_def assigned_fields by blast
qed

lemma modify_pending:
  "\<forall>(k, t) \<in> set m. t_ID t = k \<Longrightarrow>
   filter (\<lambda>t. t_Status t = TaskPending) (map snd (modify ident (assign_task w now) m)) =
   filter (\<lambda>t. t_ID t \<noteq> ident) (filter (\<lambda>t. t_Status t = TaskPending) (map snd m))"
  by (induction m) (auto simp: assign_task_def modify_def)

lemma assigned_pending:
  assumes "tasks_ok st"
  shows "pendingTasks (assigned s ident b now st) = filter (\<lambda>t. t_ID t \<noteq> ident) (pendingTasks st)"
proof -
  have "\<forall>(k, t) \<in> set (Tasks st). t_ID t = k" using task_entry [OF assms] by auto
  from modify_pending [OF this, of ident "NodeOrder st ! b" now] show ?thesis
    unfolding pendingTasks_def filter_sort by (simp add: assigned_def del: filter_filter)
qed

lemma pending_lookup:
  assumes "tasks_ok st" "t \<in> set (pendingTasks st)"
  shows "map_of (Tasks st) (t_ID t) = Some t" "t_Status t = TaskPending"
proof -
  obtain k where k: "(k, t) \<in> set (Tasks st)" using assms(2) by (auto simp: pendingTasks_def)
  then have "t_ID t = k" using assms(1) by (auto simp: tasks_ok_def task_ok_def)
  then show "map_of (Tasks st) (t_ID t) = Some t" using k task_ids_distinct [OF assms(1)] by simp
  show "t_Status t = TaskPending" using assms(2) by (simp add: pendingTasks_def)
qed

lemma pending_ids_distinct:
  assumes "tasks_ok st"
  shows "distinct (map t_ID (pendingTasks st))"
proof -
  have eq: "map t_ID (map snd (Tasks st)) = map fst (Tasks st)"
    using task_entry [OF assms] by auto
  have "distinct (map t_ID (filter P (map snd (Tasks st))))" for P
    using task_ids_distinct [OF assms] distinct_map_filter [of t_ID "map snd (Tasks st)" P] by (simp only: eq)
  then show ?thesis
    unfolding pendingTasks_def by (metis (no_types, lifting) distinct_map distinct_sort set_sort)
qed

text \<open>Assigning the first pending task leaves the others.\<close>

lemma assigned_next:
  assumes "tasks_ok st" "pendingTasks st = t # ps"
  shows "pendingTasks (assigned s (t_ID t) b now st) = ps"
proof -
  have "distinct (map t_ID (t # ps))" using pending_ids_distinct [OF assms(1)] assms(2) by metis
  then have "filter (\<lambda>u. t_ID u \<noteq> t_ID t) ps = ps" by (intro filter_True) (metis imageI distinct.simps(2) list.simps(9) list.set_map)
  then show ?thesis using assigned_pending [OF assms(1)] assms(2) by simp
qed

text \<open>No node is filled beyond its capacity.\<close>

definition within_capacity :: "State \<Rightarrow> bool" where
  "within_capacity st \<longleftrightarrow> (\<forall>(k, n) \<in> set (Nodes st). n_RunningTasks n \<le> n_Capacity n)"

lemma assigned_capacity:
  assumes "nodes_ok st" "candidate_at st b = Some node" "within_capacity st"
  shows "within_capacity (assigned s ident b now st)"
proof -
  have node: "map_of (Nodes st) (NodeOrder st ! b) = Some node" using assms(2) by (auto simp: candidate_at_def dest: candidate_Some)
  have cap: "n_RunningTasks node < n_Capacity node"
    using assms(1,2) map_of_SomeD [OF node]
    by (auto simp: candidate_at_def candidate_def nodes_ok_def node_ok_def split: option.splits if_splits)
  have "distinct (map fst (Nodes st))" using node_ids_distinct [OF assms(1)] .
  then have "n = node" if "(NodeOrder st ! b, n) \<in> set (Nodes st)" for n
    using that node map_of_eq_Some_iff [of "Nodes st"] by simp
  then have step: "n_RunningTasks (assign_node d now n) \<le> n_Capacity (assign_node d now n)"
    if "(NodeOrder st ! b, n) \<in> set (Nodes st)" "n_RunningTasks n \<le> n_Capacity n" for n d
    using that cap by (auto simp: assign_node_def Let_def)
  have old: "\<forall>(k, n) \<in> set (Nodes st). n_RunningTasks n \<le> n_Capacity n" using assms(3) by (simp add: within_capacity_def)
  show ?thesis using modify_all [OF old step] by (simp add: within_capacity_def assigned_def)
qed

text \<open>The loop of a dispatch over the pending tasks \<open>ps\<close>: it serves the first \<open>k\<close> of them and leaves the others.\<close>

definition served :: "Scheduler \<Rightarrow> gotime \<Rightarrow> SchedTask list \<Rightarrow> nat \<Rightarrow> State \<Rightarrow> State \<Rightarrow> bool" where
  "served s now ps k st st' \<longleftrightarrow>
     k \<le> length ps \<and> pendingTasks st' = drop k ps \<and>
     (k = length ps \<or> fst (selectNodeLocked s st') = None) \<and>
     (\<forall>t \<in> set (take k ps). \<exists>w \<in> set (NodeOrder st). map_of (Tasks st') (t_ID t) = Some (assign_task w now t)) \<and>
     (\<forall>ident. ident \<notin> t_ID ` set (take k ps) \<longrightarrow> map_of (Tasks st') ident = map_of (Tasks st) ident) \<and>
     NodeOrder st' = NodeOrder st"

lemma assign_all_served:
  assumes "store_ok st" "ps = pendingTasks st"
  shows "store_ok (assign_all s ps now st) \<and> (\<exists>k. served s now ps k st (assign_all s ps now st)) \<and>
    (within_capacity st \<longrightarrow> within_capacity (assign_all s ps now st))"
  using assms
proof (induction ps arbitrary: st)
  case Nil
  then have "served s now [] 0 st st" by (simp add: served_def)
  then show ?case using Nil.prems by auto
next
  case (Cons t ps)
  note ok = Cons.prems(1) and ps = Cons.prems(2)
  have tasks: "tasks_ok st" using ok by (simp add: store_ok_def)
  have t: "map_of (Tasks st) (t_ID t) = Some t" "t_Status t = TaskPending"
    using pending_lookup [OF tasks, of t] ps [symmetric] by simp_all
  obtain took st1 where run: "assignTaskLocked s (t_ID t) now st = (took, st1)" by (metis surj_pair)
  from run t show ?case
  proof (cases rule: assignTask_cases)
    case refused
    then have "served s now (t # ps) 0 st st1" using ps by (simp add: served_def)
    then show ?thesis using refused run ok by auto
  next
    case (taken b node)
    have ok1: "store_ok st1"
      using assigned_nodes_ok assigned_tasks_ok [OF ok taken(2) t] ok taken by (simp add: store_ok_def)
    have "distinct (map t_ID (t # ps))" using pending_ids_distinct [OF tasks] ps by metis
    then have fresh: "t_ID t \<notin> t_ID ` set ps" by simp
    have ps1: "ps = pendingTasks st1" using assigned_next [OF tasks ps [symmetric]] taken(4) by simp
    let ?st' = "assign_all s ps now st1"
    have run': "assign_all s (t # ps) now st = ?st'" using run taken(1) by simp
    obtain k where k: "served s now ps k st1 ?st'" using Cons.IH [OF ok1 ps1] by blast
    have "set (take k ps) \<subseteq> set ps" by (rule set_take_subset)
    then have "t_ID t \<notin> t_ID ` set (take k ps)" using fresh by blast
    then have "map_of (Tasks ?st') (t_ID t) = map_of (Tasks st1) (t_ID t)" using k by (simp add: served_def)
    also have "\<dots> = Some (assign_task (NodeOrder st ! b) now t)" using t taken(4) by (simp add: assigned_def)
    finally have new: "map_of (Tasks ?st') (t_ID t) = Some (assign_task (NodeOrder st ! b) now t)" .
    have other: "map_of (Tasks st1) ident = map_of (Tasks st) ident" if "ident \<noteq> t_ID t" for ident
      using that taken(4) by (simp add: assigned_def)
    have "served s now (t # ps) (Suc k) st ?st'"
      using k new other taken(2,4) by (auto simp: served_def)
    moreover have "within_capacity st1" if "within_capacity st"
      using assigned_capacity [OF _ taken(3) that] ok taken(4) by (simp add: store_ok_def)
    ultimately show ?thesis using Cons.IH [OF ok1 ps1] run' by auto
  qed
qed

lemma assignTask_keys: "map fst (Tasks (snd (assignTaskLocked s ident now st))) = map fst (Tasks st)"
proof -
  have "Tasks (snd (selectNodeLocked s st)) = Tasks st"
    by (auto simp: selectNodeLocked_def Let_def split: option.splits)
  then show ?thesis by (auto simp: assignTaskLocked_def split: option.splits prod.splits)
qed

lemma assign_all_keys: "map fst (Tasks (assign_all s ps now st)) = map fst (Tasks st)"
proof (induction ps arbitrary: st)
  case (Cons t ps)
  obtain ok st1 where run: "assignTaskLocked s (t_ID t) now st = (ok, st1)" by (metis surj_pair)
  then have "map fst (Tasks st1) = map fst (Tasks st)" using assignTask_keys [of s "t_ID t" now st] by simp
  then show ?case using Cons.IH [of st1] run by (cases ok) simp_all
qed simp

lemma dispatch_keys: "map fst (Tasks (DispatchPending s now st)) = map fst (Tasks st)"
  by (simp add: DispatchPending_def dispatchPendingLocked_def assign_all_keys)

text \<open>What a dispatch never changes in a node.\<close>

definition same_worker :: "Node \<Rightarrow> Node \<Rightarrow> bool" where
  "same_worker n n' \<longleftrightarrow>
     n_ID n' = n_ID n \<and> n_Address n' = n_Address n \<and> n_Capacity n' = n_Capacity n \<and> n_Labels n' = n_Labels n \<and>
     n_LastHeartbeat n' = n_LastHeartbeat n"

lemma selectNode_nodes: "Nodes (snd (selectNodeLocked s st)) = Nodes st"
  by (simp add: selectNodeLocked_def Let_def split: option.split prod.split)

lemma assignTask_worker:
  assumes "assignTaskLocked s ident now st = (ok, st')" "map_of (Nodes st) k = Some n"
  shows "\<exists>n'. map_of (Nodes st') k = Some n' \<and> same_worker n n'"
proof -
  obtain c st1 where sel: "selectNodeLocked s st = (c, st1)" by fastforce
  then have "Nodes st1 = Nodes st" using selectNode_nodes [of s st] by simp
  then show ?thesis using assms sel
    by (auto simp: assignTaskLocked_def same_worker_def assign_node_def Let_def split: option.splits if_splits)
qed

lemma assign_all_worker:
  "map_of (Nodes st) k = Some n \<Longrightarrow> \<exists>n'. map_of (Nodes (assign_all s ts now st)) k = Some n' \<and> same_worker n n'"
proof (induction ts arbitrary: st n)
  case (Cons t ts)
  obtain ok st1 where run: "assignTaskLocked s (t_ID t) now st = (ok, st1)" by fastforce
  from assignTask_worker [OF run Cons.prems] obtain n1 where n1: "map_of (Nodes st1) k = Some n1" "same_worker n n1" by blast
  show ?case using Cons.IH [OF n1(1)] n1 run by (cases ok) (auto simp: same_worker_def)
qed (simp add: same_worker_def)

lemma dispatch_worker:
  assumes "map_of (Nodes st) k = Some n"
  shows "\<exists>n'. map_of (Nodes (DispatchPending s now st)) k = Some n' \<and> same_worker n n'"
proof -
  have "\<exists>n1. map_of (Nodes (refreshNodeStates d now st)) k = Some n1 \<and> same_worker n n1" for d
    using assms by (auto simp: refreshNodeStates_def map_of_map same_worker_def comp_def)
  then obtain n1 where "map_of (Nodes (refreshNodeStates (sch_offlineAfter s) now st)) k = Some n1" "same_worker n n1" by blast
  then show ?thesis using assign_all_worker [of "refreshNodeStates (sch_offlineAfter s) now st" k n1 s]
    by (simp add: DispatchPending_def dispatchPendingLocked_def same_worker_def)
qed

section \<open>Properties\<close>

lemma index_entry:
  assumes "nodes_ok st" "(k, n) \<in> set (Nodes st)"
  obtains i where "i < length (NodeOrder st)" "candidate_at st i = candidate (Some n)"
proof -
  have "k \<in> set (NodeOrder st)" using assms by (force simp: nodes_ok_def)
  then obtain i where i: "i < length (NodeOrder st)" "NodeOrder st ! i = k" by (metis in_set_conv_nth)
  have "map_of (Nodes st) k = Some n" using assms(2) node_ids_distinct [OF assms(1)] by simp
  then show thesis using that [OF i(1)] i(2) by (simp add: candidate_at_def)
qed



text \<open>Two workers, one of them half full, and two pending tasks.\<close>

definition sample_node :: "string \<Rightarrow> int \<Rightarrow> Node" where
  "sample_node ident running =
     \<lparr>n_ID = ident, n_Address = ''127.0.0.1:9001'', n_Capacity = 2, n_Labels = [], n_RunningTasks = running,
      n_Status = NodeReady, n_LastHeartbeat = 100\<rparr>"

definition sample_sched_task :: "string \<Rightarrow> gotime \<Rightarrow> SchedTask" where
  "sample_sched_task ident created =
     \<lparr>t_ID = ident, t_Model = ''m'', t_Operation = ''generate'', t_PayloadRef = ''hi'', t_Metadata = [], t_Status = TaskPending,
      t_AssignedWorker = [], t_Message = ''queued'', t_CreatedAt = created, t_StartedAt = None, t_CompletedAt = None\<rparr>"

definition sample_store :: State where
  "sample_store =
     \<lparr>Nodes = [(''a'', sample_node ''a'' 1), (''b'', sample_node ''b'' 0)],
      Tasks = [(''task-000001'', sample_sched_task ''task-000001'' 5), (''task-000002'', sample_sched_task ''task-000002'' 3)],
      NodeOrder = [''a'', ''b''], NextNodeIndex = 0, TaskCounter = 2\<rparr>"

definition sample_scheduler :: Scheduler where
  "sample_scheduler = \<lparr>sch_strategy = Some LeastLoaded_Compare, sch_offlineAfter = 30 * second\<rparr>"

lemma FormatTaskID_samples: "FormatTaskID 1 = ''task-000001''" "FormatTaskID 2 = ''task-000002''"
proof -
  have "to_string 1 = ''1''" "to_string 2 = ''2''" by (simp_all add: to_string.simps digit_chars)
  moreover have "unat (1 :: 64 word) = 1" "unat (2 :: 64 word) = 2" by simp_all
  moreover have "replicate (6 - length ''1'') (CHR ''0'') = ''00000''" "replicate (6 - length ''2'') (CHR ''0'') = ''00000''"
    by (simp_all add: eval_nat_numeral)
  ultimately show "FormatTaskID 1 = ''task-000001''" "FormatTaskID 2 = ''task-000002''"
    unfolding FormatTaskID_def Let_def by (simp_all only: append.simps)
qed

lemma sample_store_ok: "store_ok sample_store" "loads_ok sample_store" "least_loaded sample_scheduler"
proof -
  have "nodes_ok sample_store" by (simp add: nodes_ok_def node_ok_def sample_store_def sample_node_def)
  moreover have "map fst (Tasks sample_store) = map (\<lambda>i. FormatTaskID (word_of_nat i)) [1 ..< Suc (length (Tasks sample_store))]"
    using FormatTaskID_samples by (simp add: sample_store_def)
  then have "tasks_ok sample_store"
    by (simp add: tasks_ok_def task_ok_def) (simp add: sample_store_def sample_sched_task_def)
  ultimately show "store_ok sample_store" by (simp add: store_ok_def)
  show "loads_ok sample_store" by (simp add: loads_ok_def load_ok_def sample_store_def sample_node_def)
  show "least_loaded sample_scheduler" by (simp add: least_loaded_def sample_scheduler_def)
qed



end
