(* ===== verification/Sched_Service.thy ===== *)
theory Sched_Service
  imports Sched_Dispatch
begin

text \<open>
  The services of the scheduler (\<open>scheduler/internal/service\<close>) and its background jobs (\<open>scheduler/internal/monitor/checker.go\<close>).
  A service call is a few blocks, each atomic under the store's lock; other calls and the checker may come in between. The
  calls are defined as the source composes them; the properties are about every sequence of blocks, so they hold for every
  interleaving of calls.
\<close>

section \<open>Blocks\<close>

text \<open>The locked part of \<open>TaskService.Submit\<close>.\<close>

definition new_task :: "string \<Rightarrow> SubmitTaskRequest \<Rightarrow> gotime \<Rightarrow> SchedTask" where
  "new_task ident req now =
     \<lparr>t_ID = ident, t_Model = sub_Model req, t_Operation = sub_Operation req, t_PayloadRef = sub_PayloadRef req,
      t_Metadata = sub_Metadata req, t_Status = TaskPending, t_AssignedWorker = [], t_Message = ''queued'',
      t_CreatedAt = now, t_StartedAt = None, t_CompletedAt = None\<rparr>"

definition submit_block :: "SubmitTaskRequest \<Rightarrow> gotime \<Rightarrow> State \<Rightarrow> string \<times> State" where
  "submit_block req now state =
     (let counter = TaskCounter state + 1;
          taskID = FormatTaskID counter
      in (taskID, state\<lparr>TaskCounter := counter, Tasks := AList.update taskID (new_task taskID req now) (Tasks state)\<rparr>))"

text \<open>The locked part of \<open>TaskService.Complete\<close>: what it does to the task and to the node.\<close>

definition complete_task :: "CompleteTaskRequest \<Rightarrow> gotime \<Rightarrow> SchedTask \<Rightarrow> SchedTask" where
  "complete_task req now task =
     (let task1 = task\<lparr>t_CompletedAt := Some now, t_Message := done_Message req\<rparr>
      in if done_Success req
         then (let task2 = task1\<lparr>t_Status := TaskCompleted\<rparr>
               in if t_Message task2 = [] then task2\<lparr>t_Message := ''completed''\<rparr> else task2)
         else (let task2 = task1\<lparr>t_Status := TaskFailed\<rparr>
               in if t_Message task2 = [] then task2\<lparr>t_Message := ''failed''\<rparr> else task2))"

definition release_node :: "Node \<Rightarrow> Node" where
  "release_node node = (if n_RunningTasks node > 0 then node\<lparr>n_RunningTasks := n_RunningTasks node - 1\<rparr> else node)"

definition complete_block :: "string \<Rightarrow> CompleteTaskRequest \<Rightarrow> gotime \<Rightarrow> State \<Rightarrow> sched_error + State" where
  "complete_block ident req now state =
     (case map_of (Tasks state) ident of
        None \<Rightarrow> Inl (TaskNotFound ident)
      | Some task \<Rightarrow>
          (let wasRunning = (t_Status task = TaskRunning);
               state1 = state\<lparr>Tasks := modify ident (complete_task req now) (Tasks state)\<rparr>
           in Inr (if wasRunning \<and> t_AssignedWorker task \<noteq> []
                   then state1\<lparr>Nodes := modify (t_AssignedWorker task) release_node (Nodes state1)\<rparr>
                   else state1)))"

section \<open>Services\<close>

definition TaskService_Get :: "string \<Rightarrow> State \<Rightarrow> SchedTask option" where
  "TaskService_Get ident state = map_of (Tasks state) ident"

definition NodeService_Register ::
    "Scheduler \<Rightarrow> RegisterNodeRequest \<Rightarrow> gotime \<Rightarrow> State \<Rightarrow> (sched_error + Node) \<times> State" where
  "NodeService_Register s req now state =
     (case Registry_Register (sch_offlineAfter s) req now state of
        Inl e \<Rightarrow> (Inl e, state)
      | Inr (_, state1) \<Rightarrow>
          (let state2 = DispatchPending s now state1
           in case Registry_Get (reg_ID req) state2 of
                None \<Rightarrow> (Inl (WorkerNotFound (reg_ID req)), state2)
              | Some node \<Rightarrow> (Inr node, state2)))"

definition NodeService_Heartbeat ::
    "Scheduler \<Rightarrow> HeartbeatRequest \<Rightarrow> gotime \<Rightarrow> State \<Rightarrow> (sched_error + Node) \<times> State" where
  "NodeService_Heartbeat s req now state =
     (case Registry_Heartbeat (sch_offlineAfter s) req now state of
        Inl e \<Rightarrow> (Inl e, state)
      | Inr (_, state1) \<Rightarrow>
          (let state2 = DispatchPending s now state1
           in case Registry_Get (hb_ID req) state2 of
                None \<Rightarrow> (Inl (WorkerNotFound (hb_ID req)), state2)
              | Some node \<Rightarrow> (Inr node, state2)))"

definition TaskService_Submit ::
    "Scheduler \<Rightarrow> SubmitTaskRequest \<Rightarrow> gotime \<Rightarrow> State \<Rightarrow> (sched_error + SchedTask) \<times> State" where
  "TaskService_Submit s req now state =
     (if sub_Model req = [] then (Inl ModelRequired, state)
      else if sub_Operation req = [] then (Inl OperationRequired, state)
      else case submit_block req now state of (taskID, state1) \<Rightarrow>
        (let state2 = DispatchPending s now state1
         in case TaskService_Get taskID state2 of
              None \<Rightarrow> (Inl (TaskNotFound taskID), state2)
            | Some task \<Rightarrow> (Inr task, state2)))"

definition TaskService_Complete ::
    "Scheduler \<Rightarrow> string \<Rightarrow> CompleteTaskRequest \<Rightarrow> gotime \<Rightarrow> State \<Rightarrow> (sched_error + SchedTask) \<times> State" where
  "TaskService_Complete s taskID req now state =
     (if taskID = [] then (Inl TaskIdRequired, state)
      else case complete_block taskID req now state of
             Inl e \<Rightarrow> (Inl e, state)
           | Inr state1 \<Rightarrow>
               (let state2 = DispatchPending s now state1
                in case TaskService_Get taskID state2 of
                     None \<Rightarrow> (Inl (TaskNotFound taskID), state2)
                   | Some task \<Rightarrow> (Inr task, state2)))"

definition TaskService_Status :: "Scheduler \<Rightarrow> gotime \<Rightarrow> State \<Rightarrow> StatusResponse \<times> State" where
  "TaskService_Status s now state = Scheduler_Overview s now state"

text \<open>One tick of \<open>Checker.Start\<close>'s loop; without an interval it is five seconds.\<close>

definition Checker_tick :: "Scheduler \<Rightarrow> gotime \<Rightarrow> State \<Rightarrow> State" where
  "Checker_tick s now state = DispatchPending s now (RefreshNodeStates s now state)"

definition NewChecker_interval :: "duration \<Rightarrow> duration" where
  "NewChecker_interval interval = (if interval \<le> 0 then 5 * second else interval)"

section \<open>Sequences of blocks\<close>

datatype store_block =
    BlockRegister RegisterNodeRequest gotime
  | BlockHeartbeat HeartbeatRequest gotime
  | BlockSubmit SubmitTaskRequest gotime
  | BlockComplete string CompleteTaskRequest gotime
  | BlockDispatch gotime
  | BlockRefresh gotime

fun run_block :: "Scheduler \<Rightarrow> store_block \<Rightarrow> State \<Rightarrow> State" where
  "run_block s (BlockRegister req now) st =
     (case Registry_Register (sch_offlineAfter s) req now st of Inl _ \<Rightarrow> st | Inr (_, st') \<Rightarrow> st')"
| "run_block s (BlockHeartbeat req now) st =
     (case Registry_Heartbeat (sch_offlineAfter s) req now st of Inl _ \<Rightarrow> st | Inr (_, st') \<Rightarrow> st')"
| "run_block s (BlockSubmit req now) st = snd (submit_block req now st)"
| "run_block s (BlockComplete ident req now) st = (case complete_block ident req now st of Inl _ \<Rightarrow> st | Inr st' \<Rightarrow> st')"
| "run_block s (BlockDispatch now) st = DispatchPending s now st"
| "run_block s (BlockRefresh now) st = RefreshNodeStates s now st"

definition run_blocks :: "Scheduler \<Rightarrow> store_block list \<Rightarrow> State \<Rightarrow> State" where
  "run_blocks s bs st = fold (run_block s) bs st"

section \<open>The invariant\<close>

lemma update_new: "k \<notin> set (map fst m) \<Longrightarrow> AList.update k v m = m @ [(k, v)]"
  by (induction m) auto

lemma modify_fresh: "k \<notin> fst ` set m \<Longrightarrow> modify k f m = m"
  by (induction m) (auto simp: modify_def)

lemma update_old: "k \<in> set (map fst m) \<Longrightarrow> distinct (map fst m) \<Longrightarrow> AList.update k v m = modify k (\<lambda>_. v) m"
proof (induction m)
  case (Cons p m)
  show ?case
  proof (cases "fst p = k")
    case True
    then have "modify k (\<lambda>_. v) m = m" using Cons.prems(2) by (intro modify_fresh) auto
    then show ?thesis using True by (cases p) (simp add: modify_def)
  next
    case False
    then show ?thesis using Cons by (cases p) (simp add: modify_def)
  qed
qed simp

lemma modified_nodes_ok:
  assumes "store_ok st" "\<And>n. (k, n) \<in> set (Nodes st) \<Longrightarrow> node_ok k n \<Longrightarrow> node_ok k (f n)"
  shows "store_ok (st\<lparr>Nodes := modify k f (Nodes st)\<rparr>)"
proof -
  have ok: "nodes_ok st" "tasks_ok st" using assms(1) by (simp_all add: store_ok_def)
  have "nodes_ok (st\<lparr>Nodes := modify k f (Nodes st)\<rparr>)"
    using modify_all [OF entries_ok(1) [OF ok(1)] assms(2)] by (intro nodes_ok_upd [OF ok(1)]) simp_all
  then show ?thesis using ok(2) tasks_ok_cong [of "st\<lparr>Nodes := modify k f (Nodes st)\<rparr>" st] by (simp add: store_ok_def)
qed

lemma modified_tasks_ok:
  assumes "store_ok st"
    "\<And>t. (k, t) \<in> set (Tasks st) \<Longrightarrow> task_ok (set (NodeOrder st)) k t \<Longrightarrow> task_ok (set (NodeOrder st)) k (f t)"
  shows "store_ok (st\<lparr>Tasks := modify k f (Tasks st)\<rparr>)"
proof -
  have ok: "nodes_ok st" "tasks_ok st" using assms(1) by (simp_all add: store_ok_def)
  have "tasks_ok (st\<lparr>Tasks := modify k f (Tasks st)\<rparr>)"
    using modify_all [OF entries_ok(2) [OF ok(2)] assms(2)] by (intro tasks_ok_upd [OF ok(2)]) simp_all
  then show ?thesis using ok(1) nodes_ok_cong [of "st\<lparr>Tasks := modify k f (Tasks st)\<rparr>" st] by (simp add: store_ok_def)
qed

lemma register_node_ok: "n_ID n = k \<Longrightarrow> k \<noteq> [] \<Longrightarrow> 0 \<le> n_RunningTasks n \<Longrightarrow> node_ok k (register_node d req now n)"
  by (simp add: node_ok_def register_node_def Let_def)

lemma heartbeat_node_ok: "node_ok k n \<Longrightarrow> node_ok k (heartbeat_node d req now n)"
  by (simp add: node_ok_def heartbeat_node_def Let_def)

lemma known_key: "map_of m k = Some v \<Longrightarrow> k \<in> set (map fst m)"
  by (force dest: map_of_SomeD)

text \<open>A block that only changes the entry of a registered node.\<close>

lemma replaced_node_ok:
  assumes "store_ok st" "map_of (Nodes st) k = Some n" "node_ok k n \<Longrightarrow> node_ok k m"
  shows "store_ok (st\<lparr>Nodes := AList.update k m (Nodes st)\<rparr>)"
proof -
  have ok: "nodes_ok st" using assms(1) by (simp add: store_ok_def)
  have "node_ok k n" using node_entry [OF ok map_of_SomeD [OF assms(2)]] .
  then show ?thesis
    using modified_nodes_ok [OF assms(1), of k "\<lambda>_. m"] assms(3) update_old [OF known_key [OF assms(2)] node_ids_distinct [OF ok]]
    by simp
qed

lemma register_ok:
  assumes "store_ok st" "Registry_Register d req now st = Inr (node, st')"
  shows "store_ok st'"
proof (cases "map_of (Nodes st) (reg_ID req)")
  case None
  let ?n = "register_node d req now (Node_zero\<lparr>n_ID := reg_ID req\<rparr>)"
  have new: "reg_ID req \<notin> set (map fst (Nodes st))" using None by (simp add: map_of_eq_None_iff)
  have ok: "nodes_ok st" "tasks_ok st" using assms(1) by (simp_all add: store_ok_def)
  have st': "st' = st\<lparr>Nodes := Nodes st @ [(reg_ID req, ?n)], NodeOrder := NodeOrder st @ [reg_ID req]\<rparr>" "reg_ID req \<noteq> []"
    using assms(2) None update_new [OF new] by (auto simp: Registry_Register_def Let_def split: if_splits)
  have "node_ok (reg_ID req) ?n" using st'(2) by (intro register_node_ok) (simp_all add: Node_zero_def)
  then have "nodes_ok st'" using ok(1) new unfolding st'(1) nodes_ok_def by auto
  moreover have "tasks_ok st'"
    using entries_ok(2) [OF ok(2)] by (intro tasks_ok_upd [OF ok(2)]) (auto simp: st'(1) task_ok_def)
  ultimately show ?thesis by (simp add: store_ok_def)
next
  case (Some n)
  then have "st' = st\<lparr>Nodes := AList.update (reg_ID req) (register_node d req now n) (Nodes st)\<rparr>"
    using assms(2) by (auto simp: Registry_Register_def Let_def split: if_splits)
  then show ?thesis
    using replaced_node_ok [OF assms(1) Some] register_node_ok [of n "reg_ID req" d req now] by (simp add: node_ok_def)
qed

lemma heartbeat_ok:
  assumes "store_ok st" "Registry_Heartbeat d req now st = Inr (node, st')"
  shows "store_ok st'"
proof -
  obtain n where n: "map_of (Nodes st) (hb_ID req) = Some n"
    "st' = st\<lparr>Nodes := AList.update (hb_ID req) (heartbeat_node d req now n) (Nodes st)\<rparr>"
    using assms(2) by (auto simp: Registry_Heartbeat_def Let_def split: if_splits option.splits)
  then show ?thesis using replaced_node_ok [OF assms(1) n(1) heartbeat_node_ok] by simp
qed

lemma dispatch_ok: "store_ok st \<Longrightarrow> store_ok (DispatchPending s now st)"
  using assign_all_served [OF refresh_ok refl, of st] by (simp add: DispatchPending_def dispatchPendingLocked_def)

lemma complete_ok:
  assumes "store_ok st" "complete_block ident req now st = Inr st'"
  shows "store_ok st'"
proof -
  obtain task where task: "map_of (Tasks st) ident = Some task"
    using assms(2) by (auto simp: complete_block_def split: option.splits)
  let ?st1 = "st\<lparr>Tasks := modify ident (complete_task req now) (Tasks st)\<rparr>"
  have ok1: "store_ok ?st1"
    by (rule modified_tasks_ok [OF assms(1)]) (auto simp: task_ok_def complete_task_def Let_def)
  have "node_ok k (release_node n)" if "node_ok k n" for k n using that by (simp add: node_ok_def release_node_def)
  then have "store_ok (?st1\<lparr>Nodes := modify w release_node (Nodes ?st1)\<rparr>)" for w by (intro modified_nodes_ok [OF ok1])
  then show ?thesis using assms(2) ok1 task by (auto simp: complete_block_def Let_def split: if_splits)
qed

lemma submit_ok:
  assumes "store_ok st" "Suc (length (Tasks st)) < 2 ^ 64"
  shows "store_ok (snd (submit_block req now st))" "length (Tasks (snd (submit_block req now st))) = Suc (length (Tasks st))"
    "map_of (Tasks st) (fst (submit_block req now st)) = None"
proof -
  let ?id = "FormatTaskID (TaskCounter st + 1)"
  have ok: "nodes_ok st" "tasks_ok st" using assms(1) by (simp_all add: store_ok_def)
  have count: "TaskCounter st + 1 = word_of_nat (Suc (length (Tasks st)))" using ok(2) by (simp add: tasks_ok_def)
  have keys: "map fst (Tasks st) = map (\<lambda>i. FormatTaskID (word_of_nat i)) [1 ..< Suc (length (Tasks st))]"
    using ok(2) by (simp add: tasks_ok_def del: upt_Suc)
  have "?id \<noteq> FormatTaskID (word_of_nat i)" if "i < Suc (length (Tasks st))" for i
  proof -
    have "unat (word_of_nat (Suc (length (Tasks st))) :: 64 word) = Suc (length (Tasks st))"
      "unat (word_of_nat i :: 64 word) = i"
      using that assms(2) by (simp_all add: unat_of_nat del: of_nat_Suc)
    then show ?thesis using that unfolding count FormatTaskID_inj by (metis less_irrefl)
  qed
  then have new: "?id \<notin> set (map fst (Tasks st))"
    unfolding keys set_map set_upt by (metis (no_types, lifting) atLeastLessThan_iff imageE)
  have st': "snd (submit_block req now st) =
      st\<lparr>TaskCounter := TaskCounter st + 1, Tasks := Tasks st @ [(?id, new_task ?id req now)]\<rparr>"
    by (simp only: submit_block_def Let_def snd_conv update_new [OF new])
  show "length (Tasks (snd (submit_block req now st))) = Suc (length (Tasks st))" by (simp add: st')
  show "map_of (Tasks st) (fst (submit_block req now st)) = None"
    using new by (simp add: submit_block_def Let_def map_of_eq_None_iff)
  have "task_ok (set (NodeOrder st)) ?id (new_task ?id req now)" by (simp add: task_ok_def new_task_def)
  then have "tasks_ok (snd (submit_block req now st))"
    using ok(2) assms(2) keys count unfolding st' tasks_ok_def by (simp del: upt_Suc) (simp add: upt_Suc_append add.commute)
  then show "store_ok (snd (submit_block req now st))"
    using ok(1) nodes_ok_cong [of "snd (submit_block req now st)" st] by (simp add: store_ok_def st')
qed

lemma register_tasks: "Registry_Register d req now st = Inr (node, st') \<Longrightarrow> Tasks st' = Tasks st"
  by (auto simp: Registry_Register_def Let_def split: option.splits if_splits)

lemma heartbeat_tasks: "Registry_Heartbeat d req now st = Inr (node, st') \<Longrightarrow> Tasks st' = Tasks st"
  by (auto simp: Registry_Heartbeat_def Let_def split: option.splits if_splits)

lemma complete_keys: "complete_block ident req now st = Inr st' \<Longrightarrow> map fst (Tasks st') = map fst (Tasks st)"
  by (auto simp: complete_block_def Let_def split: option.splits if_splits)

text \<open>Only submissions add tasks, one each.\<close>

lemma run_block_ok:
  assumes "store_ok st" "Suc (length (Tasks st)) < 2 ^ 64"
  shows "store_ok (run_block s b st)" "length (Tasks (run_block s b st)) \<le> Suc (length (Tasks st))"
proof -
  have len: "store_ok st' \<Longrightarrow> map fst (Tasks st') = map fst (Tasks st) \<Longrightarrow> length (Tasks st') \<le> Suc (length (Tasks st))" for st'
    by (metis le_SucI length_map order_refl)
  have dispatch: "map fst (Tasks (DispatchPending s now st)) = map fst (Tasks st)" for now
    by (rule dispatch_keys)
  have "store_ok (run_block s b st) \<and> length (Tasks (run_block s b st)) \<le> Suc (length (Tasks st))"
  proof (cases b)
    case (BlockRegister req now)
    then show ?thesis
      using register_ok [OF assms(1), of "sch_offlineAfter s" req now] assms(1) register_tasks [of "sch_offlineAfter s" req now st]
      by (cases "Registry_Register (sch_offlineAfter s) req now st") auto
  next
    case (BlockHeartbeat req now)
    then show ?thesis
      using heartbeat_ok [OF assms(1), of "sch_offlineAfter s" req now] assms(1) heartbeat_tasks [of "sch_offlineAfter s" req now st]
      by (cases "Registry_Heartbeat (sch_offlineAfter s) req now st") auto
  next
    case (BlockSubmit req now)
    then show ?thesis using submit_ok [OF assms] by simp
  next
    case (BlockComplete ident req now)
    then show ?thesis
      using complete_ok [OF assms(1), of ident req now] assms(1) complete_keys [of ident req now st] len
      by (cases "complete_block ident req now st") auto
  next
    case (BlockDispatch now)
    then show ?thesis using dispatch_ok [OF assms(1)] len [OF _ dispatch] by simp
  next
    case (BlockRefresh now)
    then show ?thesis using refresh_ok [OF assms(1)] by (simp add: RefreshNodeStates_def)
  qed
  then show "store_ok (run_block s b st)" "length (Tasks (run_block s b st)) \<le> Suc (length (Tasks st))" by auto
qed

lemma run_blocks_ok:
  assumes "store_ok st" "length (Tasks st) + length bs < 2 ^ 64"
  shows "store_ok (run_blocks s bs st)"
  using assms unfolding run_blocks_def
proof (induction bs arbitrary: st)
  case (Cons b bs)
  have small: "Suc (length (Tasks st)) < 2 ^ 64" using Cons.prems(2) by simp
  note step = run_block_ok [OF Cons.prems(1) small, of s b]
  have "length (Tasks (run_block s b st)) + length bs < 2 ^ 64" using step(2) Cons.prems(2) by simp
  from Cons.IH [OF step(1) this] show ?case by simp
qed simp

section \<open>The life of a task\<close>

lemma dispatch_task:
  assumes "store_ok st" "map_of (Tasks st) ident = Some t"
  shows "map_of (Tasks (DispatchPending s now st)) ident = Some t \<or>
    (t_Status t = TaskPending \<and> (\<exists>w. map_of (Tasks (DispatchPending s now st)) ident = Some (assign_task w now t)))"
proof -
  let ?st = "refreshNodeStates (sch_offlineAfter s) now st"
  let ?ps = "pendingTasks ?st"
  have ok: "store_ok ?st" using refresh_ok [OF assms(1)] .
  have "DispatchPending s now st = assign_all s ?ps now ?st" by (simp add: DispatchPending_def dispatchPendingLocked_def)
  then obtain k where k: "served s now ?ps k ?st (DispatchPending s now st)"
    using assign_all_served [OF ok refl, of s now] by metis
  show ?thesis
  proof (cases "ident \<in> t_ID ` set (take k ?ps)")
    case True
    then obtain u where u: "u \<in> set (take k ?ps)" "ident = t_ID u" by auto
    then have "u \<in> set ?ps" by (meson in_set_takeD)
    then have "map_of (Tasks st) ident = Some u" "t_Status u = TaskPending"
      using pending_lookup [of ?st u] ok u(2) by (simp_all add: store_ok_def)
    then have "u = t" "t_Status t = TaskPending" using assms(2) by simp_all
    then show ?thesis using k u unfolding served_def by blast
  next
    case False
    then show ?thesis using k assms(2) by (simp add: served_def)
  qed
qed

text \<open>What never changes in a task, and what is fixed once it has left the queue.\<close>

definition same_job :: "SchedTask \<Rightarrow> SchedTask \<Rightarrow> bool" where
  "same_job t t' \<longleftrightarrow>
     t_ID t' = t_ID t \<and> t_Model t' = t_Model t \<and> t_Operation t' = t_Operation t \<and> t_PayloadRef t' = t_PayloadRef t \<and>
     t_Metadata t' = t_Metadata t \<and> t_CreatedAt t' = t_CreatedAt t"

definition moved_on :: "bool \<Rightarrow> SchedTask \<Rightarrow> SchedTask \<Rightarrow> bool" where
  "moved_on completed t t' \<longleftrightarrow>
     same_job t t' \<and>
     (t_Status t \<noteq> TaskPending \<longrightarrow>
        t_Status t' \<noteq> TaskPending \<and> t_AssignedWorker t' = t_AssignedWorker t \<and> t_StartedAt t' = t_StartedAt t \<and>
        (completed \<or> t' = t))"

lemma moved_on_refl: "moved_on c t t"
  by (simp add: moved_on_def same_job_def)

lemma moved_on_trans: "moved_on c t t' \<Longrightarrow> moved_on d t' t'' \<Longrightarrow> moved_on (c \<or> d) t t''"
  by (auto simp: moved_on_def same_job_def)

lemma moved_on_weaken: "moved_on c t t' \<Longrightarrow> moved_on (c \<or> d) t t'"
  by (auto simp: moved_on_def)

fun completes :: "string \<Rightarrow> store_block \<Rightarrow> bool" where
  "completes ident (BlockComplete k req now) \<longleftrightarrow> k = ident"
| "completes ident _ \<longleftrightarrow> False"

lemma complete_task_moves: "moved_on True t (complete_task req now t)"
  by (simp add: moved_on_def same_job_def complete_task_def Let_def)

lemma run_block_moves:
  assumes "store_ok st" "Suc (length (Tasks st)) < 2 ^ 64" "map_of (Tasks st) ident = Some t"
  obtains t' where "map_of (Tasks (run_block s b st)) ident = Some t'" "moved_on (completes ident b) t t'"
proof (cases b)
  case (BlockRegister req now)
  then show thesis
    using that [of t] assms(3) register_tasks [of "sch_offlineAfter s" req now st]
    by (cases "Registry_Register (sch_offlineAfter s) req now st") (auto simp: moved_on_refl)
next
  case (BlockHeartbeat req now)
  then show thesis
    using that [of t] assms(3) heartbeat_tasks [of "sch_offlineAfter s" req now st]
    by (cases "Registry_Heartbeat (sch_offlineAfter s) req now st") (auto simp: moved_on_refl)
next
  case (BlockSubmit req now)
  have "fst (submit_block req now st) \<noteq> ident" using submit_ok(3) [OF assms(1,2), of req now] assms(3) by auto
  then show thesis
    using that [of t] assms(3) BlockSubmit by (auto simp: submit_block_def Let_def moved_on_refl update_conv)
next
  case (BlockComplete k req now)
  show thesis
  proof (cases "complete_block k req now st")
    case (Inl e)
    then show thesis using that [of t] assms(3) BlockComplete by (simp add: moved_on_refl)
  next
    case (Inr st')
    then have "Tasks st' = modify k (complete_task req now) (Tasks st)"
      by (auto simp: complete_block_def Let_def split: option.splits if_splits)
    then show thesis
      using that assms(3) BlockComplete Inr complete_task_moves [of t req now]
      by (cases "k = ident") (simp_all add: moved_on_refl)
  qed
next
  case (BlockDispatch now)
  from dispatch_task [OF assms(1,3), of s now] show thesis
  proof (elim disjE conjE exE)
    fix w assume "t_Status t = TaskPending" "map_of (Tasks (DispatchPending s now st)) ident = Some (assign_task w now t)"
    then show thesis using that BlockDispatch by (simp add: moved_on_def same_job_def assign_task_def)
  qed (use that [of t] BlockDispatch in \<open>simp add: moved_on_refl\<close>)
next
  case (BlockRefresh now)
  then show thesis using that [of t] assms(3) by (simp add: RefreshNodeStates_def moved_on_refl)
qed

lemma run_blocks_move:
  assumes "store_ok st" "length (Tasks st) + length bs < 2 ^ 64" "map_of (Tasks st) ident = Some t"
  obtains t' where "map_of (Tasks (run_blocks s bs st)) ident = Some t'" "moved_on (\<exists>b \<in> set bs. completes ident b) t t'"
  using assms unfolding run_blocks_def
proof (induction bs arbitrary: st t thesis)
  case Nil
  then show ?case by (simp add: moved_on_refl)
next
  case (Cons b bs)
  have small: "Suc (length (Tasks st)) < 2 ^ 64" using Cons.prems(3) by simp
  note ok = run_block_ok [OF Cons.prems(2) small, of s b]
  obtain t1 where t1: "map_of (Tasks (run_block s b st)) ident = Some t1" "moved_on (completes ident b) t t1"
    using run_block_moves [OF Cons.prems(2) small Cons.prems(4)] .
  have len: "length (Tasks (run_block s b st)) + length bs < 2 ^ 64" using ok(2) Cons.prems(3) by simp
  obtain t' where "map_of (Tasks (fold (run_block s) bs (run_block s b st))) ident = Some t'"
    "moved_on (\<exists>b \<in> set bs. completes ident b) t1 t'"
    using Cons.IH [OF _ ok(1) len t1(1)] by metis
  then show ?case using Cons.prems(1) [of t'] moved_on_trans [OF t1(2)] by simp
qed

section \<open>Counting running tasks\<close>

definition runs_on :: "string \<Rightarrow> SchedTask \<Rightarrow> bool" where
  "runs_on k t \<longleftrightarrow> t_Status t = TaskRunning \<and> t_AssignedWorker t = k"

definition running_on :: "State \<Rightarrow> string \<Rightarrow> nat" where
  "running_on st k = length (filter (runs_on k) (map snd (Tasks st)))"

definition counts_exact :: "State \<Rightarrow> bool" where
  "counts_exact st \<longleftrightarrow> (\<forall>(k, n) \<in> set (Nodes st). n_RunningTasks n = int (running_on st k))"

lemma filter_modify:
  assumes "distinct (map fst m)" "map_of m k = Some v"
  shows "length (filter P (map snd (modify k f m))) + (if P v then 1 else 0) =
    length (filter P (map snd m)) + (if P (f v) then 1 else 0)"
  using assms
proof (induction m)
  case (Cons p m)
  obtain k' u where p: "p = (k', u)" by (cases p)
  show ?case
  proof (cases "k' = k")
    case True
    then have "modify k f m = m" using Cons.prems(1) p by (intro modify_fresh) auto
    then show ?thesis using Cons.prems(2) p True by (simp add: modify_def)
  next
    case False
    then show ?thesis using Cons p by (simp add: modify_def)
  qed
qed simp

lemma running_modify:
  assumes "store_ok st" "map_of (Tasks st) ident = Some t" "Tasks st' = modify ident f (Tasks st)"
  shows "running_on st' k + (if runs_on k t then 1 else 0) = running_on st k + (if runs_on k (f t) then 1 else 0)"
  using filter_modify [OF task_ids_distinct assms(2), of "runs_on k" f] assms(1,3)
  by (simp add: running_on_def store_ok_def)

lemma counts_refresh: "counts_exact st \<Longrightarrow> counts_exact (refreshNodeStates d now st)"
  by (auto simp: counts_exact_def running_on_def refreshNodeStates_def)

lemma counts_assigned:
  assumes "store_ok st" "counts_exact st" "map_of (Tasks st) ident = Some t" "t_Status t = TaskPending"
  shows "counts_exact (assigned s ident b now st)"
proof -
  let ?w = "NodeOrder st ! b"
  have count: "running_on (assigned s ident b now st) k = running_on st k + (if k = ?w then 1 else 0)" for k
    using running_modify [OF assms(1,3), of "assigned s ident b now st" "assign_task ?w now" k] assms(4)
    by (auto simp: assigned_def runs_on_def assign_task_def)
  have old: "\<forall>(k, n) \<in> set (Nodes st). n_RunningTasks n = int (running_on st k)" using assms(2) by (simp add: counts_exact_def)
  show ?thesis
    using old unfolding counts_exact_def count
    by (auto simp: assigned_def modify_set assign_node_def Let_def split: if_splits)
qed

lemma counts_assign_all:
  assumes "store_ok st" "counts_exact st" "ps = pendingTasks st"
  shows "counts_exact (assign_all s ps now st)"
  using assms
proof (induction ps arbitrary: st)
  case (Cons t ps)
  note ok = Cons.prems(1) and ps = Cons.prems(3)
  have tasks: "tasks_ok st" using ok by (simp add: store_ok_def)
  have t: "map_of (Tasks st) (t_ID t) = Some t" "t_Status t = TaskPending"
    using pending_lookup [OF tasks, of t] ps [symmetric] by simp_all
  obtain took st1 where run: "assignTaskLocked s (t_ID t) now st = (took, st1)" by (metis surj_pair)
  from run t show ?case
  proof (cases rule: assignTask_cases)
    case refused
    then show ?thesis using run Cons.prems(2) by simp
  next
    case (taken b node)
    have ok1: "store_ok st1"
      using assigned_nodes_ok assigned_tasks_ok [OF ok taken(2) t] ok taken by (simp add: store_ok_def)
    have ps1: "ps = pendingTasks st1" using assigned_next [OF tasks ps [symmetric]] taken(4) by simp
    have "counts_exact st1" using counts_assigned [OF ok Cons.prems(2) t] taken(4) by simp
    then show ?thesis using Cons.IH [OF ok1 _ ps1] run taken(1) by simp
  qed
qed simp

lemma counts_register:
  assumes "store_ok st" "counts_exact st" "Registry_Register d req now st = Inr (node, st')"
  shows "counts_exact st'"
proof -
  have same: "running_on st' k = running_on st k" for k using register_tasks [OF assms(3)] by (simp add: running_on_def)
  have ok: "nodes_ok st" "tasks_ok st" using assms(1) by (simp_all add: store_ok_def)
  have old: "\<forall>(k, n) \<in> set (Nodes st). n_RunningTasks n = int (running_on st k)" using assms(2) by (simp add: counts_exact_def)
  show ?thesis
  proof (cases "map_of (Nodes st) (reg_ID req)")
    case None
    have new: "reg_ID req \<notin> set (map fst (Nodes st))" using None by (simp add: map_of_eq_None_iff)
    have st': "Nodes st' = Nodes st @ [(reg_ID req, register_node d req now (Node_zero\<lparr>n_ID := reg_ID req\<rparr>))]" "reg_ID req \<noteq> []"
      using assms(3) None update_new [OF new] by (auto simp: Registry_Register_def Let_def split: if_splits)
    have "NodeOrder st = map fst (Nodes st)" using ok(1) by (simp add: nodes_ok_def)
    then have "\<not> runs_on (reg_ID req) t" if "(k, t) \<in> set (Tasks st)" for k t
      using entries_ok(2) [OF ok(2)] that new st'(2) unfolding task_ok_def runs_on_def by fastforce
    then have "running_on st (reg_ID req) = 0" by (auto simp: running_on_def filter_empty_conv)
    then show ?thesis using old unfolding counts_exact_def same st'(1) by (auto simp: register_node_def Node_zero_def Let_def)
  next
    case (Some n)
    have st': "Nodes st' = modify (reg_ID req) (\<lambda>_. register_node d req now n) (Nodes st)"
      using assms(3) Some update_old [OF known_key [OF Some] node_ids_distinct [OF ok(1)]]
      by (auto simp: Registry_Register_def Let_def split: if_splits)
    have "n_RunningTasks n = int (running_on st (reg_ID req))" using old map_of_SomeD [OF Some] by auto
    then have "n_RunningTasks (if k = reg_ID req then register_node d req now n else m) = int (running_on st k)"
      if "(k, m) \<in> set (Nodes st)" for k m using old that by (auto simp: register_node_def Let_def)
    then show ?thesis unfolding counts_exact_def same st' by (auto simp: modify_set)
  qed
qed

lemma counts_submit:
  assumes "store_ok st" "Suc (length (Tasks st)) < 2 ^ 64" "counts_exact st"
  shows "counts_exact (snd (submit_block req now st))"
proof -
  have "fst (submit_block req now st) \<notin> set (map fst (Tasks st))"
    using submit_ok(3) [OF assms(1,2), of req now] by (simp add: map_of_eq_None_iff)
  then have "running_on (snd (submit_block req now st)) k = running_on st k" for k
    by (simp add: running_on_def submit_block_def Let_def update_new new_task_def runs_on_def)
  then show ?thesis using assms(3) by (simp add: counts_exact_def) (simp add: submit_block_def Let_def)
qed

lemma counts_complete:
  assumes "store_ok st" "counts_exact st" "complete_block ident req now st = Inr st'"
  shows "counts_exact st'"
proof -
  obtain t where t: "map_of (Tasks st) ident = Some t" using assms(3) by (auto simp: complete_block_def split: option.splits)
  have old: "\<forall>(k, n) \<in> set (Nodes st). n_RunningTasks n = int (running_on st k)" using assms(2) by (simp add: counts_exact_def)
  have tasks: "Tasks st' = modify ident (complete_task req now) (Tasks st)"
    using assms(3) by (auto simp: complete_block_def Let_def split: option.splits if_splits)
  have "\<not> runs_on k (complete_task req now t)" for k by (simp add: runs_on_def complete_task_def Let_def)
  then have count: "running_on st' k + (if runs_on k t then 1 else 0) = running_on st k" for k
    using running_modify [OF assms(1) t tasks, of k] by simp
  show ?thesis
  proof (cases "t_Status t = TaskRunning \<and> t_AssignedWorker t \<noteq> []")
    case True
    then have nodes: "Nodes st' = modify (t_AssignedWorker t) release_node (Nodes st)"
      using assms(3) t by (auto simp: complete_block_def Let_def)
    have "n_RunningTasks (release_node n) = int (running_on st' k)"
      if "(k, n) \<in> set (Nodes st)" "k = t_AssignedWorker t" for k n
      using old that count [of k] True by (force simp: release_node_def runs_on_def)
    moreover have "running_on st' k = running_on st k" if "k \<noteq> t_AssignedWorker t" for k
      using count [of k] that by (simp add: runs_on_def)
    ultimately have "n_RunningTasks (if k = t_AssignedWorker t then release_node n else n) = int (running_on st' k)"
      if "(k, n) \<in> set (Nodes st)" for k n using old that by auto
    then show ?thesis unfolding counts_exact_def nodes by (auto simp: modify_set)
  next
    case False
    have "task_ok (set (NodeOrder st)) ident t"
      using assms(1) entries_ok(2) [of st] map_of_SomeD [OF t] by (auto simp: store_ok_def)
    then have "t_Status t \<noteq> TaskRunning" using False by (auto simp: task_ok_def)
    then have "running_on st' k = running_on st k" for k using count [of k] by (simp add: runs_on_def)
    moreover have "Nodes st' = Nodes st" using assms(3) t False by (auto simp: complete_block_def Let_def)
    ultimately show ?thesis using old by (simp add: counts_exact_def)
  qed
qed

fun is_heartbeat :: "store_block \<Rightarrow> bool" where
  "is_heartbeat (BlockHeartbeat _ _) \<longleftrightarrow> True"
| "is_heartbeat _ \<longleftrightarrow> False"

lemma counts_block:
  assumes "store_ok st" "Suc (length (Tasks st)) < 2 ^ 64" "counts_exact st" "\<not> is_heartbeat b"
  shows "counts_exact (run_block s b st)"
proof (cases b)
  case (BlockRegister req now)
  then show ?thesis using counts_register [OF assms(1,3)] assms(3)
    by (cases "Registry_Register (sch_offlineAfter s) req now st") auto
next
  case (BlockSubmit req now)
  then show ?thesis using counts_submit [OF assms(1-3)] by simp
next
  case (BlockComplete ident req now)
  then show ?thesis using counts_complete [OF assms(1,3)] assms(3) by (cases "complete_block ident req now st") auto
next
  case (BlockDispatch now)
  then show ?thesis
    using counts_assign_all [OF refresh_ok [OF assms(1)] counts_refresh [OF assms(3)] refl]
    by (simp add: DispatchPending_def dispatchPendingLocked_def)
next
  case (BlockRefresh now)
  then show ?thesis using counts_refresh [OF assms(3)] by (simp add: RefreshNodeStates_def)
qed (use assms(4) in simp)

lemma counts_blocks:
  assumes "store_ok st" "length (Tasks st) + length bs < 2 ^ 64" "counts_exact st" "\<forall>b \<in> set bs. \<not> is_heartbeat b"
  shows "counts_exact (run_blocks s bs st)"
  using assms unfolding run_blocks_def
proof (induction bs arbitrary: st)
  case (Cons b bs)
  have small: "Suc (length (Tasks st)) < 2 ^ 64" using Cons.prems(2) by simp
  note ok = run_block_ok [OF Cons.prems(1) small, of s b]
  have "counts_exact (run_block s b st)" using counts_block [OF Cons.prems(1) small Cons.prems(3)] Cons.prems(4) by simp
  moreover have "length (Tasks (run_block s b st)) + length bs < 2 ^ 64" using ok(2) Cons.prems(2) by simp
  ultimately show ?case using Cons.IH [OF ok(1)] Cons.prems(4) by simp
qed simp

section \<open>Calls are sequences of blocks\<close>

datatype sched_call =
    CallRegister RegisterNodeRequest
  | CallHeartbeat HeartbeatRequest
  | CallSubmit SubmitTaskRequest
  | CallComplete string CompleteTaskRequest
  | CallStatus
  | CallTick

fun run_call :: "Scheduler \<Rightarrow> sched_call \<Rightarrow> gotime \<Rightarrow> State \<Rightarrow> State" where
  "run_call s (CallRegister req) now st = snd (NodeService_Register s req now st)"
| "run_call s (CallHeartbeat req) now st = snd (NodeService_Heartbeat s req now st)"
| "run_call s (CallSubmit req) now st = snd (TaskService_Submit s req now st)"
| "run_call s (CallComplete ident req) now st = snd (TaskService_Complete s ident req now st)"
| "run_call s CallStatus now st = snd (TaskService_Status s now st)"
| "run_call s CallTick now st = Checker_tick s now st"

text \<open>The blocks a call would run, were it to pass its checks.\<close>

fun call_blocks :: "sched_call \<Rightarrow> gotime \<Rightarrow> store_block list" where
  "call_blocks (CallRegister req) now = [BlockRegister req now, BlockDispatch now]"
| "call_blocks (CallHeartbeat req) now = [BlockHeartbeat req now, BlockDispatch now]"
| "call_blocks (CallSubmit req) now = [BlockSubmit req now, BlockDispatch now]"
| "call_blocks (CallComplete ident req) now = [BlockComplete ident req now, BlockDispatch now]"
| "call_blocks CallStatus now = [BlockRefresh now]"
| "call_blocks CallTick now = [BlockRefresh now, BlockDispatch now]"

lemmas call_defs = NodeService_Register_def NodeService_Heartbeat_def TaskService_Submit_def TaskService_Complete_def
  TaskService_Status_def Checker_tick_def run_blocks_def


section \<open>Properties\<close>

lemma new_store: "store_ok NewMemoryStore" "Tasks NewMemoryStore = []" "counts_exact NewMemoryStore"
  by (rule store_ok_new) (simp_all add: counts_exact_def NewMemoryStore_def)

lemma run_blocks_append: "run_blocks s (bs @ cs) st = run_blocks s cs (run_blocks s bs st)"
  by (simp add: run_blocks_def)

lemma run_blocks_length:
  assumes "store_ok st" "length (Tasks st) + length bs < 2 ^ 64"
  shows "length (Tasks (run_blocks s bs st)) \<le> length (Tasks st) + length bs"
  using assms unfolding run_blocks_def
proof (induction bs arbitrary: st)
  case (Cons b bs)
  have small: "Suc (length (Tasks st)) < 2 ^ 64" using Cons.prems(2) by simp
  note step = run_block_ok [OF Cons.prems(1) small, of s b]
  have "length (Tasks (run_block s b st)) + length bs < 2 ^ 64" using step(2) Cons.prems(2) by simp
  from Cons.IH [OF step(1) this] show ?case using step(2) by simp
qed simp

text \<open>
  C4. The store is consistent after every sequence of blocks: the order list names each registered worker once, every node is filed under
  its own id with a positive capacity and a count that is not negative, task ids are the formatted counters and never repeat, and the
  times and the worker of each task fit its status. (Below \<open>2 ^ 64\<close> blocks, so that the counter does not wrap.)
\<close>

theorem store_invariant:
  assumes "length bs < 2 ^ 64"
  shows "store_ok (run_blocks s bs NewMemoryStore)"
  using run_blocks_ok [OF new_store(1)] assms by (simp add: new_store(2))

text \<open>
  C9. The life of a task: what was submitted never changes and a task is never lost; once it has left the queue it is never queued
  again and keeps its worker and its start time, and without a completion report for it nothing changes in it at all. In particular
  a task assigned to a worker that goes offline is never given to another.
\<close>

theorem task_lifecycle:
  assumes "length bs + length cs < 2 ^ 64" "map_of (Tasks (run_blocks s bs NewMemoryStore)) ident = Some t"
  shows "\<exists>t'. map_of (Tasks (run_blocks s (bs @ cs) NewMemoryStore)) ident = Some t' \<and>
    same_job t t' \<and>
    (t_Status t \<noteq> TaskPending \<longrightarrow>
       t_Status t' \<noteq> TaskPending \<and> t_AssignedWorker t' = t_AssignedWorker t \<and> t_StartedAt t' = t_StartedAt t \<and>
       ((\<exists>c \<in> set cs. completes ident c) \<or> t' = t))"
proof -
  let ?st = "run_blocks s bs NewMemoryStore"
  have len: "length (Tasks NewMemoryStore) + length bs < 2 ^ 64" using assms(1) by (simp add: new_store(2))
  have "length (Tasks ?st) + length cs < 2 ^ 64"
    using run_blocks_length [OF new_store(1) len, of s] assms(1) by (simp add: new_store(2))
  then obtain t' where "map_of (Tasks (run_blocks s cs ?st)) ident = Some t'" "moved_on (\<exists>c \<in> set cs. completes ident c) t t'"
    using run_blocks_move [OF run_blocks_ok [OF new_store(1) len] _ assms(2)] by metis
  then show ?thesis unfolding run_blocks_append moved_on_def by blast
qed

text \<open>
  C12. Without heartbeats the count of every worker is exact: it is the number of running tasks assigned to it. (A heartbeat overwrites
  the count with what the worker reports.)
\<close>

theorem running_counts_exact:
  assumes "length bs < 2 ^ 64" "\<forall>b \<in> set bs. \<not> is_heartbeat b"
    "map_of (Nodes (run_blocks s bs NewMemoryStore)) w = Some node"
  shows "n_RunningTasks node = int (running_on (run_blocks s bs NewMemoryStore) w)"
proof -
  have "counts_exact (run_blocks s bs NewMemoryStore)"
    using counts_blocks [OF new_store(1) _ new_store(3)] assms(1,2) by (simp add: new_store(2))
  then show ?thesis using map_of_SomeD [OF assms(3)] by (auto simp: counts_exact_def)
qed

text \<open>What a dispatch leaves of the tasks: pending ones may have been assigned, the others are untouched.\<close>

lemma dispatch_leaves:
  assumes "store_ok st" "map_of (Tasks st) ident = Some t" "t_Status t \<noteq> TaskPending"
  shows "map_of (Tasks (DispatchPending s now st)) ident = Some t"
  using dispatch_task [OF assms(1,2), of s now] assms(3) by blast

lemma dispatch_exhausts:
  assumes "store_ok st"
  shows "pendingTasks (DispatchPending s now st) = [] \<or> fst (selectNodeLocked s (DispatchPending s now st)) = None"
proof -
  let ?st = "refreshNodeStates (sch_offlineAfter s) now st"
  have "DispatchPending s now st = assign_all s (pendingTasks ?st) now ?st" by (simp add: DispatchPending_def dispatchPendingLocked_def)
  then obtain k where "served s now (pendingTasks ?st) k ?st (DispatchPending s now st)"
    using assign_all_served [OF refresh_ok [OF assms] refl] by metis
  then show ?thesis by (auto simp: served_def)
qed

lemma pending_listed: "map_of (Tasks st) ident = Some t \<Longrightarrow> t_Status t = TaskPending \<Longrightarrow> t \<in> set (pendingTasks st)"
  by (force simp: pendingTasks_def dest: map_of_SomeD)

lemma submit_known:
  assumes "store_ok st" "Suc (length (Tasks st)) < 2 ^ 64" "sub_Model req \<noteq> []" "sub_Operation req \<noteq> []"
  shows "\<exists>t st'. TaskService_Submit s req now st = (Inr t, st') \<and>
    map_of (Tasks st) (t_ID t) = None \<and> map_of (Tasks st') (t_ID t) = Some t \<and> same_job (new_task (t_ID t) req now) t \<and>
    (t_Status t = TaskPending \<and> fst (selectNodeLocked s st') = None \<or>
     t_Status t = TaskRunning \<and> t_StartedAt t = Some now) \<and>
    (\<forall>ident u. map_of (Tasks st) ident = Some u \<and> t_Status u \<noteq> TaskPending \<longrightarrow> map_of (Tasks st') ident = Some u)"
proof -
  let ?id = "fst (submit_block req now st)"
  let ?st1 = "snd (submit_block req now st)"
  let ?st' = "DispatchPending s now ?st1"
  let ?new = "new_task ?id req now"
  note ok = submit_ok [OF assms(1,2), of req now]
  have old: "map_of (Tasks ?st1) k = map_of (Tasks st) k" if "k \<noteq> ?id" for k
    using that by (simp add: submit_block_def Let_def update_conv)
  have new: "map_of (Tasks ?st1) ?id = Some ?new" by (simp add: submit_block_def Let_def update_conv)
  obtain t where t: "map_of (Tasks ?st') ?id = Some t" "t = ?new \<or> (\<exists>w. t = assign_task w now ?new)"
    using dispatch_task [OF ok(1) new, of s now] by metis
  have job: "t_ID t = ?id" "same_job ?new t" using t(2) by (auto simp: assign_task_def same_job_def new_task_def)
  have run: "TaskService_Submit s req now st = (Inr t, ?st')"
    using assms(3,4) t(1) by (simp add: TaskService_Submit_def TaskService_Get_def case_prod_beta Let_def)
  have "t_Status t = TaskPending \<and> fst (selectNodeLocked s ?st') = None \<or> t_Status t = TaskRunning \<and> t_StartedAt t = Some now"
    using t(2)
  proof
    assume "t = ?new"
    then have "t_Status t = TaskPending" by (simp add: new_task_def)
    moreover have "pendingTasks ?st' \<noteq> []" using pending_listed [OF t(1) calculation] by auto
    ultimately show ?thesis using dispatch_exhausts [OF ok(1), of s now] by simp
  qed (auto simp: assign_task_def)
  moreover have "map_of (Tasks ?st') ident = Some u" if "map_of (Tasks st) ident = Some u" "t_Status u \<noteq> TaskPending" for ident u
  proof -
    have "ident \<noteq> ?id" using ok(3) that(1) by auto
    then show ?thesis using dispatch_leaves [OF ok(1)] old that by simp
  qed
  ultimately show ?thesis using run ok(3) t(1) job by (intro exI [of _ t] exI [of _ ?st']) auto
qed


lemma complete_task_status: "t_Status (complete_task req now t) = (if done_Success req then TaskCompleted else TaskFailed)"
  by (simp add: complete_task_def Let_def)

lemma complete_block_task:
  assumes "map_of (Tasks st) ident = Some t" "complete_block ident req now st = Inr st'"
  shows "map_of (Tasks st') ident = Some (complete_task req now t)"
  using assms by (auto simp: complete_block_def Let_def)

lemma task_id_not_empty:
  assumes "store_ok st" "map_of (Tasks st) ident = Some t"
  shows "ident \<noteq> []"
proof -
  have "map fst (Tasks st) = map (\<lambda>i. FormatTaskID (word_of_nat i)) [1 ..< Suc (length (Tasks st))]"
    using assms(1) by (simp add: store_ok_def tasks_ok_def del: upt_Suc)
  then obtain c where "ident = FormatTaskID c" using known_key [OF assms(2)] by (auto simp del: upt_Suc)
  then show ?thesis by (simp add: FormatTaskID_not_Nil)
qed

lemma complete_known:
  assumes "store_ok st" "map_of (Tasks st) ident = Some t"
  shows "\<exists>st'. TaskService_Complete s ident req now st = (Inr (complete_task req now t), st') \<and>
    map_of (Tasks st') ident = Some (complete_task req now t)"
proof -
  obtain st1 where st1: "complete_block ident req now st = Inr st1" using assms(2) by (simp add: complete_block_def Let_def)
  let ?t = "complete_task req now t"
  have "t_Status ?t \<noteq> TaskPending" by (simp add: complete_task_status)
  then have "map_of (Tasks (DispatchPending s now st1)) ident = Some ?t"
    using dispatch_leaves [OF complete_ok [OF assms(1) st1] complete_block_task [OF assms(2) st1]] by simp
  then show ?thesis using st1 task_id_not_empty [OF assms] by (simp add: TaskService_Complete_def TaskService_Get_def Let_def)
qed

text \<open>
  C25. Completing: a report for an unknown task is refused and changes nothing; for a known one it is accepted, whatever the task's
  state is, and its verdict is what is stored and returned. So a task that was never assigned can be completed, and a
  second report turns a completed task into a failed one.
\<close>

theorem complete_result:
  assumes "store_ok st"
  shows "case map_of (Tasks st) ident of
      None \<Rightarrow> \<exists>e. TaskService_Complete s ident req now st = (Inl e, st)
    | Some t \<Rightarrow>
        (\<exists>st'. TaskService_Complete s ident req now st = (Inr (complete_task req now t), st') \<and>
           map_of (Tasks st') ident = Some (complete_task req now t) \<and>
           t_Status (complete_task req now t) = (if done_Success req then TaskCompleted else TaskFailed))"
proof (cases "map_of (Tasks st) ident")
  case None
  then show ?thesis by (simp add: TaskService_Complete_def complete_block_def)
next
  case (Some t)
  then show ?thesis using complete_known [OF assms Some] by (simp add: complete_task_status)
qed

section \<open>Examples\<close>

definition sample_register :: RegisterNodeRequest where
  "sample_register = \<lparr>reg_ID = ''w'', reg_Address = ''w:9'', reg_Capacity = 1, reg_Labels = []\<rparr>"

definition sample_submit :: SubmitTaskRequest where
  "sample_submit = \<lparr>sub_Model = ''m'', sub_Operation = ''run'', sub_PayloadRef = ''x'', sub_Metadata = []\<rparr>"

definition idle_heartbeat :: HeartbeatRequest where
  "idle_heartbeat = \<lparr>hb_ID = ''w'', hb_RunningTasks = 0, hb_Status = ''ready'', hb_ActiveTaskIDs = []\<rparr>"

definition sample_blocks :: "store_block list" where
  "sample_blocks = [BlockRegister sample_register 100, BlockSubmit sample_submit 200, BlockDispatch 200]"


text \<open>The witnesses: one worker, one task assigned to it.\<close>

theorem store_invariant_witness: "store_ok (run_blocks sample_scheduler sample_blocks NewMemoryStore)"
  using store_invariant [of sample_blocks] by (simp add: sample_blocks_def)

theorem task_lifecycle_witness:
  "\<exists>t. map_of (Tasks (run_blocks sample_scheduler (sample_blocks @ [BlockRefresh (900 * second)]) NewMemoryStore)) ''task-000001'' = Some t \<and>
    t_Status t = TaskRunning \<and> t_AssignedWorker t = ''w''"
proof -
  obtain t where t: "map_of (Tasks (run_blocks sample_scheduler sample_blocks NewMemoryStore)) ''task-000001'' = Some t"
    "t_Status t = TaskRunning" "t_AssignedWorker t = ''w''"
  proof -
    have "case map_of (Tasks (run_blocks sample_scheduler sample_blocks NewMemoryStore)) ''task-000001'' of
        None \<Rightarrow> False | Some t \<Rightarrow> t_Status t = TaskRunning \<and> t_AssignedWorker t = ''w''" by code_simp
    then show thesis using that by (auto split: option.splits)
  qed
  have "length sample_blocks + length [BlockRefresh (900 * second)] < 2 ^ 64" by (simp add: sample_blocks_def)
  from task_lifecycle [OF this t(1)] show ?thesis using t(2,3) by auto
qed

theorem running_counts_exact_witness:
  "map_option n_RunningTasks (map_of (Nodes (run_blocks sample_scheduler sample_blocks NewMemoryStore)) ''w'') = Some 1"
proof -
  obtain node where node: "map_of (Nodes (run_blocks sample_scheduler sample_blocks NewMemoryStore)) ''w'' = Some node"
  proof -
    have "map_of (Nodes (run_blocks sample_scheduler sample_blocks NewMemoryStore)) ''w'' \<noteq> None" by code_simp
    then show thesis using that by blast
  qed
  have "running_on (run_blocks sample_scheduler sample_blocks NewMemoryStore) ''w'' = 1" by code_simp
  then show ?thesis using running_counts_exact [OF _ _ node] node by (simp add: sample_blocks_def)
qed


theorem complete_result_witness:
  "\<exists>t st'. TaskService_Complete sample_scheduler ''task-000001'' \<lparr>done_Success = True, done_Message = ''ok''\<rparr> 9 sample_store = (Inr t, st') \<and>
    t_Status t = TaskCompleted"
  using complete_result [OF sample_store_ok(1), where ident = "''task-000001''" and s = sample_scheduler
      and req = "\<lparr>done_Success = True, done_Message = ''ok''\<rparr>" and now = 9]
  by (auto simp: sample_store_def)

end
