(* ===== verification/Sched_Json.thy ===== *)
theory Sched_Json
  imports Sched_Model
begin

text \<open>
  How Go's \<open>encoding/json\<close> reads a request body into one of the request structures of \<open>scheduler/internal/model\<close>:
  \<open>decodeJSON\<close> of \<open>scheduler/internal/api/router.go\<close>, which refuses unknown fields and anything after the first value. Strings
  are byte strings. The texts of the errors are left out: \<open>None\<close> is an error.
\<close>

section \<open>Strings\<close>

text \<open>The length of the UTF-8 sequence in front, 0 if it is not valid.\<close>

definition byte_in :: "nat \<Rightarrow> nat \<Rightarrow> nat \<Rightarrow> nat list \<Rightarrow> bool" where
  "byte_in i lo hi bs \<longleftrightarrow> i < length bs \<and> lo \<le> bs ! i \<and> bs ! i \<le> hi"

definition accept_lo :: "nat \<Rightarrow> nat" where
  "accept_lo b = (if b = 0xE0 then 0xA0 else if b = 0xF0 then 0x90 else 0x80)"

definition accept_hi :: "nat \<Rightarrow> nat" where
  "accept_hi b = (if b = 0xED then 0x9F else if b = 0xF4 then 0x8F else 0xBF)"

definition utf8_len :: "nat list \<Rightarrow> nat" where
  "utf8_len bs =
     (case bs of
        [] \<Rightarrow> 0
      | b # _ \<Rightarrow>
          if b \<le> 0x7F then 1
          else if 0xC2 \<le> b \<and> b \<le> 0xDF then (if byte_in 1 0x80 0xBF bs then 2 else 0)
          else if 0xE0 \<le> b \<and> b \<le> 0xEF
          then (if byte_in 1 (accept_lo b) (accept_hi b) bs \<and> byte_in 2 0x80 0xBF bs then 3 else 0)
          else if 0xF0 \<le> b \<and> b \<le> 0xF4
          then (if byte_in 1 (accept_lo b) (accept_hi b) bs \<and> byte_in 2 0x80 0xBF bs \<and> byte_in 3 0x80 0xBF bs then 4 else 0)
          else 0)"

abbreviation bytes_of :: "string \<Rightarrow> nat list" where
  "bytes_of s \<equiv> map of_char s"

definition EncodeRune :: "nat \<Rightarrow> string" where
  "EncodeRune r = map char_of
     (if r < 0x80 then [r]
      else if r < 0x800 then [0xC0 + r div 64, 0x80 + r mod 64]
      else if r < 0x10000 then [0xE0 + r div 4096, 0x80 + r div 64 mod 64, 0x80 + r mod 64]
      else [0xF0 + r div 262144, 0x80 + r div 4096 mod 64, 0x80 + r div 64 mod 64, 0x80 + r mod 64 :: nat])"

abbreviation ReplacementChar :: nat where "ReplacementChar \<equiv> 0xFFFD"

definition hex_digit :: "char \<Rightarrow> nat option" where
  "hex_digit c =
     (let b = of_char c :: nat
      in if 48 \<le> b \<and> b \<le> 57 then Some (b - 48)
         else if 97 \<le> b \<and> b \<le> 102 then Some (b - 87)
         else if 65 \<le> b \<and> b \<le> 70 then Some (b - 55)
         else None)"

text \<open>Four hex digits after \<open>\u\<close>.\<close>

definition getu4 :: "string \<Rightarrow> nat option" where
  "getu4 s =
     (case map hex_digit (take 4 s) of
        [Some a, Some b, Some c, Some d] \<Rightarrow> Some (4096 * a + 256 * b + 16 * c + d)
      | _ \<Rightarrow> None)"

text \<open>A second escape that makes a surrogate pair with \<open>r\<close>: the code point.\<close>

definition low_surrogate :: "nat \<Rightarrow> string \<Rightarrow> nat option" where
  "low_surrogate r s =
     (if take 2 s \<noteq> [BSLASH, CHR ''u''] then None
      else case getu4 (drop 2 s) of
             None \<Rightarrow> None
           | Some r1 \<Rightarrow>
               if r < 0xDC00 \<and> 0xDC00 \<le> r1 \<and> r1 < 0xE000 then Some ((r - 0xD800) * 1024 + (r1 - 0xDC00) + 0x10000) else None)"

definition simple_escape :: "char \<Rightarrow> char option" where
  "simple_escape e =
     map_of [(QUOTE, QUOTE), (BSLASH, BSLASH), (CHR ''/'', CHR ''/''), (CHR ''b'', CHR 0x08), (CHR ''f'', CHR 0x0C),
       (CHR ''n'', NL), (CHR ''r'', CR), (CHR ''t'', TAB)] e"

text \<open>One item of a string literal (behind the opening quote): the bytes it stands for and what follows.\<close>

definition string_item :: "string \<Rightarrow> (string \<times> string) option" where
  "string_item s =
     (case s of
        [] \<Rightarrow> None
      | c # t \<Rightarrow>
          if c = BSLASH then
            (case t of
               [] \<Rightarrow> None
             | e # u \<Rightarrow>
                 if e = CHR ''u'' then
                   (case getu4 u of
                      None \<Rightarrow> None
                    | Some r \<Rightarrow>
                        if 0xD800 \<le> r \<and> r < 0xE000
                        then (case low_surrogate r (drop 4 u) of
                                Some r2 \<Rightarrow> Some (EncodeRune r2, drop 10 u)
                              | None \<Rightarrow> Some (EncodeRune ReplacementChar, drop 4 u))
                        else Some (EncodeRune r, drop 4 u))
                 else map_option (\<lambda>d. ([d], u)) (simple_escape e))
          else if (of_char c :: nat) < 32 then None
          else if utf8_len (bytes_of s) = 0 then Some (EncodeRune ReplacementChar, t)
          else Some (take (utf8_len (bytes_of s)) s, drop (utf8_len (bytes_of s)) s))"

lemma string_item_shorter: "string_item s = Some (v, rest) \<Longrightarrow> length rest < length s"
  by (auto simp: string_item_def split: list.splits if_splits option.splits)

text \<open>The literal up to its closing quote.\<close>

function string_lit :: "string \<Rightarrow> (string \<times> string) option" where
  "string_lit s =
     (case s of
        [] \<Rightarrow> None
      | c # t \<Rightarrow>
          if c = QUOTE then Some ([], t)
          else case string_item s of
                 None \<Rightarrow> None
               | Some (v, rest) \<Rightarrow> map_option (\<lambda>(w, r). (v @ w, r)) (string_lit rest))"
  by pat_completeness auto
termination
  by (relation "measure length") (auto dest: string_item_shorter)

declare string_lit.simps [simp del]

lemma string_lit_shorter: "string_lit s = Some (v, rest) \<Longrightarrow> length rest < length s"
proof (induction s arbitrary: v rest rule: string_lit.induct)
  case (1 s)
  obtain c t where s: "s = c # t" using "1.prems" by (cases s) (simp_all add: string_lit.simps)
  show ?case
  proof (cases "c = QUOTE")
    case True
    then show ?thesis using "1.prems" s by (simp add: string_lit.simps)
  next
    case False
    then obtain v1 r1 w where item: "string_item s = Some (v1, r1)" and lit: "string_lit r1 = Some (w, rest)"
      using "1.prems" s by (subst (asm) string_lit.simps) (auto split: option.splits)
    then show ?thesis using "1.IH" [OF s False item refl lit] string_item_shorter [OF item] by simp
  qed
qed

section \<open>Tokens\<close>

datatype token = TOpen | TClose | TBegin | TEnd | TComma | TColon | TStr string | TNum string | TTrue | TFalse | TNull

definition json_space :: "char \<Rightarrow> bool" where
  "json_space c \<longleftrightarrow> c \<in> {CHR '' '', TAB, CR, NL}"

definition punctuation :: "char \<Rightarrow> token option" where
  "punctuation c =
     map_of [(CHR ''{'', TOpen), (CHR ''}'', TClose), (CHR ''['', TBegin), (CHR '']'', TEnd), (CHR '','', TComma), (CHR '':'', TColon)] c"

definition number_char :: "char \<Rightarrow> bool" where
  "number_char c \<longleftrightarrow> is_digit c \<or> c \<in> {CHR ''-'', CHR ''+'', CHR ''.'', CHR ''e'', CHR ''E''}"

text \<open>The number grammar: an integer part without leading zeros, a fraction, an exponent.\<close>

definition valid_integer :: "string \<Rightarrow> bool" where
  "valid_integer s \<longleftrightarrow> s \<noteq> [] \<and> list_all is_digit s \<and> (s = ''0'' \<or> hd s \<noteq> CHR ''0'')"

definition valid_exponent :: "string \<Rightarrow> bool" where
  "valid_exponent s \<longleftrightarrow>
     s = [] \<or> hd s \<in> {CHR ''e'', CHR ''E''} \<and>
     (let t = tl s; digits = (if t \<noteq> [] \<and> hd t \<in> {CHR ''+'', CHR ''-''} then tl t else t) in digits \<noteq> [] \<and> list_all is_digit digits)"

definition valid_fraction :: "string \<Rightarrow> bool" where
  "valid_fraction s \<longleftrightarrow>
     (if s \<noteq> [] \<and> hd s = CHR ''.'' then takeWhile is_digit (tl s) \<noteq> [] \<and> valid_exponent (dropWhile is_digit (tl s)) else valid_exponent s)"

definition valid_number :: "string \<Rightarrow> bool" where
  "valid_number s \<longleftrightarrow>
     (let t = (if s \<noteq> [] \<and> hd s = CHR ''-'' then tl s else s)
      in valid_integer (takeWhile is_digit t) \<and> valid_fraction (dropWhile is_digit t))"

text \<open>The token in front, which is not a space.\<close>

definition next_token :: "string \<Rightarrow> (token \<times> string) option" where
  "next_token s =
     (case s of
        [] \<Rightarrow> None
      | c # t \<Rightarrow>
          (case punctuation c of
             Some p \<Rightarrow> Some (p, t)
           | None \<Rightarrow>
               if c = QUOTE then map_option (\<lambda>(v, r). (TStr v, r)) (string_lit t)
               else if starts_with ''true'' s then Some (TTrue, drop 4 s)
               else if starts_with ''false'' s then Some (TFalse, drop 5 s)
               else if starts_with ''null'' s then Some (TNull, drop 4 s)
               else if number_char c \<and> valid_number (takeWhile number_char s)
               then Some (TNum (takeWhile number_char s), dropWhile number_char s)
               else None))"

lemma dropWhile_shorter: "p c \<Longrightarrow> length (dropWhile p (c # t)) < length (c # t)"
  by (simp add: length_dropWhile_le le_imp_less_Suc)

lemma next_token_shorter: "next_token s = Some (tok, rest) \<Longrightarrow> length rest < length s"
  using dropWhile_shorter [of number_char "hd s" "tl s"]
  by (cases s) (auto simp: next_token_def dest!: string_lit_shorter split: list.splits option.splits if_splits)

function tokens :: "string \<Rightarrow> token list option" where
  "tokens s =
     (case s of
        [] \<Rightarrow> Some []
      | c # t \<Rightarrow>
          if json_space c then tokens t
          else case next_token s of
                 None \<Rightarrow> None
               | Some (tok, rest) \<Rightarrow> map_option ((#) tok) (tokens rest))"
  by pat_completeness auto
termination
  by (relation "measure length") (auto dest: next_token_shorter)

declare tokens.simps [simp del]

section \<open>Values\<close>

text \<open>The members of an object in their order, repetitions included.\<close>

datatype json = JNull | JBool bool | JNum string | JStr string | JArr "json list" | JObj "(string \<times> json) list"

text \<open>The scanner's stack: what is open, with what has been read of it. Its mode: what may come next.\<close>

datatype frame = InArr "json list" | InObj "(string \<times> json) list" | InMember "(string \<times> json) list" string

datatype mode = WantValue | WantValueOrEnd | WantKey | WantKeyOrEnd | WantColon | Got json

abbreviation maxNestingDepth :: nat where "maxNestingDepth \<equiv> 10000"

definition push_frame :: "mode \<Rightarrow> frame \<Rightarrow> frame list \<Rightarrow> (mode \<times> frame list) option" where
  "push_frame m f stack = (if length stack < maxNestingDepth then Some (m, f # stack) else None)"

fun json_value :: "token \<Rightarrow> frame list \<Rightarrow> (mode \<times> frame list) option" where
  "json_value TOpen stack = push_frame WantKeyOrEnd (InObj []) stack"
| "json_value TBegin stack = push_frame WantValueOrEnd (InArr []) stack"
| "json_value (TStr s) stack = Some (Got (JStr s), stack)"
| "json_value (TNum n) stack = Some (Got (JNum n), stack)"
| "json_value TTrue stack = Some (Got (JBool True), stack)"
| "json_value TFalse stack = Some (Got (JBool False), stack)"
| "json_value TNull stack = Some (Got JNull, stack)"
| "json_value _ stack = None"

fun json_step :: "token \<Rightarrow> mode \<Rightarrow> frame list \<Rightarrow> (mode \<times> frame list) option" where
  "json_step tok WantValue stack = json_value tok stack"
| "json_step TEnd WantValueOrEnd (InArr vs # stack) = Some (Got (JArr vs), stack)"
| "json_step tok WantValueOrEnd stack = json_value tok stack"
| "json_step (TStr k) WantKey (InObj ms # stack) = Some (WantColon, InMember ms k # stack)"
| "json_step (TStr k) WantKeyOrEnd (InObj ms # stack) = Some (WantColon, InMember ms k # stack)"
| "json_step TClose WantKeyOrEnd (InObj ms # stack) = Some (Got (JObj ms), stack)"
| "json_step TColon WantColon stack = Some (WantValue, stack)"
| "json_step TComma (Got v) (InArr vs # stack) = Some (WantValue, InArr (vs @ [v]) # stack)"
| "json_step TEnd (Got v) (InArr vs # stack) = Some (Got (JArr (vs @ [v])), stack)"
| "json_step TComma (Got v) (InMember ms k # stack) = Some (WantKey, InObj (ms @ [(k, v)]) # stack)"
| "json_step TClose (Got v) (InMember ms k # stack) = Some (Got (JObj (ms @ [(k, v)])), stack)"
| "json_step _ _ _ = None"

text \<open>A whole document: one value and nothing behind it.\<close>

fun json_parse :: "token list \<Rightarrow> mode \<Rightarrow> frame list \<Rightarrow> json option" where
  "json_parse [] (Got v) [] = Some v"
| "json_parse [] m stack = None"
| "json_parse (tok # toks) m stack =
     (case json_step tok m stack of
        None \<Rightarrow> None
      | Some (m', stack') \<Rightarrow> json_parse toks m' stack')"

definition json_document :: "string \<Rightarrow> json option" where
  "json_document body = (case tokens body of None \<Rightarrow> None | Some toks \<Rightarrow> json_parse toks WantValue [])"

section \<open>Decoding into a structure\<close>

text \<open>Go's \<open>foldName\<close>: upper case, also for the two characters outside ASCII that fold to a letter of ASCII (the long s and
  the Kelvin sign). Other characters outside ASCII never fold to one, and the field names are ASCII.\<close>

definition upper :: "char \<Rightarrow> char" where
  "upper c = (let b = of_char c :: nat in if 97 \<le> b \<and> b \<le> 122 then char_of (b - 32) else c)"

fun foldName :: "string \<Rightarrow> string" where
  "foldName s =
     (case s of
        [] \<Rightarrow> []
      | c # t \<Rightarrow>
          if take 2 s = [CHR 0xC5, CHR 0xBF] then CHR ''S'' # foldName (drop 1 t)
          else if take 3 s = [CHR 0xE2, CHR 0x84, CHR 0xAA] then CHR ''K'' # foldName (drop 2 t)
          else upper c # foldName t)"

declare foldName.simps [simp del]

type_synonym 'r setter = "json \<Rightarrow> 'r \<Rightarrow> 'r option"

definition find_field :: "(string \<times> 'r setter) list \<Rightarrow> string \<Rightarrow> 'r setter option" where
  "find_field fs key =
     (case map_of fs key of
        Some f \<Rightarrow> Some f
      | None \<Rightarrow> map_of (map (\<lambda>(k, f). (foldName k, f)) fs) (foldName key))"

text \<open>The members in their order, later ones over earlier ones; an unknown name is an error.\<close>

fun set_members :: "(string \<times> 'r setter) list \<Rightarrow> (string \<times> json) list \<Rightarrow> 'r \<Rightarrow> 'r option" where
  "set_members fs [] r = Some r"
| "set_members fs ((key, v) # ms) r =
     (case find_field fs key of
        None \<Rightarrow> None
      | Some f \<Rightarrow> (case f v r of None \<Rightarrow> None | Some r' \<Rightarrow> set_members fs ms r'))"

text \<open>\<open>null\<close> leaves the structure alone.\<close>

definition decode_struct :: "(string \<times> 'r setter) list \<Rightarrow> json \<Rightarrow> 'r \<Rightarrow> 'r option" where
  "decode_struct fs v zero =
     (case v of JNull \<Rightarrow> Some zero | JObj ms \<Rightarrow> set_members fs ms zero | _ \<Rightarrow> None)"

definition decodeJSON :: "(string \<times> 'r setter) list \<Rightarrow> 'r \<Rightarrow> string \<Rightarrow> 'r option" where
  "decodeJSON fs zero body = (case json_document body of None \<Rightarrow> None | Some v \<Rightarrow> decode_struct fs v zero)"

text \<open>The setters, by the type of the field. \<open>null\<close> leaves a string, a number or a bool alone and empties a slice or a map. A
  slice given a second time is read as if it were new.\<close>

definition set_string :: "(string \<Rightarrow> 'r \<Rightarrow> 'r) \<Rightarrow> 'r setter" where
  "set_string upd v r = (case v of JStr s \<Rightarrow> Some (upd s r) | JNull \<Rightarrow> Some r | _ \<Rightarrow> None)"

definition set_bool :: "(bool \<Rightarrow> 'r \<Rightarrow> 'r) \<Rightarrow> 'r setter" where
  "set_bool upd v r = (case v of JBool b \<Rightarrow> Some (upd b r) | JNull \<Rightarrow> Some r | _ \<Rightarrow> None)"

definition ParseInt :: "string \<Rightarrow> int option" where
  "ParseInt s =
     (let negative = (s \<noteq> [] \<and> hd s = CHR ''-'');
          digits = (if negative then tl s else s);
          n = (if negative then - int (dec_value digits) else int (dec_value digits))
      in if digits \<noteq> [] \<and> list_all is_digit digits \<and> - (2 ^ 63) \<le> n \<and> n < 2 ^ 63 then Some n else None)"

definition set_int :: "(int \<Rightarrow> 'r \<Rightarrow> 'r) \<Rightarrow> 'r setter" where
  "set_int upd v r = (case v of JNum n \<Rightarrow> map_option (\<lambda>i. upd i r) (ParseInt n) | JNull \<Rightarrow> Some r | _ \<Rightarrow> None)"

definition string_elem :: "json \<Rightarrow> string option" where
  "string_elem v = (case v of JStr s \<Rightarrow> Some s | JNull \<Rightarrow> Some [] | _ \<Rightarrow> None)"

fun string_elems :: "json list \<Rightarrow> string list option" where
  "string_elems [] = Some []"
| "string_elems (v # vs) =
     (case (string_elem v, string_elems vs) of (Some s, Some ss) \<Rightarrow> Some (s # ss) | _ \<Rightarrow> None)"

definition set_strings :: "(string list \<Rightarrow> 'r \<Rightarrow> 'r) \<Rightarrow> 'r setter" where
  "set_strings upd v r =
     (case v of JArr vs \<Rightarrow> map_option (\<lambda>ss. upd ss r) (string_elems vs) | JNull \<Rightarrow> Some (upd [] r) | _ \<Rightarrow> None)"

fun set_entries :: "(string \<times> json) list \<Rightarrow> (string \<times> string) list \<Rightarrow> (string \<times> string) list option" where
  "set_entries [] m = Some m"
| "set_entries ((k, v) # ms) m =
     (case string_elem v of None \<Rightarrow> None | Some s \<Rightarrow> set_entries ms (AList.update k s m))"

definition set_map :: "('r \<Rightarrow> (string \<times> string) list) \<Rightarrow> ((string \<times> string) list \<Rightarrow> 'r \<Rightarrow> 'r) \<Rightarrow> 'r setter" where
  "set_map get upd v r =
     (case v of JObj ms \<Rightarrow> map_option (\<lambda>m. upd m r) (set_entries ms (get r)) | JNull \<Rightarrow> Some (upd [] r) | _ \<Rightarrow> None)"

section \<open>The request structures\<close>

definition register_fields :: "(string \<times> RegisterNodeRequest setter) list" where
  "register_fields =
     [(''id'', set_string (\<lambda>x. reg_ID_update (\<lambda>_. x))), (''address'', set_string (\<lambda>x. reg_Address_update (\<lambda>_. x))),
      (''capacity'', set_int (\<lambda>x. reg_Capacity_update (\<lambda>_. x))), (''labels'', set_strings (\<lambda>x. reg_Labels_update (\<lambda>_. x)))]"

definition heartbeat_fields :: "(string \<times> HeartbeatRequest setter) list" where
  "heartbeat_fields =
     [(''id'', set_string (\<lambda>x. hb_ID_update (\<lambda>_. x))), (''running_tasks'', set_int (\<lambda>x. hb_RunningTasks_update (\<lambda>_. x))),
      (''status'', set_string (\<lambda>x. hb_Status_update (\<lambda>_. x))),
      (''active_task_ids'', set_strings (\<lambda>x. hb_ActiveTaskIDs_update (\<lambda>_. x)))]"

definition submit_fields :: "(string \<times> SubmitTaskRequest setter) list" where
  "submit_fields =
     [(''model'', set_string (\<lambda>x. sub_Model_update (\<lambda>_. x))), (''operation'', set_string (\<lambda>x. sub_Operation_update (\<lambda>_. x))),
      (''payload_ref'', set_string (\<lambda>x. sub_PayloadRef_update (\<lambda>_. x))),
      (''metadata'', set_map sub_Metadata (\<lambda>x. sub_Metadata_update (\<lambda>_. x)))]"

definition complete_fields :: "(string \<times> CompleteTaskRequest setter) list" where
  "complete_fields =
     [(''success'', set_bool (\<lambda>x. done_Success_update (\<lambda>_. x))), (''message'', set_string (\<lambda>x. done_Message_update (\<lambda>_. x)))]"

text \<open>The zero values the handlers decode into.\<close>

definition register_zero :: RegisterNodeRequest where
  "register_zero = \<lparr>reg_ID = [], reg_Address = [], reg_Capacity = 0, reg_Labels = []\<rparr>"

definition heartbeat_zero :: HeartbeatRequest where
  "heartbeat_zero = \<lparr>hb_ID = [], hb_RunningTasks = 0, hb_Status = [], hb_ActiveTaskIDs = []\<rparr>"

definition submit_zero :: SubmitTaskRequest where
  "submit_zero = \<lparr>sub_Model = [], sub_Operation = [], sub_PayloadRef = [], sub_Metadata = []\<rparr>"

definition complete_zero :: CompleteTaskRequest where
  "complete_zero = \<lparr>done_Success = False, done_Message = []\<rparr>"

end
