(* ===== verification/Sched_Api.thy ===== *)
theory Sched_Api
  imports Sched_Service Sched_Json
begin

text \<open>
  The HTTP interface of the scheduler (\<open>scheduler/internal/api\<close>): the routes and the handlers with their status codes. A request
  is its method, its path and its body; a response is the status code and what is encoded into the body. Paths with
  percent escapes are not modelled, nor are the texts of error messages.
\<close>

section \<open>Responses\<close>

datatype api_error = BadBody | NoSuchTask | Service sched_error | Mux

datatype reply =
    ReplyHealth
  | ReplyNode Node
  | ReplyTask SchedTask
  | ReplyStatus StatusResponse
  | ReplyError api_error

type_synonym response = "int \<times> reply"

definition writeError :: "int \<Rightarrow> api_error \<Rightarrow> response" where
  "writeError status e = (status, ReplyError e)"

section \<open>Handlers\<close>

definition handleHealthz :: "State \<Rightarrow> response \<times> State" where
  "handleHealthz st = ((200, ReplyHealth), st)"

definition handleRegister :: "Scheduler \<Rightarrow> gotime \<Rightarrow> string \<Rightarrow> State \<Rightarrow> response \<times> State" where
  "handleRegister s now body st =
     (case decodeJSON register_fields register_zero body of
        None \<Rightarrow> (writeError 400 BadBody, st)
      | Some req \<Rightarrow>
          (case NodeService_Register s req now st of
             (Inl e, st') \<Rightarrow> (writeError 400 (Service e), st')
           | (Inr node, st') \<Rightarrow> ((201, ReplyNode node), st')))"

definition handleHeartbeat :: "Scheduler \<Rightarrow> gotime \<Rightarrow> string \<Rightarrow> State \<Rightarrow> response \<times> State" where
  "handleHeartbeat s now body st =
     (case decodeJSON heartbeat_fields heartbeat_zero body of
        None \<Rightarrow> (writeError 400 BadBody, st)
      | Some req \<Rightarrow>
          (case NodeService_Heartbeat s req now st of
             (Inl e, st') \<Rightarrow> (writeError 404 (Service e), st')
           | (Inr node, st') \<Rightarrow> ((200, ReplyNode node), st')))"

definition handleSubmitTask :: "Scheduler \<Rightarrow> gotime \<Rightarrow> string \<Rightarrow> State \<Rightarrow> response \<times> State" where
  "handleSubmitTask s now body st =
     (case decodeJSON submit_fields submit_zero body of
        None \<Rightarrow> (writeError 400 BadBody, st)
      | Some req \<Rightarrow>
          (case TaskService_Submit s req now st of
             (Inl e, st') \<Rightarrow> (writeError 400 (Service e), st')
           | (Inr task, st') \<Rightarrow> ((201, ReplyTask task), st')))"

definition handleCompleteTask :: "Scheduler \<Rightarrow> gotime \<Rightarrow> string \<Rightarrow> string \<Rightarrow> State \<Rightarrow> response \<times> State" where
  "handleCompleteTask s now taskID body st =
     (case decodeJSON complete_fields complete_zero body of
        None \<Rightarrow> (writeError 400 BadBody, st)
      | Some req \<Rightarrow>
          (case TaskService_Complete s taskID req now st of
             (Inl e, st') \<Rightarrow> (writeError 404 (Service e), st')
           | (Inr task, st') \<Rightarrow> ((200, ReplyTask task), st')))"

definition handleGetTask :: "string \<Rightarrow> State \<Rightarrow> response \<times> State" where
  "handleGetTask taskID st =
     (case TaskService_Get taskID st of
        None \<Rightarrow> (writeError 404 NoSuchTask, st)
      | Some task \<Rightarrow> ((200, ReplyTask task), st))"

definition handleStatus :: "Scheduler \<Rightarrow> gotime \<Rightarrow> State \<Rightarrow> response \<times> State" where
  "handleStatus s now st = (case TaskService_Status s now st of (status, st') \<Rightarrow> ((200, ReplyStatus status), st'))"

section \<open>Routes\<close>

fun split_on :: "char \<Rightarrow> string \<Rightarrow> string list" where
  "split_on d [] = [[]]"
| "split_on d (c # s) =
     (if c = d then [] # split_on d s
      else case split_on d s of [] \<Rightarrow> [[c]] | w # ws \<Rightarrow> (c # w) # ws)"

datatype endpoint =
    Healthz
  | Register
  | Heartbeat
  | SubmitTask
  | CompleteTask string
  | GetTask string
  | Status

text \<open>A pattern of \<open>http.ServeMux\<close>: the method and the segments, \<open>None\<close> for \<open>{id}\<close>. It matches the segments behind the first
  slash one by one; \<open>{id}\<close> takes any segment that is not empty.\<close>

type_synonym pattern = "string \<times> string option list"

fun match_segments :: "string option list \<Rightarrow> string list \<Rightarrow> string list option" where
  "match_segments [] [] = Some []"
| "match_segments (Some p # ps) (w # ws) = (if p = w then match_segments ps ws else None)"
| "match_segments (None # ps) (w # ws) = (if w = [] then None else map_option ((#) w) (match_segments ps ws))"
| "match_segments _ _ = None"

definition NewRouter :: "(pattern \<times> (string list \<Rightarrow> endpoint)) list" where
  "NewRouter =
     [((''GET'', [Some ''healthz'']), \<lambda>_. Healthz),
      ((''POST'', [Some ''workers'', Some ''register'']), \<lambda>_. Register),
      ((''POST'', [Some ''nodes'', Some ''register'']), \<lambda>_. Register),
      ((''POST'', [Some ''workers'', Some ''heartbeat'']), \<lambda>_. Heartbeat),
      ((''POST'', [Some ''nodes'', Some ''heartbeat'']), \<lambda>_. Heartbeat),
      ((''POST'', [Some ''tasks'', Some ''submit'']), \<lambda>_. SubmitTask),
      ((''POST'', [Some ''tasks'', None, Some ''complete'']), \<lambda>ws. CompleteTask (hd ws)),
      ((''GET'', [Some ''tasks'', None]), \<lambda>ws. GetTask (hd ws)),
      ((''GET'', [Some ''cluster'', Some ''overview'']), \<lambda>_. Status),
      ((''GET'', [Some ''status'']), \<lambda>_. Status)]"

datatype route = Endpoint endpoint | Redirect | NotFound | MethodNotAllowed

text \<open>A GET pattern also takes HEAD. No two patterns of one method match the same path, so the first match is the only one. A path
  with an empty segment (but the last), with \<open>.\<close> or with \<open>..\<close> is redirected to its clean form.\<close>

definition method_ok :: "string \<Rightarrow> string \<Rightarrow> bool" where
  "method_ok pattern meth \<longleftrightarrow> meth = pattern \<or> pattern = ''GET'' \<and> meth = ''HEAD''"

definition unclean :: "string list \<Rightarrow> bool" where
  "unclean ws \<longleftrightarrow> [] \<in> set (butlast ws) \<or> ''.'' \<in> set ws \<or> ''..'' \<in> set ws"

definition ServeMux_route :: "string \<Rightarrow> string \<Rightarrow> route" where
  "ServeMux_route meth path =
     (let ws = split_on (CHR ''/'') (tl path);
          matches = filter (\<lambda>((m, ps), _). match_segments ps ws \<noteq> None) NewRouter
      in if path = [] \<or> hd path \<noteq> CHR ''/'' \<or> unclean ws then Redirect
         else case filter (\<lambda>((m, ps), _). method_ok m meth) matches of
                ((m, ps), h) # _ \<Rightarrow> Endpoint (h (the (match_segments ps ws)))
              | [] \<Rightarrow> if matches = [] then NotFound else MethodNotAllowed)"

definition serve :: "Scheduler \<Rightarrow> gotime \<Rightarrow> string \<Rightarrow> string \<Rightarrow> string \<Rightarrow> State \<Rightarrow> response \<times> State" where
  "serve s now meth path body st =
     (case ServeMux_route meth path of
        Endpoint Healthz \<Rightarrow> handleHealthz st
      | Endpoint Register \<Rightarrow> handleRegister s now body st
      | Endpoint Heartbeat \<Rightarrow> handleHeartbeat s now body st
      | Endpoint SubmitTask \<Rightarrow> handleSubmitTask s now body st
      | Endpoint (CompleteTask ident) \<Rightarrow> handleCompleteTask s now ident body st
      | Endpoint (GetTask ident) \<Rightarrow> handleGetTask ident st
      | Endpoint Status \<Rightarrow> handleStatus s now st
      | Redirect \<Rightarrow> (writeError 301 Mux, st)
      | NotFound \<Rightarrow> (writeError 404 Mux, st)
      | MethodNotAllowed \<Rightarrow> (writeError 405 Mux, st))"

section \<open>Properties\<close>

lemma dispatch_keeps_node: "k \<in> set (map fst (Nodes st)) \<Longrightarrow> Registry_Get k (DispatchPending s now st) \<noteq> None"
  using dispatch_worker [of st k _ s now] map_of_eq_None_iff [of "Nodes st" k] by (auto simp: Registry_Get_def)

lemma keys_update: "set (map fst (AList.update k v m)) = insert k (set (map fst m))"
  by (induction m) auto

lemma registered:
  assumes "Registry_Register d req now st = Inr (node, st1)"
  shows "Registry_Get (reg_ID req) (DispatchPending s now st1) \<noteq> None"
proof -
  have "reg_ID req \<in> set (map fst (Nodes st1))"
    using assms by (auto simp: Registry_Register_def Let_def keys_update simp del: set_map split: if_splits option.splits)
  then show ?thesis by (rule dispatch_keeps_node)
qed

lemma heartbeat_registered:
  assumes "Registry_Heartbeat d req now st = Inr (node, st1)"
  shows "Registry_Get (hb_ID req) (DispatchPending s now st1) \<noteq> None"
proof -
  have "hb_ID req \<in> set (map fst (Nodes st1))"
    using assms by (auto simp: Registry_Heartbeat_def Let_def keys_update simp del: set_map split: if_splits option.splits)
  then show ?thesis by (rule dispatch_keeps_node)
qed

text \<open>The services refuse without touching the store.\<close>

lemma register_refused: "NodeService_Register s req now st = (Inl e, st') \<Longrightarrow> st' = st"
  by (auto simp: NodeService_Register_def Let_def dest!: registered [where s = s] split: sum.splits option.splits)

lemma heartbeat_refused: "NodeService_Heartbeat s req now st = (Inl e, st') \<Longrightarrow> st' = st"
  by (auto simp: NodeService_Heartbeat_def Let_def dest!: heartbeat_registered [where s = s] split: sum.splits option.splits)

lemma submit_refused:
  assumes "store_ok st" "Suc (length (Tasks st)) < 2 ^ 64" "TaskService_Submit s req now st = (Inl e, st')"
  shows "st' = st"
proof -
  have "map_of (Tasks (snd (submit_block req now st))) (fst (submit_block req now st)) \<noteq> None"
    by (simp add: submit_block_def Let_def update_conv)
  then have "map_of (Tasks (DispatchPending s now (snd (submit_block req now st)))) (fst (submit_block req now st)) \<noteq> None"
    using dispatch_task [OF submit_ok(1) [OF assms(1,2)]] by fastforce
  then show ?thesis using assms(3)
    by (auto simp: TaskService_Submit_def TaskService_Get_def case_prod_beta Let_def split: if_splits option.splits)
qed

lemma complete_refused:
  assumes "store_ok st" "TaskService_Complete s ident req now st = (Inl e, st')"
  shows "st' = st"
proof (cases "complete_block ident req now st")
  case (Inr st1)
  then obtain t where t: "map_of (Tasks st) ident = Some t" by (auto simp: complete_block_def split: option.splits)
  have "t_Status (complete_task req now t) \<noteq> TaskPending" by (simp add: complete_task_status)
  then have "map_of (Tasks (DispatchPending s now st1)) ident = Some (complete_task req now t)"
    using dispatch_leaves [OF complete_ok [OF assms(1) Inr] complete_block_task [OF t Inr]] by simp
  then show ?thesis using assms(2) Inr by (auto simp: TaskService_Complete_def TaskService_Get_def split: if_splits)
qed (use assms(2) in \<open>auto simp: TaskService_Complete_def split: if_splits\<close>)

lemmas handler_defs = handleRegister_def handleHeartbeat_def handleSubmitTask_def handleCompleteTask_def handleGetTask_def
  handleStatus_def handleHealthz_def writeError_def

text \<open>
  C27. A request that is answered with an error has changed nothing: not the workers, not the tasks, not the counter. This is so for every
  method, path and body.
\<close>

theorem errors_change_nothing:
  assumes "store_ok st" "Suc (length (Tasks st)) < 2 ^ 64" "serve s now meth path body st = ((code, ReplyError e), st')"
  shows "st' = st \<and> 300 \<le> code"
proof (cases "ServeMux_route meth path")
  case (Endpoint ep)
  then show ?thesis using assms(3)
    by (cases ep)
      (auto simp: serve_def handler_defs split: option.splits prod.splits sum.splits
        dest: register_refused heartbeat_refused submit_refused [OF assms(1,2)]
          complete_refused [OF assms(1)])
qed (use assms(3) in \<open>auto simp: serve_def writeError_def\<close>)

theorem errors_change_nothing_witness:
  "serve sample_scheduler 7 ''POST'' ''/tasks/submit'' ''{}'' sample_store = (writeError 400 (Service ModelRequired), sample_store)"
proof -
  have run: "fst (serve sample_scheduler 7 ''POST'' ''/tasks/submit'' ''{}'' sample_store) = writeError 400 (Service ModelRequired)"
    by code_simp
  obtain r st' where full: "serve sample_scheduler 7 ''POST'' ''/tasks/submit'' ''{}'' sample_store = (r, st')" by (metis surj_pair)
  have "st' = sample_store"
    using errors_change_nothing [OF sample_store_ok(1) _ full [unfolded run [unfolded full, simplified] writeError_def]]
    by (simp add: sample_store_def)
  then show ?thesis using run full by simp
qed

end
