(* ===== verification/Platform_Wire.thy ===== *)
theory Platform_Wire
  imports Worker_Scheduler_Client Sched_Api
begin

text \<open>
  The wire between worker and scheduler: what the bodies of the worker's three requests (\<open>worker/src/scheduler_client.cpp\<close>, written
  by hand) become when the scheduler's \<open>decodeJSON\<close> reads them. The two sides share no code; these lemmas are the contract.
\<close>

section \<open>Strings\<close>

function utf8_valid :: "string \<Rightarrow> bool" where
  "utf8_valid s \<longleftrightarrow>
     (if s = [] then True
      else if utf8_len (bytes_of s) = 0 then False
      else utf8_valid (drop (utf8_len (bytes_of s)) s))"
  by pat_completeness auto
termination
  by (relation "measure length") auto

declare utf8_valid.simps [simp del]

text \<open>The strings the worker can send: valid UTF-8, and of the control characters only those it escapes.\<close>

definition text_ok :: "string \<Rightarrow> bool" where
  "text_ok s \<longleftrightarrow> utf8_valid s \<and> list_all json_char_ok s"

lemma byte_in_prefix: "i < n \<Longrightarrow> n \<le> length bs \<Longrightarrow> byte_in i lo hi (take n bs @ ys) = byte_in i lo hi bs"
  by (auto simp: byte_in_def nth_append)

lemma byte_in_length: "byte_in i lo hi bs \<Longrightarrow> i < length bs"
  by (simp add: byte_in_def)

lemma utf8_len_length: "utf8_len bs \<le> length bs"
  by (cases bs) (auto simp: utf8_len_def Suc_le_eq dest!: byte_in_length)

text \<open>A valid sequence does not depend on what follows it, and the bytes of a longer one are not ASCII.\<close>

lemma utf8_len_prefix:
  assumes "utf8_len bs = n" "n \<noteq> 0"
  shows "utf8_len (take n bs @ ys) = n"
proof -
  have len: "n \<le> length bs" using utf8_len_length [of bs] assms by simp
  obtain b r where bs: "bs = b # r" using assms by (cases bs) (simp_all add: utf8_len_def)
  obtain r' where take: "take n bs @ ys = b # r'" using assms(2) bs by (cases n) simp_all
  have eq: "byte_in i lo hi (b # r') = byte_in i lo hi (b # r)" if "i < n" for i lo hi
    using byte_in_prefix [OF that len, of lo hi ys] unfolding take by (simp add: bs)
  show ?thesis
    using assms eq [of 1] eq [of 2] eq [of 3] unfolding take unfolding bs utf8_len_def list.case
    by (auto split: if_splits)
qed

lemma utf8_len_high:
  assumes "1 < utf8_len bs" "i < utf8_len bs"
  shows "128 \<le> bs ! i"
proof -
  obtain b r where bs: "bs = b # r" using assms by (cases bs) (simp_all add: utf8_len_def)
  have lo: "128 \<le> accept_lo b" by (simp add: accept_lo_def)
  have "utf8_len bs \<le> 4" unfolding utf8_len_def bs by simp
  then have "i = 0 \<or> i = 1 \<or> i = 2 \<or> i = 3" using assms(2) by linarith
  then show ?thesis
    using assms lo unfolding utf8_len_def bs by (elim disjE) (simp_all add: byte_in_def split: if_splits)
qed

lemma escape_high: "128 \<le> (of_char c :: nat) \<Longrightarrow> escape_char c = [c]"
  by (auto simp: escape_char_def)

lemma escapeJSON_append: "escapeJSONString (u @ v) = escapeJSONString u @ escapeJSONString v"
  by (simp add: escapeJSONString_def)

lemma escapeJSON_high: "(\<And>c. c \<in> set u \<Longrightarrow> 128 \<le> (of_char c :: nat)) \<Longrightarrow> escapeJSONString u = u"
  by (induction u) (simp_all add: escapeJSONString_def escape_high)

text \<open>One character or one longer sequence at a time.\<close>

lemma string_item_ascii:
  assumes "of_char c < (128 :: nat)" "json_char_ok c"
  shows "string_item (escape_char c @ s) = Some ([c], s)" "hd (escape_char c @ s) \<noteq> QUOTE" "escape_char c \<noteq> []"
proof -
  show "hd (escape_char c @ s) \<noteq> QUOTE" "escape_char c \<noteq> []" by (auto simp: escape_char_def)
  have one: "utf8_len (of_char c # bs) = 1" for bs using assms(1) by (simp add: utf8_len_def)
  show "string_item (escape_char c @ s) = Some ([c], s)"
    using assms(2) one by (auto simp: escape_char_def string_item_def simple_escape_def json_char_ok_def)
qed

lemma string_item_raw:
  assumes "utf8_len (bytes_of u) = length u" "1 < length u"
  shows "string_item (u @ s) = Some (u, s)" "hd (u @ s) \<noteq> QUOTE"
proof -
  let ?n = "length u"
  obtain c t where u: "u = c # t" using assms(2) by (cases u) simp_all
  have high: "128 \<le> (of_char c :: nat)"
    using utf8_len_high [of "bytes_of u" 0] assms(1,2) u by simp
  have "utf8_len (bytes_of (u @ s)) = ?n" using utf8_len_prefix [OF assms(1), of "bytes_of s"] u by simp
  moreover have "c \<noteq> BSLASH" "c \<noteq> QUOTE" using high by auto
  ultimately show "string_item (u @ s) = Some (u, s)" "hd (u @ s) \<noteq> QUOTE"
    using high assms(2) unfolding string_item_def by (simp_all add: u)
qed

lemma string_lit_step:
  assumes "string_item s = Some (v, rest)" "hd s \<noteq> QUOTE"
  shows "string_lit s = map_option (\<lambda>(w, r). (v @ w, r)) (string_lit rest)"
proof -
  obtain c t where "s = c # t" using assms(1) by (cases s) (simp_all add: string_item_def)
  then show ?thesis using assms by (subst string_lit.simps) simp
qed

text \<open>A prefix of clean text is read as it is, whatever follows.\<close>

lemma string_lit_text:
  assumes "text_ok s"
  shows "string_lit (escapeJSONString s @ rest) = map_option (\<lambda>(w, r). (s @ w, r)) (string_lit rest)"
  using assms
proof (induction s rule: utf8_valid.induct)
  case (1 s)
  let ?n = "utf8_len (bytes_of s)"
  show ?case
  proof (cases "s = []")
    case True
    then show ?thesis by (simp add: escapeJSONString_def option.map_ident case_prod_eta [symmetric] option.map_id0 prod.case_eq_if)
  next
    case False
    have n: "?n \<noteq> 0" using "1.prems" False utf8_valid.simps [of s] by (auto simp: text_ok_def split: if_splits)
    have len: "?n \<le> length s" using utf8_len_length [of "bytes_of s"] by simp
    have "text_ok (drop ?n s)"
      using "1.prems" False n utf8_valid.simps [of s] unfolding text_ok_def by (simp add: list_all_iff) (meson in_set_dropD)
    note IH = "1.IH" [OF False n this]
    have cut: "escapeJSONString s @ rest = escapeJSONString (take ?n s) @ escapeJSONString (drop ?n s) @ rest"
      using escapeJSON_append [of "take ?n s" "drop ?n s"] by simp
    have item: "string_item (escapeJSONString (take ?n s) @ r) = Some (take ?n s, r) \<and> hd (escapeJSONString (take ?n s) @ r) \<noteq> QUOTE" for r
    proof (cases "?n = 1")
      case True
      then obtain c t where s: "s = c # t" using False by (cases s) simp_all
      have "of_char c < (128 :: nat)" using True s by (auto simp: utf8_len_def split: if_splits)
      moreover have "json_char_ok c" using "1.prems" s by (simp add: text_ok_def)
      ultimately show ?thesis using string_item_ascii(1,2) [of c r] True s by (simp add: escapeJSONString_def)
    next
      case more: False
      have "128 \<le> (of_char c :: nat)" if "c \<in> set (take ?n s)" for c
      proof -
        obtain i where "i < ?n" "i < length s" "c = s ! i" using \<open>c \<in> set (take ?n s)\<close> by (auto simp: in_set_conv_nth)
        then show ?thesis using utf8_len_high [of "bytes_of s" i] n more by simp
      qed
      then have raw: "escapeJSONString (take ?n s) = take ?n s" by (rule escapeJSON_high)
      have "utf8_len (bytes_of (take ?n s)) = length (take ?n s)"
        using utf8_len_prefix [OF refl n, of "[]"] len by (simp add: take_map)
      then show ?thesis using string_item_raw [of "take ?n s" r] n more len unfolding raw by simp
    qed
    show ?thesis
      unfolding cut string_lit_step [OF conjunct1 [OF item] conjunct2 [OF item]] IH
      by (simp add: option.map_comp comp_def case_prod_beta append_assoc [symmetric] del: append_assoc)
  qed
qed

lemma string_lit_quoted: "text_ok s \<Longrightarrow> string_lit (escapeJSONString s @ QUOTE # rest) = Some (s, rest)"
  using string_lit_text [of s "QUOTE # rest"] string_lit.simps [of "QUOTE # rest"] by simp

lemma string_lit_control:
  assumes "text_ok s" "\<not> json_char_ok c"
  shows "string_lit (escapeJSONString (s @ c # t) @ rest) = None"
proof -
  have "escape_char c = [c]" "string_item (c # r) = None" "c \<noteq> QUOTE" for r
    using assms(2) by (auto simp: escape_char_def string_item_def json_char_ok_def)
  then have "string_lit (escapeJSONString (c # t) @ rest) = None"
    by (subst string_lit.simps) (simp add: escapeJSONString_def)
  then show ?thesis using string_lit_text [OF assms(1), of "escapeJSONString (c # t) @ rest"] escapeJSON_append [of s "c # t"] by simp
qed

section \<open>Tokens\<close>

lemma tokens_Nil [simp]: "tokens [] = Some []"
  by (simp add: tokens.simps)

lemma tokens_punct:
  assumes "punctuation c = Some p" "\<not> json_space c"
  shows "tokens (c # s) = map_option ((#) p) (tokens s)"
  using assms by (subst tokens.simps) (simp add: next_token_def)

lemmas tokens_punctuation [simp] = tokens_punct [of "CHR ''{''" TOpen] tokens_punct [of "CHR ''}''" TClose]
  tokens_punct [of "CHR ''[''" TBegin] tokens_punct [of "CHR '']''" TEnd] tokens_punct [of "CHR '',''" TComma]
  tokens_punct [of "CHR '':''" TColon]

lemma punctuation_facts [simp]:
  "punctuation (CHR ''{'') = Some TOpen" "punctuation (CHR ''}'') = Some TClose" "punctuation (CHR ''['') = Some TBegin"
  "punctuation (CHR '']'') = Some TEnd" "punctuation (CHR '','') = Some TComma" "punctuation (CHR '':'') = Some TColon"
  "\<not> json_space (CHR ''{'')" "\<not> json_space (CHR ''}'')" "\<not> json_space (CHR ''['')" "\<not> json_space (CHR '']'')"
  "\<not> json_space (CHR '','')" "\<not> json_space (CHR '':'')"
  by (simp_all add: punctuation_def json_space_def)

lemma tokens_QUOTE: "string_lit t = Some (v, rest) \<Longrightarrow> tokens (QUOTE # t) = map_option ((#) (TStr v)) (tokens rest)"
  by (subst tokens.simps) (simp add: next_token_def json_space_def punctuation_def)

lemma tokens_string:
  assumes "text_ok s"
  shows "tokens (QUOTE # escapeJSONString s @ QUOTE # rest) = map_option ((#) (TStr s)) (tokens rest)"
  using tokens_QUOTE [OF string_lit_quoted [OF assms]] .

text \<open>Field names: plain letters, which need no escapes.\<close>

definition plain_ascii :: "string \<Rightarrow> bool" where
  "plain_ascii s \<longleftrightarrow> list_all (\<lambda>c. 32 \<le> (of_char c :: nat) \<and> of_char c < (128 :: nat) \<and> c \<noteq> QUOTE \<and> c \<noteq> BSLASH) s"

lemma plain_text: "plain_ascii s \<Longrightarrow> text_ok s \<and> escapeJSONString s = s"
proof (induction s)
  case (Cons c s)
  then have IH: "utf8_valid s" "list_all json_char_ok s" "escapeJSONString s = s"
    and c: "32 \<le> (of_char c :: nat)" "of_char c < (128 :: nat)" "c \<noteq> QUOTE" "c \<noteq> BSLASH" by (auto simp: plain_ascii_def text_ok_def)
  have "utf8_len (bytes_of (c # s)) = 1" using c(2) by (simp add: utf8_len_def)
  then have "utf8_valid (c # s)" using IH(1) utf8_valid.simps [of "c # s"] by simp
  moreover have "escape_char c = [c]" "json_char_ok c" using c by (auto simp: escape_char_def json_char_ok_def)
  ultimately show ?case using IH by (simp add: text_ok_def escapeJSONString_def)
qed (simp add: text_ok_def utf8_valid.simps escapeJSONString_def)

lemma tokens_plain:
  assumes "plain_ascii s"
  shows "tokens (QUOTE # s @ QUOTE # rest) = map_option ((#) (TStr s)) (tokens rest)"
  using tokens_string [of s rest] plain_text [OF assms] by simp

lemma tokens_literal:
  "tokens (''true'' @ s) = map_option ((#) TTrue) (tokens s)" "tokens (''false'' @ s) = map_option ((#) TFalse) (tokens s)"
  by (subst tokens.simps, simp add: next_token_def json_space_def punctuation_def starts_with_def)+

subsection \<open>Numbers\<close>

lemma to_string_head: "hd (to_string n) = CHR ''0'' \<longleftrightarrow> n = 0"
proof (induction n rule: to_string.induct)
  case (1 n)
  show ?case
  proof (cases "n < 10")
    case True
    then have "n \<in> {0, 1, 2, 3, 4, 5, 6, 7, 8, 9}" by auto
    then show ?thesis by (subst to_string.simps) (auto simp: digit_chars)
  next
    case False
    then show ?thesis using "1.IH" by (subst to_string.simps) auto
  qed
qed

lemma to_string_zero: "to_string 0 = ''0''"
  by (subst to_string.simps) (simp add: digit_chars)

lemma valid_to_string: "valid_integer (to_string n)"
  using to_string_digits [of n] to_string_head [of n] by (auto simp: valid_integer_def list_all_iff to_string_zero)

lemma digit_number:
  assumes "is_digit c"
  shows "number_char c" "punctuation c = None" "\<not> json_space c" "c \<notin> {QUOTE, CHR ''t'', CHR ''f'', CHR ''n''}"
proof -
  show "number_char c" using assms by (simp add: number_char_def)
  have other: "c \<noteq> d" if "\<not> is_digit d" for d using assms that by auto
  have not: "\<not> is_digit (CHR ''{'')" "\<not> is_digit (CHR ''}'')" "\<not> is_digit (CHR ''['')" "\<not> is_digit (CHR '']'')"
    "\<not> is_digit (CHR '','')" "\<not> is_digit (CHR '':'')" "\<not> is_digit (CHR '' '')" "\<not> is_digit TAB" "\<not> is_digit CR" "\<not> is_digit NL"
    "\<not> is_digit QUOTE" "\<not> is_digit (CHR ''t'')" "\<not> is_digit (CHR ''f'')" "\<not> is_digit (CHR ''n'')"
    by (simp_all add: is_digit_def)
  note ne = not [THEN other]
  show "punctuation c = None" using ne(1-6) by (simp add: punctuation_def)
  show "\<not> json_space c" using ne(7-10) by (simp add: json_space_def)
  show "c \<notin> {QUOTE, CHR ''t'', CHR ''f'', CHR ''n''}" using ne(11-14) by simp
qed

lemma takeWhile_all:
  assumes "\<forall>c \<in> set d. p c" "s = [] \<or> \<not> p (hd s)"
  shows "takeWhile p (d @ s) = d" "dropWhile p (d @ s) = s"
  using assms by (cases s; simp)+

lemma to_string_no_sign: "hd (to_string m) \<noteq> CHR ''-''"
  using to_string_digits [of m] by (cases "to_string m") (auto simp: is_digit_def)

lemma valid_int_text: "valid_number (int_text n)"
proof -
  have whole: "takeWhile is_digit (to_string m) = to_string m" "dropWhile is_digit (to_string m) = []" for m
    using takeWhile_all [of "to_string m" is_digit "[]"] to_string_digits [of m] by simp_all
  show ?thesis
    by (cases "n < 0")
      (simp_all add: valid_number_def int_text_def whole to_string_no_sign valid_to_string valid_fraction_def valid_exponent_def
        del: takeWhile_eq_all_conv dropWhile_eq_Nil_conv)
qed

lemma tokens_int:
  assumes "s \<noteq> [] \<longrightarrow> \<not> number_char (hd s)"
  shows "tokens (int_text n @ s) = map_option ((#) (TNum (int_text n))) (tokens s)"
proof -
  have all: "\<forall>c \<in> set (int_text n). number_char c"
    using to_string_digits digit_number by (auto simp: int_text_def number_char_def)
  have cut: "takeWhile number_char (int_text n @ s) = int_text n" "dropWhile number_char (int_text n @ s) = s"
    using takeWhile_all [OF all, of s] assms by auto
  obtain c t where ct: "int_text n = c # t" by (cases "int_text n") (auto simp: int_text_def split: if_splits)
  have "c = CHR ''-'' \<or> is_digit c"
    using ct to_string_digits [of "nat n"] by (cases "to_string (nat n)") (auto simp: int_text_def split: if_splits)
  then have c: "number_char c" "punctuation c = None" "\<not> json_space c" "c \<notin> {QUOTE, CHR ''t'', CHR ''f'', CHR ''n''}"
    using digit_number [of c] by (auto simp: number_char_def punctuation_def json_space_def)
  have "next_token (int_text n @ s) = Some (TNum (int_text n), s)"
    using c cut valid_int_text [of n] unfolding ct by (simp add: next_token_def starts_with_def)
  then show ?thesis using c(3) unfolding ct by (subst tokens.simps) simp
qed

lemma ParseInt_text:
  assumes "- (2 ^ 63) \<le> n" "n < 2 ^ 63"
  shows "ParseInt (int_text n) = Some n"
proof -
  have "list_all is_digit (to_string m)" for m using to_string_digits [of m] by (simp add: list_all_iff)
  then show ?thesis using assms to_string_no_sign by (cases "n < 0") (simp_all add: ParseInt_def int_text_def Let_def)
qed

section \<open>The bodies\<close>

lemma plain_words:
  "plain_ascii ''id''" "plain_ascii ''address''" "plain_ascii ''capacity''" "plain_ascii ''running_tasks''" "plain_ascii ''status''" "plain_ascii ''active_task_ids''"
  "plain_ascii ''success''" "plain_ascii ''message''" "plain_ascii ''busy''" "plain_ascii ''ready''"
  by (simp_all add: plain_ascii_def)

lemmas tokens_words = plain_words [THEN tokens_plain, simplified]

lemma separators [simp]: "\<not> number_char (CHR '','')" "\<not> number_char (CHR ''}'')"
  by (simp_all add: number_char_def is_digit_def)

text \<open>A number or a literal in front of a comma or a closing brace, a string in front of anything.\<close>

lemmas tokens_values = tokens_string tokens_int [of "CHR '','' # r" for r, simplified] tokens_int [of "CHR ''}'' # r" for r, simplified]
  tokens_literal [simplified]

lemma tokens_id_list:
  assumes "list_all text_ok ids" "ids \<noteq> []"
  shows "tokens (id_list ids @ CHR '']'' # rest) =
    map_option (\<lambda>toks. TStr (hd ids) # concat (map (\<lambda>x. [TComma, TStr x]) (tl ids)) @ TEnd # toks) (tokens rest)"
  using assms
proof (induction ids rule: id_list.induct)
  case (2 x)
  then show ?case by (simp add: tokens_string option.map_comp comp_def)
next
  case (3 x y zs)
  then show ?case by (simp add: tokens_string option.map_comp comp_def)
qed simp

lemma parse_id_list:
  "json_parse (concat (map (\<lambda>x. [TComma, TStr x]) ids) @ TEnd # toks) (Got v) (InArr vs # stack) =
   json_parse toks (Got (JArr (vs @ v # map JStr ids))) stack"
  by (induction ids arbitrary: v vs) simp_all

lemma string_elems_strings: "string_elems (map JStr ids) = Some ids"
  by (induction ids) (simp_all add: string_elem_def)

lemmas decode_simps = decodeJSON_def json_document_def push_frame_def decode_struct_def find_field_def set_string_def set_int_def
  set_bool_def set_strings_def

lemma decode_register_body:
  assumes "text_ok ident" "text_ok address" "- (2 ^ 63) \<le> capacity" "capacity < 2 ^ 63"
  shows "decodeJSON register_fields register_zero (register_body ident address capacity) =
    Some \<lparr>reg_ID = ident, reg_Address = address, reg_Capacity = capacity, reg_Labels = []\<rparr>"
proof -
  have "tokens (register_body ident address capacity) =
      Some [TOpen, TStr ''id'', TColon, TStr ident, TComma, TStr ''address'', TColon, TStr address, TComma,
        TStr ''capacity'', TColon, TNum (int_text capacity), TClose]"
    using assms(1,2) by (simp add: register_body_def tokens_words tokens_values)
  then show ?thesis
    using ParseInt_text [OF assms(3,4)] by (simp add: decode_simps register_fields_def register_zero_def)
qed

lemma decode_heartbeat_body:
  assumes "text_ok ident" "- (2 ^ 63) \<le> running" "running < 2 ^ 63" "list_all text_ok ids"
  shows "decodeJSON heartbeat_fields heartbeat_zero (heartbeat_body ident running ids) =
    Some \<lparr>hb_ID = ident, hb_RunningTasks = running, hb_Status = (if running > 0 then ''busy'' else ''ready''), hb_ActiveTaskIDs = ids\<rparr>"
proof -
  let ?status = "if running > 0 then ''busy'' else ''ready''"
  have "tokens (heartbeat_body ident running ids) =
      Some ([TOpen, TStr ''id'', TColon, TStr ident, TComma, TStr ''running_tasks'', TColon, TNum (int_text running), TComma,
        TStr ''status'', TColon, TStr ?status] @
        (if ids = [] then [] else [TComma, TStr ''active_task_ids'', TColon, TBegin, TStr (hd ids)] @
           concat (map (\<lambda>x. [TComma, TStr x]) (tl ids)) @ [TEnd]) @ [TClose])"
    using assms(1,4) by (simp add: heartbeat_body_def tokens_words tokens_values tokens_id_list)
  then show ?thesis
    using ParseInt_text [OF assms(2,3)] string_elems_strings [of ids]
    by (cases ids) (simp_all add: decode_simps heartbeat_fields_def heartbeat_zero_def parse_id_list)
qed

lemma decode_result_body:
  assumes "text_ok (result_output result)"
  shows "decodeJSON complete_fields complete_zero (result_body result) =
    Some \<lparr>done_Success = result_success result, done_Message = result_output result\<rparr>"
proof -
  have "tokens (result_body result) =
      Some [TOpen, TStr ''success'', TColon, if result_success result then TTrue else TFalse, TComma,
        TStr ''message'', TColon, TStr (result_output result), TClose]"
    using assms by (simp add: result_body_def tokens_words tokens_values)
  then show ?thesis by (simp add: decode_simps complete_fields_def complete_zero_def)
qed

text \<open>A control character that is not escaped spoils the body.\<close>

lemma decode_result_control:
  assumes "result_output result = u @ c # v" "text_ok u" "\<not> json_char_ok c"
  shows "decodeJSON complete_fields complete_zero (result_body result) = None"
proof -
  have "tokens (QUOTE # escapeJSONString (result_output result) @ rest) = None" for rest
    using string_lit_control [OF assms(2,3), of v rest] assms(1)
    by (subst tokens.simps) (simp add: next_token_def json_space_def punctuation_def)
  then have "tokens (result_body result) = None" by (simp add: result_body_def tokens_words tokens_literal [simplified])
  then show ?thesis by (simp add: decodeJSON_def json_document_def)
qed

end
