(* ===== verification/Sched_Deliverer.thy ===== *)
theory Sched_Deliverer
  imports Sched_Service "HOL-Library.Multiset"
begin

text \<open>
  The assignment deliverer (\<open>scheduler/internal/monitor/deliverer.go\<close>): once per interval it reads the running tasks under the
  store's lock and sends each, as one line over a fresh TCP connection, to its worker. The network is the operating
  system's: what dialling and writing give is an argument.
\<close>

record assignment =
  as_TaskID :: string
  as_Payload :: string
  as_Address :: string

definition NewAssignmentDeliverer_interval :: "duration \<Rightarrow> duration" where
  "NewAssignmentDeliverer_interval interval = (if interval \<le> 0 then second else interval)"

text \<open>The body of the loop: what a task contributes.\<close>

definition task_assignment :: "State \<Rightarrow> SchedTask \<Rightarrow> assignment option" where
  "task_assignment state task =
     (if t_Status task \<noteq> TaskRunning \<or> t_AssignedWorker task = [] then None
      else case map_of (Nodes state) (t_AssignedWorker task) of
             None \<Rightarrow> None
           | Some node \<Rightarrow>
               if n_Address node = [] then None
               else Some \<lparr>as_TaskID = t_ID task, as_Payload = t_PayloadRef task, as_Address = n_Address node\<rparr>)"

definition snapshotAssignments :: "State \<Rightarrow> assignment list" where
  "snapshotAssignments state =
     sort_key (\<lambda>a. (as_Address a, as_TaskID a)) (List.map_filter (\<lambda>(k, task). task_assignment state task) (Tasks state))"

text \<open>Dialling fails, writing fails or times out after some bytes, or all is written.\<close>

datatype conn_outcome = DialError | WriteError nat | Written

definition assignment_line :: "assignment \<Rightarrow> string" where
  "assignment_line item = as_TaskID item @ ''|'' @ as_Payload item @ [NL]"

text \<open>Whether it succeeded, and the bytes that went out, if there was a connection.\<close>

definition deliver :: "conn_outcome \<Rightarrow> assignment \<Rightarrow> bool \<times> string option" where
  "deliver outcome item =
     (case outcome of
        DialError \<Rightarrow> (False, None)
      | WriteError n \<Rightarrow> (False, Some (take n (assignment_line item)))
      | Written \<Rightarrow> (True, Some (assignment_line item)))"

definition dispatchOnce :: "(assignment \<Rightarrow> conn_outcome) \<Rightarrow> State \<Rightarrow> (assignment \<times> bool \<times> string option) list" where
  "dispatchOnce net state = map (\<lambda>item. (item, deliver (net item) item)) (snapshotAssignments state)"

section \<open>Properties\<close>

lemma assignment_id: "task_assignment state task = Some a \<Longrightarrow> as_TaskID a = t_ID task"
  by (auto simp: task_assignment_def split: if_splits option.splits)

lemma set_snapshot: "a \<in> set (snapshotAssignments st) \<longleftrightarrow> (\<exists>k t. (k, t) \<in> set (Tasks st) \<and> task_assignment st t = Some a)"
  by (force simp: snapshotAssignments_def List.map_filter_def)

lemma snapshot_ids:
  assumes "distinct (map fst m)" "\<forall>(k, t) \<in> set m. t_ID t = k"
  shows "distinct (map as_TaskID (List.map_filter (\<lambda>(k, task). task_assignment st task) m)) \<and>
    set (map as_TaskID (List.map_filter (\<lambda>(k, task). task_assignment st task) m)) \<subseteq> set (map fst m)"
  using assms
proof (induction m)
  case (Cons p m)
  obtain k t where p: "p = (k, t)" by fastforce
  have IH: "distinct (map as_TaskID (List.map_filter (\<lambda>(k, task). task_assignment st task) m))"
    "set (map as_TaskID (List.map_filter (\<lambda>(k, task). task_assignment st task) m)) \<subseteq> set (map fst m)" and t: "t_ID t = k" "k \<notin> set (map fst m)"
    using Cons p by simp_all
  show ?case
  proof (cases "task_assignment st t")
    case None
    then show ?thesis using IH p by (auto simp: List.map_filter_simps)
  next
    case (Some a)
    then have "as_TaskID a = k" using assignment_id t(1) by metis
    then show ?thesis using IH t(2) Some p by (auto simp: List.map_filter_simps)
  qed
qed (simp add: List.map_filter_simps)

lemma assignment_of:
  "task_assignment st t = Some a \<longleftrightarrow>
     t_Status t = TaskRunning \<and> t_AssignedWorker t \<noteq> [] \<and>
     (\<exists>node. map_of (Nodes st) (t_AssignedWorker t) = Some node \<and> n_Address node \<noteq> [] \<and>
        a = \<lparr>as_TaskID = t_ID t, as_Payload = t_PayloadRef t, as_Address = n_Address node\<rparr>)"
  by (cases "map_of (Nodes st) (t_AssignedWorker t)") (auto simp: task_assignment_def)

lemma snapshot_lookup:
  assumes "tasks_ok st"
  shows "a \<in> set (snapshotAssignments st) \<longleftrightarrow> (\<exists>t. map_of (Tasks st) (as_TaskID a) = Some t \<and> task_assignment st t = Some a)"
proof -
  have "map_of (Tasks st) (as_TaskID a) = Some t" if "(k, t) \<in> set (Tasks st)" "task_assignment st t = Some a" for k t
  proof -
    have "t_ID t = k" using entries_ok(2) [OF assms] that(1) by (auto simp: task_ok_def)
    then show ?thesis using map_of_is_SomeI [OF task_ids_distinct [OF assms] that(1)] assignment_id [OF that(2)] by simp
  qed
  then show ?thesis unfolding set_snapshot using map_of_SomeD by metis
qed

lemma running_has_worker:
  assumes "tasks_ok st" "map_of (Tasks st) k = Some t" "t_Status t = TaskRunning"
  shows "t_AssignedWorker t \<noteq> []"
proof -
  have "task_ok (set (NodeOrder st)) k t" using entries_ok(2) [OF assms(1)] map_of_SomeD [OF assms(2)] by blast
  then show ?thesis using assms(3) by (simp add: task_ok_def)
qed

text \<open>
  C28. What a pass of the deliverer sends: exactly the running tasks whose worker has an address, each once, to the
  address its worker registered last, in the order of addresses and task ids. Nothing remembers earlier passes: while a task
  runs, every pass sends it again.
\<close>

theorem snapshot_exact:
  assumes "store_ok st"
  shows "(\<forall>a. a \<in> set (snapshotAssignments st) \<longleftrightarrow>
       (\<exists>t node. map_of (Tasks st) (as_TaskID a) = Some t \<and> t_Status t = TaskRunning \<and>
          map_of (Nodes st) (t_AssignedWorker t) = Some node \<and> n_Address node \<noteq> [] \<and>
          a = \<lparr>as_TaskID = t_ID t, as_Payload = t_PayloadRef t, as_Address = n_Address node\<rparr>)) \<and>
    distinct (map as_TaskID (snapshotAssignments st)) \<and>
    sorted (map (\<lambda>a. (as_Address a, as_TaskID a)) (snapshotAssignments st))"
proof (intro conjI allI)
  have tasks: "tasks_ok st" using assms by (simp add: store_ok_def)
  have ids: "\<forall>(k, t) \<in> set (Tasks st). t_ID t = k" using entries_ok(2) [OF tasks] by (auto simp: task_ok_def)
  have dist: "distinct (map fst (Tasks st))" using task_ids_distinct [OF tasks] .
  show "sorted (map (\<lambda>a. (as_Address a, as_TaskID a)) (snapshotAssignments st))" by (simp add: snapshotAssignments_def)
  have "mset (map as_TaskID (snapshotAssignments st)) =
      mset (map as_TaskID (List.map_filter (\<lambda>(k, task). task_assignment st task) (Tasks st)))"
    by (simp only: snapshotAssignments_def mset_map mset_sort)
  then show "distinct (map as_TaskID (snapshotAssignments st))"
    using snapshot_ids [OF dist ids, of st] mset_eq_imp_distinct_iff by blast
  show "a \<in> set (snapshotAssignments st) \<longleftrightarrow>
       (\<exists>t node. map_of (Tasks st) (as_TaskID a) = Some t \<and> t_Status t = TaskRunning \<and>
          map_of (Nodes st) (t_AssignedWorker t) = Some node \<and> n_Address node \<noteq> [] \<and>
          a = \<lparr>as_TaskID = t_ID t, as_Payload = t_PayloadRef t, as_Address = n_Address node\<rparr>)" for a
    unfolding snapshot_lookup [OF tasks] assignment_of ex_simps(2) [symmetric] using running_has_worker [OF tasks]
    by (intro iff_exI) auto
qed

theorem snapshot_exact_witness:
  "\<lparr>as_TaskID = ''task-000001'', as_Payload = ''x'', as_Address = ''w:9''\<rparr>
     \<in> set (snapshotAssignments (run_blocks sample_scheduler sample_blocks NewMemoryStore))"
proof -
  let ?st = "run_blocks sample_scheduler sample_blocks NewMemoryStore"
  let ?a = "\<lparr>as_TaskID = ''task-000001'', as_Payload = ''x'', as_Address = ''w:9''\<rparr>"
  have "store_ok ?st" using run_blocks_ok [OF new_store(1)] by (simp add: new_store(2) sample_blocks_def)
  note exact = conjunct1 [OF snapshot_exact [OF this], THEN spec, of ?a]
  have "case map_of (Tasks ?st) ''task-000001'' of None \<Rightarrow> False | Some t \<Rightarrow>
      t_Status t = TaskRunning \<and> t_AssignedWorker t = ''w'' \<and> t_ID t = ''task-000001'' \<and> t_PayloadRef t = ''x''" by code_simp
  then obtain t where t: "map_of (Tasks ?st) ''task-000001'' = Some t" "t_Status t = TaskRunning" "t_AssignedWorker t = ''w''"
    "t_ID t = ''task-000001''" "t_PayloadRef t = ''x''" by (cases "map_of (Tasks ?st) ''task-000001''") simp_all
  have "case map_of (Nodes ?st) ''w'' of None \<Rightarrow> False | Some node \<Rightarrow> n_Address node = ''w:9''" by code_simp
  then obtain node where "map_of (Nodes ?st) ''w'' = Some node" "n_Address node = ''w:9''"
    by (cases "map_of (Nodes ?st) ''w''") simp_all
  then show ?thesis unfolding exact using t by (intro exI [of _ t] exI [of _ node]) simp
qed

end
