(* ===== verification/Platform_Tasks.thy ===== *)
theory Platform_Tasks
  imports Platform_Wire Sched_Deliverer
begin

text \<open>
  Worker and scheduler together: registration, heartbeat, and the way of a task from the scheduler's store over the deliverer's line to
  the worker, and of its result back to the store. The two programs are joined at their bytes: what one writes is
  what the other reads.
\<close>

section \<open>Routing the worker's requests\<close>

lemma split_on_segment:
  assumes "d \<notin> set w"
  shows "split_on d (w @ d # s) = w # split_on d s" "split_on d w = [w]"
  using assms by (induction w) auto

lemma route_register: "ServeMux_route ''POST'' ''/workers/register'' = Endpoint Register"
  and route_heartbeat: "ServeMux_route ''POST'' ''/workers/heartbeat'' = Endpoint Heartbeat"
  by code_simp+

lemma route_complete:
  assumes "CHR ''/'' \<notin> set ident" "ident \<notin> {[], ''.'', ''..''}"
  shows "ServeMux_route ''POST'' (''/tasks/'' @ ident @ ''/complete'') = Endpoint (CompleteTask ident)"
proof -
  let ?ws = "[''tasks'', ident, ''complete'']"
  have ws: "split_on (CHR ''/'') (tl (''/tasks/'' @ ident @ ''/complete'')) = ?ws"
    using split_on_segment(1) [OF assms(1), of "''complete''"] by simp
  have "\<not> unclean ?ws" using assms(2) by (auto simp: unclean_def)
  then show ?thesis
    using assms(2) unfolding ServeMux_route_def ws Let_def by (simp add: NewRouter_def method_ok_def)
qed

lemma task_id_segment:
  assumes "store_ok st" "map_of (Tasks st) ident = Some t"
  shows "CHR ''/'' \<notin> set ident" "ident \<notin> {[], ''.'', ''..''}" "CHR ''|'' \<notin> set ident" "NL \<notin> set ident"
proof -
  have "map fst (Tasks st) = map (\<lambda>i. FormatTaskID (word_of_nat i)) [1 ..< Suc (length (Tasks st))]"
    using assms(1) by (simp add: store_ok_def tasks_ok_def del: upt_Suc)
  then obtain c where c: "ident = FormatTaskID c" using known_key [OF assms(2)] by (auto simp del: upt_Suc)
  show "CHR ''|'' \<notin> set ident" "NL \<notin> set ident" using FormatTaskID_chars [of c] c by simp_all
  have "CHR ''/'' \<notin> set (to_string (unat c))" using to_string_digits [of "unat c"] by (auto simp: is_digit_def)
  then show "CHR ''/'' \<notin> set ident" using c by (auto simp: FormatTaskID_def Let_def)
  show "ident \<notin> {[], ''.'', ''..''}" using c by (auto simp: FormatTaskID_def Let_def)
qed

lemma text_ok_plain:
  assumes "plain_ascii u"
  shows "text_ok (u @ v) \<longleftrightarrow> text_ok v"
  using assms
proof (induction u)
  case (Cons c u)
  then have IH: "text_ok (u @ v) = text_ok v" and c: "32 \<le> (of_char c :: nat)" "of_char c < (128 :: nat)" by (simp_all add: plain_ascii_def)
  have "utf8_len (bytes_of (c # u @ v)) = 1" using c(2) by (simp add: utf8_len_def)
  then have "utf8_valid (c # u @ v) = utf8_valid (u @ v)" using utf8_valid.simps [of "c # u @ v"] by simp
  moreover have "json_char_ok c" using c(1) by (simp add: json_char_ok_def)
  ultimately show ?case using IH by (simp add: text_ok_def)
qed simp

lemma plain_processed: "plain_ascii ''processed: ''"
  by (simp add: plain_ascii_def)

section \<open>Properties\<close>

text \<open>
  C20. The scheduler accepts a worker's registration: the body \<open>registerWorker\<close> builds is routed, decoded (no field is unknown to the scheduler) and
  answered with 201, the one status \<open>registerWorker\<close> takes for success; the store then has the worker with the id, address and
  capacity it sent.
\<close>

theorem registration_accepted:
  assumes "store_ok st" "ident \<noteq> []" "text_ok ident" "text_ok address" "0 < capacity" "capacity < 2 ^ 31"
  shows "\<exists>node st'. serve s now ''POST'' ''/workers/register'' (register_body ident address capacity) st = ((201, ReplyNode node), st') \<and>
    map_of (Nodes st') ident = Some node \<and> n_ID node = ident \<and> n_Address node = address \<and> n_Capacity node = capacity"
proof -
  let ?req = "\<lparr>reg_ID = ident, reg_Address = address, reg_Capacity = capacity, reg_Labels = []\<rparr>"
  have dec: "decodeJSON register_fields register_zero (register_body ident address capacity) = Some ?req"
    using decode_register_body [OF assms(3,4)] assms(5,6) by simp
  obtain node1 st1 where reg: "Registry_Register (sch_offlineAfter s) ?req now st = Inr (node1, st1)"
    using assms(2) by (cases "map_of (Nodes st) ident") (auto simp: Registry_Register_def Let_def)
  obtain node where node: "Registry_Get ident (DispatchPending s now st1) = Some node"
    using registered [OF reg, of s] by auto
  have ok1: "store_ok st1" using register_ok [OF assms(1) reg] .
  have "\<exists>n. map_of (Nodes st1) ident = Some n \<and> n_Address n = address \<and> n_Capacity n = capacity"
    using reg assms(2,5) by (auto simp: Registry_Register_def Let_def register_node_def update_conv split: option.splits)
  then have "n_Address node = address" "n_Capacity node = capacity"
    using dispatch_worker [of st1 ident _ s now] node by (auto simp: Registry_Get_def same_worker_def)
  moreover have "n_ID node = ident"
    using node node_entry [OF _ map_of_SomeD] dispatch_ok [OF ok1, of s now] by (auto simp: Registry_Get_def store_ok_def node_ok_def)
  moreover have "serve s now ''POST'' ''/workers/register'' (register_body ident address capacity) st =
      ((201, ReplyNode node), DispatchPending s now st1)"
    using reg node by (simp add: serve_def route_register handleRegister_def dec NodeService_Register_def Let_def)
  ultimately show ?thesis using node by (auto simp: Registry_Get_def)
qed

text \<open>
  C21. Heartbeats: the body \<open>sendHeartbeat\<close> builds is always decoded; a registered worker gets 200, the one status it takes for success.
  An unknown worker gets 404 and the store stays as it is, so heartbeats alone never make a worker known again to a
  scheduler that has lost its store.
\<close>

theorem heartbeat_accepted:
  assumes "ident \<noteq> []" "text_ok ident" "0 \<le> running" "running < 2 ^ 31" "list_all text_ok ids"
  shows "case map_of (Nodes st) ident of
      None \<Rightarrow> serve s now ''POST'' ''/workers/heartbeat'' (heartbeat_body ident running ids) st = (writeError 404 (Service (WorkerNotFound ident)), st)
    | Some old \<Rightarrow>
        \<exists>node st'. serve s now ''POST'' ''/workers/heartbeat'' (heartbeat_body ident running ids) st = ((200, ReplyNode node), st') \<and>
          map_of (Nodes st') ident = Some node \<and> n_LastHeartbeat node = now \<and> n_Capacity node = n_Capacity old"
proof -
  define status where "status = (if running > 0 then ''busy'' else ''ready'')"
  let ?req = "\<lparr>hb_ID = ident, hb_RunningTasks = running, hb_Status = status, hb_ActiveTaskIDs = ids\<rparr>"
  have dec: "decodeJSON heartbeat_fields heartbeat_zero (heartbeat_body ident running ids) = Some ?req"
    unfolding status_def by (rule decode_heartbeat_body [OF assms(2) _ _ assms(5)]) (use assms(3,4) in simp_all)
  show ?thesis
  proof (cases "map_of (Nodes st) ident")
    case None
    then show ?thesis
      using assms(1) dec by (simp add: serve_def route_heartbeat handleHeartbeat_def NodeService_Heartbeat_def Registry_Heartbeat_def)
  next
    case (Some old)
    let ?n = "heartbeat_node (sch_offlineAfter s) ?req now old"
    let ?st1 = "st\<lparr>Nodes := AList.update ident ?n (Nodes st)\<rparr>"
    have hb: "Registry_Heartbeat (sch_offlineAfter s) ?req now st = Inr (?n, ?st1)"
      using assms(1) Some by (simp add: Registry_Heartbeat_def Let_def)
    have "map_of (Nodes ?st1) ident = Some ?n" by (simp add: update_conv)
    then obtain node where node: "map_of (Nodes (DispatchPending s now ?st1)) ident = Some node" "same_worker ?n node"
      using dispatch_worker by metis
    have "serve s now ''POST'' ''/workers/heartbeat'' (heartbeat_body ident running ids) st =
        ((200, ReplyNode node), DispatchPending s now ?st1)"
      using hb node(1)
      by (simp add: serve_def route_heartbeat handleHeartbeat_def dec NodeService_Heartbeat_def Registry_Get_def Let_def)
    moreover have "n_LastHeartbeat node = now" "n_Capacity node = n_Capacity old"
      using node(2) by (simp_all add: same_worker_def heartbeat_node_def Let_def)
    ultimately show ?thesis using node(1) Some by auto
  qed
qed

text \<open>The task the worker makes of an assignment, and what it reports.\<close>

definition assigned_job :: "assignment \<Rightarrow> Task" where
  "assigned_job a = \<lparr>task_id = as_TaskID a, task_prompt = as_Payload a\<rparr>"

definition report :: "Scheduler \<Rightarrow> gotime \<Rightarrow> TaskResult \<Rightarrow> State \<Rightarrow> response \<times> State" where
  "report s now r st = serve s now ''POST'' (''/tasks/'' @ result_task_id r @ ''/complete'') (result_body r) st"

lemma assigned_task:
  assumes "store_ok st" "a \<in> set (snapshotAssignments st)"
  obtains t where "map_of (Tasks st) (as_TaskID a) = Some t" "t_Status t = TaskRunning" "t_PayloadRef t = as_Payload a"
proof -
  have "tasks_ok st" using assms(1) by (simp add: store_ok_def)
  from iffD1 [OF snapshot_lookup [OF this] assms(2)] obtain t where
    t: "map_of (Tasks st) (as_TaskID a) = Some t" "task_assignment st t = Some a" by (elim exE conjE)
  from t(2) have "t_Status t = TaskRunning" "t_PayloadRef t = as_Payload a" unfolding assignment_of by (elim exE conjE, simp)+
  with t(1) show thesis by (rule that)
qed

lemma report_of:
  assumes "store_ok st" "map_of (Tasks st) ident = Some t" "result_task_id r = ident"
  shows "report s now r st = handleCompleteTask s now ident (result_body r) st"
  unfolding report_def serve_def assms(3) route_complete [OF task_id_segment(1,2) [OF assms(1,2)]] by simp



section \<open>Examples\<close>

lemma text_ok_if: "plain_ascii s \<Longrightarrow> text_ok s"
  using plain_text by blast

definition round_store :: State where
  "round_store = run_blocks sample_scheduler sample_blocks NewMemoryStore"

definition round_assignment :: assignment where
  "round_assignment = \<lparr>as_TaskID = ''task-000001'', as_Payload = ''x'', as_Address = ''w:9''\<rparr>"

lemma round_store_ok: "store_ok round_store"
  using run_blocks_ok [OF new_store(1)] by (simp add: round_store_def new_store(2) sample_blocks_def)

lemma round_snapshot: "round_assignment \<in> set (snapshotAssignments round_store)"
  by code_simp

theorem registration_accepted_witness:
  "\<exists>node st'. serve sample_scheduler 7 ''POST'' ''/workers/register'' (register_body ''worker-1'' ''127.0.0.1:9001'' 4) round_store =
     ((201, ReplyNode node), st') \<and> map_of (Nodes st') ''worker-1'' = Some node \<and> n_Capacity node = 4"
proof -
  have "text_ok ''worker-1''" "text_ok ''127.0.0.1:9001''" by (simp_all add: text_ok_if plain_ascii_def)
  from registration_accepted [OF round_store_ok _ this, of 4 sample_scheduler 7] show ?thesis by auto
qed

theorem heartbeat_accepted_witness:
  "serve sample_scheduler 7 ''POST'' ''/workers/heartbeat'' (heartbeat_body ''lost'' 0 [''task-000001'']) round_store =
     (writeError 404 (Service (WorkerNotFound ''lost'')), round_store)"
proof -
  have "text_ok ''lost''" "list_all text_ok [''task-000001'']" by (simp_all add: text_ok_if plain_ascii_def)
  moreover have "map_of (Nodes round_store) ''lost'' = None" by code_simp
  ultimately show ?thesis using heartbeat_accepted [of "''lost''" 0 "[''task-000001'']", where st = round_store and s = sample_scheduler and now = 7] by simp
qed


definition control_submit :: SubmitTaskRequest where
  "control_submit = \<lparr>sub_Model = ''m'', sub_Operation = ''run'', sub_PayloadRef = ''a'' @ [CHR 0x01], sub_Metadata = []\<rparr>"

definition control_store :: State where
  "control_store = run_blocks sample_scheduler [BlockRegister sample_register 100, BlockSubmit control_submit 200, BlockDispatch 200] NewMemoryStore"


end
