(* ===== verification/Platform_System.thy ===== *)
theory Platform_System
  imports Platform_Tasks Worker_Node_Run
begin

text \<open>
  The whole platform: one scheduler, any number of workers and the network between them, as one step relation. The scheduler's store
  moves by the blocks its calls consist of, the deliverer by passes over a snapshot of the store, each worker by the steps of its threads. Lines and
  requests are bytes that are under way until somebody reads them, or forever. Connections may fail or be cut, workers may stop, crash and
  start again. What is assumed is that nobody else connects to the workers or reports results.
  The registrations and heartbeats of the workers are among the scheduler's blocks, at any time and with any content.
\<close>

section \<open>The state\<close>

text \<open>The store; what is left of the deliverer's pass; the bytes on connections to an address; the worker process that listens at an address; the
  consumers that have posted the result they are reporting; the posted requests, path and body. The last field is history: the tasks whose line was cut.\<close>

record Platform =
  pf_store :: State
  pf_batch :: "assignment list"
  pf_lines :: "(string \<times> string) multiset"
  pf_nodes :: "string \<rightharpoonup> NodeRun"
  pf_posted :: "(string \<times> nat) set"
  pf_requests :: "(string \<times> string) multiset"
  pf_cut :: "string set"

definition platform_new :: Platform where
  "platform_new =
     \<lparr>pf_store = NewMemoryStore, pf_batch = [], pf_lines = {#}, pf_nodes = Map.empty, pf_posted = {}, pf_requests = {#}, pf_cut = {}\<rparr>"

section \<open>Steps\<close>

text \<open>The deliverer's next connection; nothing changes when dialling fails.\<close>

definition deliver_next :: "conn_outcome \<Rightarrow> Platform \<Rightarrow> Platform" where
  "deliver_next outcome P =
     (case pf_batch P of
        [] \<Rightarrow> P
      | item # rest \<Rightarrow>
          (case deliver outcome item of
             (_, None) \<Rightarrow> P\<lparr>pf_batch := rest\<rparr>
           | (_, Some wire) \<Rightarrow>
               P\<lparr>pf_batch := rest, pf_lines := add_mset (as_Address item, wire) (pf_lines P),
                 pf_cut := (if wire = assignment_line item then pf_cut P else insert (as_TaskID item) (pf_cut P))\<rparr>))"

fun is_reporting :: "consumer_pc \<Rightarrow> bool" where
  "is_reporting (Reporting _ _) \<longleftrightarrow> True"
| "is_reporting _ \<longleftrightarrow> False"

text \<open>A worker moves: a consumer that is no longer reporting has no post to its name.\<close>

definition set_node :: "string \<Rightarrow> NodeRun \<Rightarrow> Platform \<Rightarrow> Platform" where
  "set_node addr n P =
     P\<lparr>pf_nodes := (pf_nodes P)(addr \<mapsto> n),
       pf_posted := Set.filter (\<lambda>(a, i). a \<noteq> addr \<or> i < length (nr_consumers n) \<and> is_reporting (nr_consumers n ! i)) (pf_posted P)\<rparr>"

definition report_request :: "TaskResult \<Rightarrow> string \<times> string" where
  "report_request r = (''/tasks/'' @ result_task_id r @ ''/complete'', result_body r)"

text \<open>What a request does under the store's lock if it is a completion report; the dispatch behind it is a block of its own.\<close>

definition report_block :: "Scheduler \<Rightarrow> gotime \<Rightarrow> string \<times> string \<Rightarrow> State \<Rightarrow> State" where
  "report_block s now request st =
     (case ServeMux_route ''POST'' (fst request) of
        Endpoint (CompleteTask ident) \<Rightarrow>
          (case decodeJSON complete_fields complete_zero (snd request) of
             None \<Rightarrow> st
           | Some req \<Rightarrow> run_block s (BlockComplete ident req now) st)
      | _ \<Rightarrow> st)"

fun is_completion :: "store_block \<Rightarrow> bool" where
  "is_completion (BlockComplete _ _ _) \<longleftrightarrow> True"
| "is_completion _ \<longleftrightarrow> False"

inductive platform_step :: "Scheduler \<Rightarrow> Platform \<Rightarrow> Platform \<Rightarrow> bool" for s where
  block: "\<not> is_completion b \<Longrightarrow> platform_step s P (P\<lparr>pf_store := run_block s b (pf_store P)\<rparr>)"
| pass: "pf_batch P = [] \<Longrightarrow> platform_step s P (P\<lparr>pf_batch := snapshotAssignments (pf_store P)\<rparr>)"
| send: "pf_batch P \<noteq> [] \<Longrightarrow> platform_step s P (deliver_next outcome P)"
| accept: "(addr, wire) \<in># pf_lines P \<Longrightarrow> pf_nodes P addr = Some n \<Longrightarrow> nr_accept n = Accepting \<Longrightarrow>
    client_sends wire rs \<Longrightarrow> handleClient rs = Some (Some task) \<Longrightarrow>
    platform_step s P (set_node addr (n\<lparr>nr_accept := Handling task\<rparr>) (P\<lparr>pf_lines := pf_lines P - {#(addr, wire)#}\<rparr>))"
| no_task: "(addr, wire) \<in># pf_lines P \<Longrightarrow> pf_nodes P addr = Some n \<Longrightarrow> nr_accept n = Accepting \<Longrightarrow>
    client_sends wire rs \<Longrightarrow> handleClient rs = Some None \<Longrightarrow>
    platform_step s P (P\<lparr>pf_lines := pf_lines P - {#(addr, wire)#}\<rparr>)"
| node: "pf_nodes P addr = Some n \<Longrightarrow> own_step n n' \<Longrightarrow> platform_step s P (set_node addr n' P)"
| stop: "pf_nodes P addr = Some n \<Longrightarrow> nr_stop n = Not_Stopping \<Longrightarrow> platform_step s P (set_node addr (stop_flag n) P)"
| post: "pf_nodes P addr = Some n \<Longrightarrow> i < length (nr_consumers n) \<Longrightarrow> nr_consumers n ! i = Reporting r task \<Longrightarrow>
    (addr, i) \<notin> pf_posted P \<Longrightarrow>
    platform_step s P (P\<lparr>pf_posted := insert (addr, i) (pf_posted P), pf_requests := add_mset (report_request r) (pf_requests P)\<rparr>)"
| handle: "request \<in># pf_requests P \<Longrightarrow>
    platform_step s P (P\<lparr>pf_store := report_block s now request (pf_store P), pf_requests := pf_requests P - {#request#}\<rparr>)"
| up: "pf_nodes P addr = None \<Longrightarrow> WorkerNode_start env (WorkerNode_new config_path) = Some (True, n) \<Longrightarrow>
    platform_step s P (set_node addr (node_started n) P)"
| crash: "platform_step s P (P\<lparr>pf_nodes := (pf_nodes P)(addr := None),
    pf_posted := Set.filter (\<lambda>(a, i). a \<noteq> addr) (pf_posted P)\<rparr>)"

text \<open>The states after \<open>n\<close> steps.\<close>

definition platform_run :: "Scheduler \<Rightarrow> nat \<Rightarrow> Platform \<Rightarrow> bool" where
  "platform_run s n P \<longleftrightarrow> (platform_step s ^^ n) platform_new P"

text \<open>The scheduler's handler for reports is this block and a dispatch.\<close>

lemma serve_report:
  assumes "ServeMux_route ''POST'' path = Endpoint (CompleteTask ident)"
  shows "snd (serve s now ''POST'' path body st) \<in> {st, DispatchPending s now (report_block s now (path, body) st)}"
  using assms
  by (auto simp: serve_def report_block_def handleCompleteTask_def TaskService_Complete_def Let_def split: option.splits sum.splits)

section \<open>What is under way belongs to the store\<close>

definition right_item :: "State \<Rightarrow> assignment \<Rightarrow> bool" where
  "right_item st a \<longleftrightarrow>
     (\<exists>t. map_of (Tasks st) (as_TaskID a) = Some t \<and> t_Status t \<noteq> TaskPending \<and> t_PayloadRef t = as_Payload a)"

definition right_line :: "string set \<Rightarrow> State \<Rightarrow> string \<Rightarrow> bool" where
  "right_line lost st wire \<longleftrightarrow>
     (\<exists>a n. right_item st a \<and> wire = take n (assignment_line a) \<and> (n < length (assignment_line a) \<longrightarrow> as_TaskID a \<in> lost))"

definition right_job :: "string set \<Rightarrow> State \<Rightarrow> Task \<Rightarrow> bool" where
  "right_job lost st task \<longleftrightarrow>
     (\<exists>t. map_of (Tasks st) (task_id task) = Some t \<and> t_Status t \<noteq> TaskPending \<and>
        (line_safe (t_PayloadRef t) \<longrightarrow> task_id task \<notin> lost \<longrightarrow> task_prompt task = t_PayloadRef t))"

definition right_request :: "string set \<Rightarrow> State \<Rightarrow> string \<times> string \<Rightarrow> bool" where
  "right_request lost st request \<longleftrightarrow> (\<exists>task. right_job lost st task \<and> request = report_request (Executor_execute task))"

text \<open>The payloads that survive the way to the worker and back.\<close>

definition payload_ok :: "string \<Rightarrow> bool" where
  "payload_ok payload \<longleftrightarrow> line_safe payload \<and> text_ok payload"

definition right_result :: "string set \<Rightarrow> string \<Rightarrow> SchedTask \<Rightarrow> bool" where
  "right_result lost ident t \<longleftrightarrow>
     (t_Status t \<in> {TaskCompleted, TaskFailed} \<longrightarrow> payload_ok (t_PayloadRef t) \<longrightarrow> ident \<notin> lost \<longrightarrow>
        t_Status t = TaskCompleted \<and> t_Message t = result_output (Executor_execute \<lparr>task_id = ident, task_prompt = t_PayloadRef t\<rparr>))"

text \<open>The tasks a worker has in its threads and its queue.\<close>

fun accept_held :: "accept_pc \<Rightarrow> Task set" where
  "accept_held (Handling task) = {task}"
| "accept_held (Inserting task) = {task}"
| "accept_held (Pushing task) = {task}"
| "accept_held _ = {}"

definition node_tasks :: "NodeRun \<Rightarrow> Task set" where
  "node_tasks n =
     accept_held (nr_accept n) \<union> set (tq_queue (wn_queue n)) \<union> (\<Union>c \<in> set (nr_consumers n). set (consumer_tasks c))"

definition right_node :: "string set \<Rightarrow> State \<Rightarrow> NodeRun \<Rightarrow> bool" where
  "right_node lost st n \<longleftrightarrow> node_inv n \<and> nr_consumers n \<noteq> [] \<and> (\<forall>task \<in> node_tasks n. right_job lost st task)"

definition platform_inv :: "Platform \<Rightarrow> bool" where
  "platform_inv P \<longleftrightarrow>
     store_ok (pf_store P) \<and> (\<forall>a \<in> set (pf_batch P). right_item (pf_store P) a) \<and>
     (\<forall>(addr, wire) \<in># pf_lines P. right_line (pf_cut P) (pf_store P) wire) \<and>
     (\<forall>addr n. pf_nodes P addr = Some n \<longrightarrow> right_node (pf_cut P) (pf_store P) n) \<and>
     (\<forall>request \<in># pf_requests P. right_request (pf_cut P) (pf_store P) request) \<and>
     (\<forall>ident t. map_of (Tasks (pf_store P)) ident = Some t \<longrightarrow> right_result (pf_cut P) ident t)"

section \<open>It stays so when the store moves on\<close>

definition grows :: "State \<Rightarrow> State \<Rightarrow> bool" where
  "grows st st' \<longleftrightarrow>
     (\<forall>ident t. map_of (Tasks st) ident = Some t \<longrightarrow>
        (\<exists>c t'. map_of (Tasks st') ident = Some t' \<and> moved_on c t t'))"

lemma grows_refl: "grows st st"
  unfolding grows_def using moved_on_refl by blast

lemma right_item_grows: "right_item st a \<Longrightarrow> grows st st' \<Longrightarrow> right_item st' a"
  unfolding right_item_def grows_def moved_on_def same_job_def by metis

lemma right_job_grows: "right_job lost st task \<Longrightarrow> grows st st' \<Longrightarrow> lost \<subseteq> lost' \<Longrightarrow> right_job lost' st' task"
  unfolding right_job_def grows_def moved_on_def same_job_def by (metis subsetD)

lemma right_line_grows: "right_line lost st wire \<Longrightarrow> grows st st' \<Longrightarrow> lost \<subseteq> lost' \<Longrightarrow> right_line lost' st' wire"
  unfolding right_line_def using right_item_grows by (metis subsetD)

lemma right_request_grows: "right_request lost st r \<Longrightarrow> grows st st' \<Longrightarrow> lost \<subseteq> lost' \<Longrightarrow> right_request lost' st' r"
  unfolding right_request_def using right_job_grows by blast

lemma right_node_grows: "right_node lost st n \<Longrightarrow> grows st st' \<Longrightarrow> lost \<subseteq> lost' \<Longrightarrow> right_node lost' st' n"
  unfolding right_node_def using right_job_grows by blast

text \<open>A step that moves the store and removes requests.\<close>

lemma platform_inv_store:
  assumes "platform_inv P" "store_ok st'" "grows (pf_store P) st'" "reqs \<subseteq># pf_requests P"
    "\<And>ident t. map_of (Tasks st') ident = Some t \<Longrightarrow> right_result (pf_cut P) ident t"
  shows "platform_inv (P\<lparr>pf_store := st', pf_requests := reqs\<rparr>)"
  using assms right_item_grows [OF _ assms(3)] right_line_grows [OF _ assms(3) order_refl] right_node_grows [OF _ assms(3) order_refl]
    right_request_grows [OF _ assms(3) order_refl]
  unfolding platform_inv_def by (fastforce dest: mset_subset_eqD)

lemma run_block_grows:
  assumes "store_ok st" "Suc (length (Tasks st)) < 2 ^ 64"
  shows "grows st (run_block s b st)"
  unfolding grows_def using run_block_moves [OF assms] by metis

text \<open>Only completions finish a task.\<close>

lemma block_finishes_nothing:
  assumes "store_ok st" "\<not> is_completion b" "map_of (Tasks (run_block s b st)) ident = Some t"
    "t_Status t \<in> {TaskCompleted, TaskFailed}"
  shows "map_of (Tasks st) ident = Some t"
proof (cases b)
  case (BlockRegister req now)
  then show ?thesis using assms(3) register_tasks [of "sch_offlineAfter s" req now st]
    by (cases "Registry_Register (sch_offlineAfter s) req now st") auto
next
  case (BlockHeartbeat req now)
  then show ?thesis using assms(3) heartbeat_tasks [of "sch_offlineAfter s" req now st]
    by (cases "Registry_Heartbeat (sch_offlineAfter s) req now st") auto
next
  case (BlockSubmit req now)
  then show ?thesis using assms(3,4) by (auto simp: submit_block_def Let_def update_conv new_task_def split: if_splits)
next
  case (BlockDispatch now)
  have "ident \<in> set (map fst (Tasks st))"
    using known_key [OF assms(3)] BlockDispatch by (simp only: run_block.simps dispatch_keys)
  then obtain u where u: "map_of (Tasks st) ident = Some u" by (metis map_of_eq_None_iff list.set_map not_None_eq)
  from dispatch_task [OF assms(1) u, of s now] show ?thesis
    using assms(3,4) BlockDispatch u by (auto simp: assign_task_def)
next
  case (BlockRefresh now)
  then show ?thesis using assms(3) by (simp add: RefreshNodeStates_def)
qed (use assms(2) in simp)

text \<open>A report, whoever sends it, leaves a right result if the job behind it was right.\<close>

lemma report_block_eq:
  assumes "store_ok st" "map_of (Tasks st) (task_id task) = Some t"
  shows "report_block s now (report_request (Executor_execute task)) st =
    (case decodeJSON complete_fields complete_zero (result_body (Executor_execute task)) of
       None \<Rightarrow> st
     | Some req \<Rightarrow> run_block s (BlockComplete (task_id task) req now) st)"
proof -
  have ident: "result_task_id (Executor_execute task) = task_id task" by (simp add: Executor_execute_eq)
  show ?thesis
    unfolding report_block_def report_request_def ident fst_conv snd_conv route_complete [OF task_id_segment(1,2) [OF assms]] by simp
qed

lemma decode_processed:
  assumes "text_ok (task_prompt task)"
  shows "decodeJSON complete_fields complete_zero (result_body (Executor_execute task)) =
    Some \<lparr>done_Success = True, done_Message = result_output (Executor_execute task)\<rparr>"
proof -
  have "text_ok (result_output (Executor_execute task))"
    using assms text_ok_plain [OF plain_processed] by (simp add: Executor_execute_eq)
  then show ?thesis using decode_result_body by (simp add: Executor_execute_eq)
qed

lemma complete_processed:
  "complete_task \<lparr>done_Success = True, done_Message = result_output (Executor_execute task)\<rparr> now t =
     t\<lparr>t_CompletedAt := Some now, t_Message := result_output (Executor_execute task), t_Status := TaskCompleted\<rparr>"
  by (simp add: complete_task_def Executor_execute_eq)

lemma complete_block_tasks:
  assumes "store_ok st" "map_of (Tasks st) ident = Some t"
  shows "map_of (Tasks (run_block s (BlockComplete ident req now) st)) = (map_of (Tasks st))(ident \<mapsto> complete_task req now t)"
  using assms by (auto simp: complete_block_def Let_def fun_eq_iff)

lemma report_block_results:
  assumes "store_ok st" "right_request lost st request"
    "\<And>ident t. map_of (Tasks st) ident = Some t \<Longrightarrow> right_result lost ident t"
    "map_of (Tasks (report_block s now request st)) ident = Some t'"
  shows "right_result lost ident t'"
proof -
  obtain task t where task: "request = report_request (Executor_execute task)" "map_of (Tasks st) (task_id task) = Some t"
    "line_safe (t_PayloadRef t) \<Longrightarrow> task_id task \<notin> lost \<Longrightarrow> task_prompt task = t_PayloadRef t"
    using assms(2) by (auto simp: right_request_def right_job_def)
  note eq = report_block_eq [OF assms(1) task(2), of s now, folded task(1)]
  show ?thesis
  proof (cases "decodeJSON complete_fields complete_zero (result_body (Executor_execute task))")
    case None
    then show ?thesis using eq assms(3,4) by simp
  next
    case (Some req)
    then have tasks: "map_of (Tasks (report_block s now request st)) = (map_of (Tasks st))(task_id task \<mapsto> complete_task req now t)"
      using eq complete_block_tasks [OF assms(1) task(2)] by simp
    show ?thesis
    proof (cases "ident = task_id task \<and> payload_ok (t_PayloadRef t) \<and> ident \<notin> lost")
      case True
      then have prompt: "task_prompt task = t_PayloadRef t" using task(3) unfolding payload_ok_def by blast
      then have "text_ok (task_prompt task)" using True by (simp add: payload_ok_def)
      from decode_processed [OF this] have "req = \<lparr>done_Success = True, done_Message = result_output (Executor_execute task)\<rparr>"
        using Some by simp
      then have t': "t' = t\<lparr>t_CompletedAt := Some now, t_Message := result_output (Executor_execute task), t_Status := TaskCompleted\<rparr>"
        using assms(4) tasks True complete_processed [of task now t] by simp
      have "Executor_execute \<lparr>task_id = ident, task_prompt = t_PayloadRef t\<rparr> = Executor_execute task"
        using True prompt by (simp add: Executor_execute_eq)
      then show ?thesis using t' by (simp add: right_result_def)
    next
      case False
      have payload: "t_PayloadRef (complete_task req now t) = t_PayloadRef t" by (simp add: complete_task_def Let_def)
      show ?thesis
      proof (cases "ident = task_id task")
        case True
        then have "t' = complete_task req now t" using assms(4) tasks by simp
        then show ?thesis using False True payload by (simp add: right_result_def)
      next
        case other: False
        then have "map_of (Tasks st) ident = Some t'" using assms(4) tasks by simp
        then show ?thesis by (rule assms(3))
      qed
    qed
  qed
qed

lemma report_block_cases:
  obtains (nothing) "report_block s now request st = st"
    | (completes) ident req where "report_block s now request st = run_block s (BlockComplete ident req now) st"
proof (cases "\<exists>ident. ServeMux_route ''POST'' (fst request) = Endpoint (CompleteTask ident)")
  case True
  then obtain ident where "ServeMux_route ''POST'' (fst request) = Endpoint (CompleteTask ident)" ..
  then show thesis
    using that by (cases "decodeJSON complete_fields complete_zero (snd request)") (simp_all add: report_block_def)
next
  case False
  then have "report_block s now request st = st" by (auto simp: report_block_def split: route.splits endpoint.splits)
  then show thesis by (rule nothing)
qed

lemma report_block_ok:
  assumes "store_ok st" "Suc (length (Tasks st)) < 2 ^ 64"
  shows "store_ok (report_block s now request st)" "grows st (report_block s now request st)"
    "length (Tasks (report_block s now request st)) \<le> Suc (length (Tasks st))"
proof -
  have "store_ok (report_block s now request st) \<and> grows st (report_block s now request st) \<and>
      length (Tasks (report_block s now request st)) \<le> Suc (length (Tasks st))"
    by (rule report_block_cases [of s now request st])
      (use assms(1) run_block_ok [OF assms] run_block_grows [OF assms] grows_refl in \<open>auto simp del: run_block.simps\<close>)
  then show "store_ok (report_block s now request st)" "grows st (report_block s now request st)"
    "length (Tasks (report_block s now request st)) \<le> Suc (length (Tasks st))" by blast+
qed

section \<open>It stays so when the workers move\<close>

lemma node_tasks_accept: "node_tasks (n\<lparr>nr_accept := Handling task\<rparr>) \<subseteq> insert task (node_tasks n)"
  by (auto simp: node_tasks_def)

lemma consumer_update_tasks:
  "i < length cs \<Longrightarrow> (\<Union>c \<in> set (cs[i := c']). set (consumer_tasks c)) \<subseteq> (\<Union>c \<in> set cs. set (consumer_tasks c)) \<union> set (consumer_tasks c')"
  using set_update_subset_insert [of cs i c'] by blast

lemma own_step_node_tasks:
  assumes "own_step n n'"
  shows "node_tasks n' \<subseteq> node_tasks n"
  using assms
proof (cases rule: own_step.cases)
  case (pop i)
  from pop(3) show ?thesis
  proof (cases rule: consumer_pop_cases)
    case stopped
    then show ?thesis using consumer_update_tasks [OF pop(1), of Consumer_Ended] by (auto simp: node_tasks_def)
  next
    case (popped task rest)
    then show ?thesis using consumer_update_tasks [OF pop(1), of "Executing task"] by (auto simp: node_tasks_def)
  qed
next
  case (head i)
  then show ?thesis
    using consumer_update_tasks [OF head(2), of Popping] consumer_update_tasks [OF head(2), of Consumer_Ended]
    by (auto simp: consumer_head_def node_tasks_def)
next
  case (execute i task)
  moreover have "task \<in> (\<Union>c \<in> set (nr_consumers n). set (consumer_tasks c))"
    using execute(2,3) nth_mem by (metis UN_I consumer_tasks.simps(1) list.set_intros(1))
  ultimately show ?thesis
    using consumer_update_tasks [OF execute(2), of "Reporting (Executor_execute task) task"] by (auto simp: consumer_execute_def node_tasks_def)
next
  case (finish i result task)
  then show ?thesis using consumer_update_tasks [OF finish(2), of At_Head]
    by (auto simp: consumer_finish_def WorkerNode_finishTask_def node_tasks_def)
next
  case (push task)
  then show ?thesis
    by (cases "tq_stopped (wn_queue n)")
      (auto simp: handler_push_def enqueue_push_def TaskQueue_push_def WorkerNode_finishTask_def accept_next_def node_tasks_def)
next
  case (ins task)
  then show ?thesis by (cases "task_id task \<in> wn_active n") (auto simp: handler_insert_def enqueue_insert_def accept_next_def node_tasks_def)
qed (auto simp: handler_check_def accept_next_def stop_serving_def stop_transport_def stop_queue_def stop_pool_def TaskQueue_stop_def node_tasks_def)

lemma right_node_own:
  assumes "right_node lost st n" "own_step n n'"
  shows "right_node lost st n'"
  using assms own_step_node_tasks [OF assms(2)] own_step_consumers [OF assms(2)] node_step_inv [OF node_step.own [OF assms(2)]]
  unfolding right_node_def by (metis length_0_conv subsetD)

lemma right_node_started:
  assumes "WorkerNode_start env (WorkerNode_new config_path) = Some (True, n)"
  shows "right_node lost st (node_started n)"
proof -
  have inv: "node_inv (node_started n)" using node_run_inv [of env config_path n] assms by (simp add: node_run_def)
  have "\<not> wn_running (WorkerNode_new config_path)" by (simp add: WorkerNode_new_def)
  with assms have "0 < threads (wn_config n)"
  proof (cases rule: WorkerNode_start_cases)
    case (failed m)
    then show ?thesis using start_failed_down [OF failed] by simp
  next
    case (up config n1 n2 n3)
    have "0 < threads (wn_config n2)"
      using up(5) by (auto simp: WorkerNode_startConsumers_def ThreadPool_start_def ThreadPool_new_def split: if_splits prod.splits)
    then show ?thesis using startConsumers_up [OF up(5)] startHeartbeat_up [OF up(7)] by auto
  qed simp
  then show ?thesis
    using inv started_fields(2) [OF assms]
    by (simp add: right_node_def node_tasks_def node_started_def WorkerNode.defs TaskQueue_new_def)
qed

section \<open>Every step keeps it\<close>

lemma platform_inv_node: "platform_inv P \<Longrightarrow> right_node (pf_cut P) (pf_store P) n \<Longrightarrow> platform_inv (set_node addr n P)"
  by (simp add: platform_inv_def set_node_def)

lemma platform_inv_lines: "platform_inv P \<Longrightarrow> platform_inv (P\<lparr>pf_lines := pf_lines P - M\<rparr>)"
  unfolding platform_inv_def by (auto dest: in_diffD)

lemma platform_inv_nodeD: "platform_inv P \<Longrightarrow> pf_nodes P addr = Some n \<Longrightarrow> right_node (pf_cut P) (pf_store P) n"
  by (simp add: platform_inv_def)

lemma snapshot_right:
  assumes "store_ok st" "a \<in> set (snapshotAssignments st)"
  shows "right_item st a"
  using assigned_task [OF assms] unfolding right_item_def by force

lemma platform_inv_sent:
  assumes "platform_inv P" "pf_cut P \<subseteq> lost" "right_line lost (pf_store P) wire"
  shows "platform_inv (P\<lparr>pf_lines := add_mset (addr, wire) (pf_lines P), pf_cut := lost\<rparr>)"
proof -
  have "right_result lost ident t" if "right_result (pf_cut P) ident t" for ident t
    using that assms(2) unfolding right_result_def by blast
  then show ?thesis
    using assms(1,3) right_line_grows [OF _ grows_refl assms(2)] right_node_grows [OF _ grows_refl assms(2)]
      right_request_grows [OF _ grows_refl assms(2)]
    unfolding platform_inv_def by simp blast
qed

lemma deliver_next_inv:
  assumes "platform_inv P"
  shows "platform_inv (deliver_next outcome P)"
proof (cases "pf_batch P")
  case (Cons item rest)
  have item: "right_item (pf_store P) item" and P: "platform_inv (P\<lparr>pf_batch := rest\<rparr>)"
    using assms Cons by (auto simp: platform_inv_def)
  show ?thesis
  proof (cases "snd (deliver outcome item)")
    case None
    then show ?thesis using P Cons by (simp add: deliver_next_def prod.case_eq_if)
  next
    case (Some wire)
    define lost where "lost = (if wire = assignment_line item then pf_cut P else insert (as_TaskID item) (pf_cut P))"
    have eq: "deliver_next outcome P =
        P\<lparr>pf_batch := rest, pf_lines := add_mset (as_Address item, wire) (pf_lines P), pf_cut := lost\<rparr>"
      using Some Cons by (simp add: deliver_next_def prod.case_eq_if lost_def)
    obtain n where n: "wire = take n (assignment_line item)"
      using Some by (cases outcome) (auto simp: deliver_def intro: take_all [symmetric])
    have "as_TaskID item \<in> lost" if "n < length (assignment_line item)"
    proof -
      have "length wire \<noteq> length (assignment_line item)" using n that by simp
      then show ?thesis by (auto simp: lost_def)
    qed
    then have "right_line lost (pf_store P) wire" using item n unfolding right_line_def by blast
    moreover have "pf_cut P \<subseteq> lost" by (auto simp: lost_def)
    ultimately show ?thesis using platform_inv_sent [OF P, of lost wire "as_Address item"] eq by simp
  qed
qed (use assms in \<open>simp add: deliver_next_def\<close>)

lemma accepted_job:
  assumes "store_ok st" "right_line lost st wire" "client_sends wire rs" "handleClient rs = Some (Some task)"
  shows "right_job lost st task"
proof -
  obtain a n t where a: "wire = take n (assignment_line a)" "n < length (assignment_line a) \<Longrightarrow> as_TaskID a \<in> lost"
    "map_of (Tasks st) (as_TaskID a) = Some t" "t_Status t \<noteq> TaskPending" "t_PayloadRef t = as_Payload a"
    using assms(2) by (auto simp: right_line_def right_item_def)
  note ident = task_id_segment [OF assms(1) a(3)]
  have nonempty: "as_TaskID a \<noteq> []" using ident(2) by simp
  note task = handleClient_cut [OF nonempty ident(3,4) assms(3) [unfolded a(1) assignment_line_def] assms(4)]
  have "as_TaskID a \<notin> lost \<Longrightarrow> length (as_TaskID a) + length (as_Payload a) < n"
    using a(2) by (force simp: assignment_line_def)
  then show ?thesis using a(3-5) task unfolding right_job_def by auto
qed

text \<open>A node that is told a right job, or to stop.\<close>

lemma right_node_task:
  assumes "right_node lost st n" "nr_accept n = Accepting" "right_job lost st task"
  shows "right_node lost st (n\<lparr>nr_accept := Handling task\<rparr>)"
  using assms node_tasks_accept [of task n] node_step_inv [OF node_step.task [OF assms(2), of task]]
  unfolding right_node_def by auto

lemma right_node_stop:
  assumes "right_node lost st n" "nr_stop n = Not_Stopping"
  shows "right_node lost st (stop_flag n)"
  using assms node_step_inv [OF node_step.stop [OF assms(2)]] by (simp add: right_node_def node_tasks_def stop_flag_def)

lemma platform_inv_block:
  assumes "platform_inv P" "Suc (length (Tasks (pf_store P))) < 2 ^ 64" "\<not> is_completion b"
  shows "platform_inv (P\<lparr>pf_store := run_block s b (pf_store P)\<rparr>)"
proof -
  have ok: "store_ok (pf_store P)" using assms(1) by (simp add: platform_inv_def)
  have "right_result (pf_cut P) ident t" if "map_of (Tasks (run_block s b (pf_store P))) ident = Some t" for ident t
    using block_finishes_nothing [OF ok assms(3) that] assms(1) unfolding platform_inv_def right_result_def by metis
  then have "platform_inv (P\<lparr>pf_store := run_block s b (pf_store P), pf_requests := pf_requests P\<rparr>)"
    using run_block_ok(1) [OF ok assms(2)] run_block_grows [OF ok assms(2)] by (intro platform_inv_store [OF assms(1)]) auto
  then show ?thesis by simp
qed

lemma platform_inv_report:
  assumes "platform_inv P" "Suc (length (Tasks (pf_store P))) < 2 ^ 64" "request \<in># pf_requests P"
  shows "platform_inv (P\<lparr>pf_store := report_block s now request (pf_store P), pf_requests := pf_requests P - {#request#}\<rparr>)"
proof -
  have ok: "store_ok (pf_store P)" and request: "right_request (pf_cut P) (pf_store P) request"
    and results: "\<And>ident t. map_of (Tasks (pf_store P)) ident = Some t \<Longrightarrow> right_result (pf_cut P) ident t"
    using assms(1,3) by (auto simp: platform_inv_def)
  show ?thesis
    by (rule platform_inv_store [OF assms(1) report_block_ok(1,2) [OF ok assms(2)] diff_subset_eq_self])
      (rule report_block_results [OF ok request results])
qed

lemma posted_right:
  assumes "right_node lost st n" "i < length (nr_consumers n)" "nr_consumers n ! i = Reporting r task"
  shows "right_request lost st (report_request r)"
proof -
  have mem: "Reporting r task \<in> set (nr_consumers n)" using assms(2,3) by (metis nth_mem)
  then have "task \<in> node_tasks n" by (force simp: node_tasks_def)
  then have "right_job lost st task" using assms(1) by (simp add: right_node_def)
  moreover have "r = Executor_execute task" using assms(1) mem by (simp add: right_node_def node_inv_def results_inv_def)
  ultimately show ?thesis unfolding right_request_def by blast
qed

lemma set_node_fields [simp]:
  "pf_store (set_node addr n P) = pf_store P" "pf_batch (set_node addr n P) = pf_batch P" "pf_lines (set_node addr n P) = pf_lines P"
  "pf_nodes (set_node addr n P) = (pf_nodes P)(addr \<mapsto> n)" "pf_requests (set_node addr n P) = pf_requests P"
  "pf_cut (set_node addr n P) = pf_cut P"
  by (simp_all add: set_node_def)

lemma platform_step_inv:
  assumes "platform_step s P P'" "platform_inv P" "Suc (length (Tasks (pf_store P))) < 2 ^ 64"
  shows "platform_inv P' \<and> length (Tasks (pf_store P')) \<le> Suc (length (Tasks (pf_store P)))"
  using assms(1)
proof (cases rule: platform_step.cases)
  case (block b)
  have "store_ok (pf_store P)" using assms(2) by (simp add: platform_inv_def)
  then show ?thesis using block(1) platform_inv_block [OF assms(2,3) block(2)] run_block_ok(2) [OF _ assms(3)] by simp
next
  case pass
  then show ?thesis using assms(2) snapshot_right by (auto simp: platform_inv_def)
next
  case (send outcome)
  moreover have "pf_store (deliver_next outcome P) = pf_store P"
    by (simp add: deliver_next_def split: list.splits prod.splits option.splits)
  ultimately show ?thesis using deliver_next_inv [OF assms(2)] by simp
next
  case (accept addr wire n rs task)
  have "store_ok (pf_store P)" "right_line (pf_cut P) (pf_store P) wire" using assms(2) accept(2) by (auto simp: platform_inv_def)
  from right_node_task [OF platform_inv_nodeD [OF assms(2) accept(3)] accept(4) accepted_job [OF this accept(5,6)]]
  show ?thesis using accept(1) platform_inv_node [OF platform_inv_lines [OF assms(2)]] by simp
next
  case (no_task addr wire n rs)
  then show ?thesis using platform_inv_lines [OF assms(2)] by simp
next
  case (node addr n n')
  then show ?thesis using platform_inv_node [OF assms(2) right_node_own [OF platform_inv_nodeD [OF assms(2) node(2)] node(3)]] by simp
next
  case (stop addr n)
  then show ?thesis using platform_inv_node [OF assms(2) right_node_stop [OF platform_inv_nodeD [OF assms(2) stop(2)] stop(3)]] by simp
next
  case (post addr n i r task)
  then show ?thesis using assms(2) posted_right [OF platform_inv_nodeD [OF assms(2) post(2)] post(3,4)] by (simp add: platform_inv_def)
next
  case (handle request now)
  have "store_ok (pf_store P)" using assms(2) by (simp add: platform_inv_def)
  then show ?thesis using handle(1) platform_inv_report [OF assms(2,3) handle(2)] report_block_ok(3) [OF _ assms(3)] by simp
next
  case (up addr env config_path n)
  then show ?thesis using platform_inv_node [OF assms(2) right_node_started [OF up(3)]] by simp
next
  case (crash addr)
  then show ?thesis using assms(2) by (simp add: platform_inv_def)
qed

text \<open>No run is long enough to exhaust the 64-bit task numbers in less than \<open>2\<^sup>6\<^sup>4\<close> steps.\<close>

lemma platform_run_inv:
  assumes "platform_run s n P" "n < 2 ^ 64"
  shows "platform_inv P \<and> length (Tasks (pf_store P)) \<le> n"
  using assms
proof (induction n arbitrary: P)
  case 0
  then have "P = platform_new" by (simp add: platform_run_def)
  then show ?case using store_ok_new by (simp add: platform_new_def platform_inv_def) (simp add: NewMemoryStore_def)
next
  case (Suc n)
  then obtain Q where Q: "platform_run s n Q" "platform_step s Q P" by (auto simp: platform_run_def)
  then have "platform_inv Q" "length (Tasks (pf_store Q)) \<le> n" using Suc by simp_all
  then show ?case using platform_step_inv [OF Q(2)] Suc.prems(2) by fastforce
qed

section \<open>From the wire to the result\<close>

lemma steps_Suc: "platform_step s P Q \<Longrightarrow> (platform_step s ^^ n) Q R \<Longrightarrow> (platform_step s ^^ Suc n) P R"
  by (rule relpowp_Suc_I2)

text \<open>What an idle worker does with a task it has just read.\<close>

lemma idle_node_takes:
  assumes "node_inv n" "node_idle n" "nr_consumers n \<noteq> []"
  obtains n2 n3 n4 n5 n6 where "own_step (n\<lparr>nr_accept := Handling task\<rparr>) n2" "own_step n2 n3" "own_step n3 n4" "own_step n4 n5" "own_step n5 n6"
    "0 < length (nr_consumers n6)" "nr_consumers n5 ! 0 = Executing task" "nr_consumers n6 ! 0 = Reporting (Executor_execute task) task"
proof -
  have n: "nr_stop n = Not_Stopping" "tq_queue (wn_queue n) = []" "nr_consumers n ! 0 = Popping" "0 < length (nr_consumers n)"
    using assms(2,3) by (simp_all add: node_idle_def list_all_length)
  have run: "wn_running n" "\<not> tq_stopped (wn_queue n)" using assms(1) n(1) by (auto simp: node_inv_def stage_inv_def)
  have active: "task_id task \<notin> wn_active n" using idle_active [OF assms(1,2)] by simp
  define n2 where "n2 = n\<lparr>nr_accept := Inserting task\<rparr>"
  define n3 where "n3 = n2\<lparr>wn_active := insert (task_id task) (wn_active n), nr_accept := Pushing task\<rparr>"
  define n4 where "n4 = n3\<lparr>wn_queue := (wn_queue n)\<lparr>tq_queue := [task]\<rparr>, nr_accept := Accepting, nr_pushed := nr_pushed n @ [task]\<rparr>"
  define n5 where "n5 = n4\<lparr>wn_queue := (wn_queue n)\<lparr>tq_queue := []\<rparr>, nr_consumers := (nr_consumers n)[0 := Executing task],
    nr_popped := nr_popped n @ [task]\<rparr>"
  have "own_step (n\<lparr>nr_accept := Handling task\<rparr>) n2"
    using own_step.check [of "n\<lparr>nr_accept := Handling task\<rparr>" task] run by (simp add: handler_check_def n2_def)
  moreover have "own_step n2 n3"
    using own_step.ins [of n2 task] active by (simp add: handler_insert_def enqueue_insert_def n3_def n2_def)
  moreover have "own_step n3 n4"
    using own_step.push [of n3 task] run(2) n(1,2)
    by (simp add: handler_push_def enqueue_push_def TaskQueue_push_def accept_next_def serving_def n4_def n3_def n2_def)
  moreover have "own_step n4 n5"
    using run(2) n(3,4) own_step.pop [of 0 n4 n5]
    by (simp add: consumer_pop_def TaskQueue_waitPop_def n5_def n4_def n3_def n2_def)
  moreover have "own_step n5 (consumer_execute 0 task n5)" using n(4) own_step.execute [of 0 n5 task] by (simp add: n5_def)
  ultimately show thesis by (rule that) (use n(4) in \<open>simp_all add: consumer_execute_def n5_def\<close>)
qed

text \<open>A line at an idle worker becomes a completed task in eight steps.\<close>

lemma wire_completes:
  assumes "(addr, wire) \<in># pf_lines P" "pf_nodes P addr = Some n" "node_inv n" "node_idle n" "nr_consumers n \<noteq> []"
    "client_sends wire rs" "handleClient rs = Some (Some task)" "store_ok (pf_store P)"
    "map_of (Tasks (pf_store P)) (task_id task) = Some t" "text_ok (task_prompt task)"
  obtains P' where "(platform_step s ^^ 8) P P'" "pf_cut P' = pf_cut P"
    "map_of (Tasks (pf_store P')) (task_id task) =
       Some (t\<lparr>t_CompletedAt := Some now, t_Message := result_output (Executor_execute task), t_Status := TaskCompleted\<rparr>)"
proof -
  let ?r = "report_request (Executor_execute task)"
  obtain n2 n3 n4 n5 n6 where own: "own_step (n\<lparr>nr_accept := Handling task\<rparr>) n2" "own_step n2 n3" "own_step n3 n4" "own_step n4 n5"
    "own_step n5 n6" and len: "0 < length (nr_consumers n6)" and c: "nr_consumers n5 ! 0 = Executing task"
    "nr_consumers n6 ! 0 = Reporting (Executor_execute task) task"
    using idle_node_takes [OF assms(3-5), of task] by blast
  define P1 where "P1 = set_node addr (n\<lparr>nr_accept := Handling task\<rparr>) (P\<lparr>pf_lines := pf_lines P - {#(addr, wire)#}\<rparr>)"
  define P2 where "P2 = set_node addr n2 P1"
  define P3 where "P3 = set_node addr n3 P2"
  define P4 where "P4 = set_node addr n4 P3"
  define P5 where "P5 = set_node addr n5 P4"
  define P6 where "P6 = set_node addr n6 P5"
  define P7 where "P7 = P6\<lparr>pf_posted := insert (addr, 0) (pf_posted P6), pf_requests := add_mset ?r (pf_requests P6)\<rparr>"
  define P8 where "P8 = P7\<lparr>pf_store := report_block s now ?r (pf_store P7), pf_requests := pf_requests P7 - {#?r#}\<rparr>"
  have fields: "pf_store P7 = pf_store P" "pf_cut P7 = pf_cut P" "pf_nodes P6 addr = Some n6"
    by (simp_all add: P7_def P6_def P5_def P4_def P3_def P2_def P1_def)
  have "(addr, 0) \<notin> pf_posted P6" using c(1) by (simp add: P6_def P5_def set_node_def)
  then have s7: "platform_step s P6 P7" unfolding P7_def by (rule platform_step.post [OF fields(3) len c(2)])
  have s8: "platform_step s P7 P8" unfolding P8_def by (rule platform_step.handle) (simp add: P7_def)
  have s1: "platform_step s P P1"
    unfolding P1_def by (rule platform_step.accept [OF assms(1,2) _ assms(6,7)]) (use assms(4) in \<open>simp add: node_idle_def\<close>)
  have s2: "platform_step s P1 P2" unfolding P2_def by (rule platform_step.node [OF _ own(1)]) (simp add: P1_def)
  have s3: "platform_step s P2 P3" unfolding P3_def by (rule platform_step.node [OF _ own(2)]) (simp add: P2_def)
  have s4: "platform_step s P3 P4" unfolding P4_def by (rule platform_step.node [OF _ own(3)]) (simp add: P3_def)
  have s5: "platform_step s P4 P5" unfolding P5_def by (rule platform_step.node [OF _ own(4)]) (simp add: P4_def)
  have s6: "platform_step s P5 P6" unfolding P6_def by (rule platform_step.node [OF _ own(5)]) (simp add: P5_def)
  have "(platform_step s ^^ 8) P P8"
    using steps_Suc [OF s1 steps_Suc [OF s2 steps_Suc [OF s3 steps_Suc [OF s4 steps_Suc [OF s5 steps_Suc [OF s6 steps_Suc [OF s7
            steps_Suc [OF s8 relpowp_0_I]]]]]]]]
    by (simp add: eval_nat_numeral)
  moreover have "map_of (Tasks (pf_store P8)) (task_id task) =
      Some (t\<lparr>t_CompletedAt := Some now, t_Message := result_output (Executor_execute task), t_Status := TaskCompleted\<rparr>)"
    using report_block_eq [OF assms(8,9), of s now] decode_processed [OF assms(10)] complete_block_tasks [OF assms(8,9)] fields(1)
    by (simp add: P8_def complete_processed del: run_block.simps)
  ultimately show thesis using fields(2) by (intro that [of P8]) (simp_all add: P8_def)
qed

lemma send_completes:
  assumes "platform_inv P" "pf_batch P = a # rest" "deliver outcome a = (ok, Some wire)"
    "pf_nodes P (as_Address a) = Some n" "node_idle n"
    "client_sends wire rs" "handleClient rs = Some (Some \<lparr>task_id = as_TaskID a, task_prompt = prompt\<rparr>)" "text_ok prompt"
  obtains P' t where "(platform_step s ^^ 9) P P'" "map_of (Tasks (pf_store P')) (as_TaskID a) = Some t" "t_Status t = TaskCompleted"
    "t_Message t = ''processed: '' @ prompt" "t_PayloadRef t = as_Payload a"
    "pf_cut P' = (if wire = assignment_line a then pf_cut P else insert (as_TaskID a) (pf_cut P))"
proof -
  let ?task = "\<lparr>task_id = as_TaskID a, task_prompt = prompt\<rparr>"
  obtain t where t: "map_of (Tasks (pf_store P)) (task_id ?task) = Some t" "t_PayloadRef t = as_Payload a"
    using assms(1,2) by (auto simp: platform_inv_def right_item_def)
  have ok: "store_ok (pf_store P)" "node_inv n" "nr_consumers n \<noteq> []"
    using assms(1) platform_inv_nodeD [OF assms(1,4)] by (simp_all add: platform_inv_def right_node_def)
  define P1 where "P1 = deliver_next outcome P"
  have P1: "pf_lines P1 = add_mset (as_Address a, wire) (pf_lines P)" "pf_store P1 = pf_store P" "pf_nodes P1 = pf_nodes P"
    "pf_cut P1 = (if wire = assignment_line a then pf_cut P else insert (as_TaskID a) (pf_cut P))"
    by (simp_all add: P1_def deliver_next_def assms(2,3))
  have mem: "(as_Address a, wire) \<in># pf_lines P1" and node: "pf_nodes P1 (as_Address a) = Some n" and store: "store_ok (pf_store P1)"
    and task: "map_of (Tasks (pf_store P1)) (task_id ?task) = Some t" and valid: "text_ok (task_prompt ?task)"
    using P1 ok(1) assms(4,8) t(1) by simp_all
  have "platform_step s P P1" unfolding P1_def by (rule platform_step.send) (simp add: assms(2))
  moreover obtain P' where P': "(platform_step s ^^ 8) P1 P'" "pf_cut P' = pf_cut P1" "map_of (Tasks (pf_store P')) (task_id ?task) =
      Some (t\<lparr>t_CompletedAt := Some 0, t_Message := result_output (Executor_execute ?task), t_Status := TaskCompleted\<rparr>)"
    by (rule wire_completes [OF mem node ok(2) assms(5) ok(3) assms(6,7) store task valid])
  ultimately have "(platform_step s ^^ 9) P P'" using steps_Suc [of s P P1 8 P'] by simp
  moreover have "map_of (Tasks (pf_store P')) (as_TaskID a) =
      Some (t\<lparr>t_CompletedAt := Some 0, t_Message := ''processed: '' @ prompt, t_Status := TaskCompleted\<rparr>)"
    using P'(3) by (simp add: Executor_execute_eq)
  ultimately show thesis by (rule that) (use P'(2) t(2) P1(4) in simp_all)
qed

section \<open>Reaching an idle worker and the right item\<close>

lemma node_steps:
  assumes "(own_step ^^ k) n n'" "platform_inv P" "pf_nodes P addr = Some n"
  shows "\<exists>P'. (platform_step s ^^ k) P P' \<and> platform_inv P' \<and> pf_nodes P' addr = Some n' \<and> pf_store P' = pf_store P \<and>
    pf_batch P' = pf_batch P \<and> pf_cut P' = pf_cut P"
  using assms
proof (induction k arbitrary: n')
  case (Suc k)
  then obtain y where y: "(own_step ^^ k) n y" "own_step y n'" by auto
  then obtain P' where P': "(platform_step s ^^ k) P P'" "platform_inv P'" "pf_nodes P' addr = Some y" "pf_store P' = pf_store P"
    "pf_batch P' = pf_batch P" "pf_cut P' = pf_cut P" using Suc by blast
  have "platform_step s P' (set_node addr n' P')" by (rule platform_step.node [OF P'(3) y(2)])
  moreover have "platform_inv (set_node addr n' P')"
    by (rule platform_inv_node [OF P'(2) right_node_own [OF platform_inv_nodeD [OF P'(2,3)] y(2)]])
  ultimately show ?case using P' by (intro exI [of _ "set_node addr n' P'"]) auto
qed auto

lemma worker_goes_idle:
  assumes "platform_inv P" "pf_nodes P addr = Some n" "nr_stop n = Not_Stopping"
  obtains P' n' where "(platform_step s)\<^sup>*\<^sup>* P P'" "platform_inv P'" "pf_nodes P' addr = Some n'" "node_idle n'"
    "pf_store P' = pf_store P" "pf_batch P' = pf_batch P"
proof -
  have "node_inv n" "nr_consumers n \<noteq> []" using platform_inv_nodeD [OF assms(1,2)] by (simp_all add: right_node_def)
  then obtain n' where n': "own_step\<^sup>*\<^sup>* n n'" "node_idle n'" using node_goes_idle assms(3) by metis
  then obtain k where "(own_step ^^ k) n n'" using rtranclp_imp_relpowp by metis
  from node_steps [OF this assms(1,2)] obtain P' where "(platform_step s ^^ k) P P'" "platform_inv P'" "pf_nodes P' addr = Some n'"
    "pf_store P' = pf_store P" "pf_batch P' = pf_batch P" by blast
  then show thesis using that n'(2) relpowp_imp_rtranclp by metis
qed

lemma skip_items:
  assumes "pf_batch P = xs @ ys"
  shows "(platform_step s)\<^sup>*\<^sup>* P (P\<lparr>pf_batch := ys\<rparr>)"
  using assms
proof (induction xs arbitrary: P)
  case (Cons x xs)
  have "deliver_next DialError P = P\<lparr>pf_batch := xs @ ys\<rparr>" using Cons.prems by (simp add: deliver_next_def deliver_def)
  then have "platform_step s P (P\<lparr>pf_batch := xs @ ys\<rparr>)" using platform_step.send [of P s DialError] Cons.prems by simp
  moreover have "(platform_step s)\<^sup>*\<^sup>* (P\<lparr>pf_batch := xs @ ys\<rparr>) (P\<lparr>pf_batch := ys\<rparr>)"
    using Cons.IH [of "P\<lparr>pf_batch := xs @ ys\<rparr>"] by simp
  ultimately show ?case by (rule converse_rtranclp_into_rtranclp)
next
  case Nil
  then have "P\<lparr>pf_batch := ys\<rparr> = P" by simp
  then show ?case by simp
qed

text \<open>The deliverer can get to any item of a new snapshot.\<close>

lemma item_comes:
  assumes "platform_inv P" "a \<in> set (snapshotAssignments (pf_store P))"
  obtains P' rest where "(platform_step s)\<^sup>*\<^sup>* P P'" "platform_inv P'" "pf_batch P' = a # rest" "pf_nodes P' = pf_nodes P"
proof -
  let ?items = "snapshotAssignments (pf_store P)"
  obtain xs rest where items: "?items = xs @ a # rest" using assms(2) by (auto simp: in_set_conv_decomp)
  have "(platform_step s)\<^sup>*\<^sup>* P (P\<lparr>pf_batch := []\<rparr>)" by (rule skip_items [where xs = "pf_batch P"]) simp
  moreover have "platform_step s (P\<lparr>pf_batch := []\<rparr>) (P\<lparr>pf_batch := ?items\<rparr>)"
    using platform_step.pass [of "P\<lparr>pf_batch := []\<rparr>" s] by simp
  moreover have "(platform_step s)\<^sup>*\<^sup>* (P\<lparr>pf_batch := ?items\<rparr>) (P\<lparr>pf_batch := a # rest\<rparr>)"
    using skip_items [of "P\<lparr>pf_batch := ?items\<rparr>" xs "a # rest"] items by simp
  ultimately have "(platform_step s)\<^sup>*\<^sup>* P (P\<lparr>pf_batch := a # rest\<rparr>)" by (meson rtranclp.rtrancl_into_rtrancl rtranclp_trans)
  moreover have "store_ok (pf_store P)" using assms(1) by (simp add: platform_inv_def)
  then have "\<forall>b \<in> set (a # rest). right_item (pf_store P) b" using snapshot_right items by auto
  then have "platform_inv (P\<lparr>pf_batch := a # rest\<rparr>)" using assms(1) unfolding platform_inv_def by simp
  ultimately show thesis by (rule that) simp_all
qed

lemma client_sends_whole: "wire \<noteq> [] \<Longrightarrow> client_sends wire [RecvBytes wire]"
  "wire \<noteq> [] \<Longrightarrow> client_sends wire [RecvBytes wire, RecvBytes []]"
  by (simp_all add: starts_with_conv)

text \<open>A line that ends with the connection is read like one that ends with a line feed.\<close>

lemma handleClient_closed:
  assumes "ident \<noteq> []" "CHR ''|'' \<notin> set ident" "NL \<notin> set ident" "line_safe prompt"
  shows "handleClient [RecvBytes (ident @ ''|'' @ prompt), RecvBytes []] = Some (Some \<lparr>task_id = ident, task_prompt = prompt\<rparr>)"
proof -
  have "find_char NL (ident @ ''|'' @ prompt) = None" using assms(3,4) by (simp add: find_char_None line_safe_def)
  then show ?thesis
    using parse_task_line [OF assms(1,2), of prompt] assms(4) by (auto simp: handleClient_def line_safe_def)
qed

section \<open>Properties\<close>

text \<open>
  C1. Results are right, end to end: however the calls of the scheduler, the deliverer's connections and the threads of the workers interleave, and
  whatever is lost, sent again, reported twice or late, stopped, crashed and restarted on the way, a task that is finished was completed
  with the executor's output for exactly the payload it was submitted with. Excepted are payloads that a line or the report can
  not carry (a line feed, a carriage return at the end, control characters, invalid UTF-8) and tasks one of whose lines was cut.
\<close>

theorem results_are_right:
  assumes "platform_run s n P" "n < 2 ^ 64" "map_of (Tasks (pf_store P)) ident = Some t" "t_Status t \<in> {TaskCompleted, TaskFailed}"
    "payload_ok (t_PayloadRef t)" "ident \<notin> pf_cut P"
  shows "t_Status t = TaskCompleted \<and> t_Message t = result_output (Executor_execute \<lparr>task_id = ident, task_prompt = t_PayloadRef t\<rparr>)"
  using platform_run_inv [OF assms(1,2)] assms(3-6) unfolding platform_inv_def right_result_def by blast



section \<open>Examples\<close>

text \<open>A run: a worker registers, a task is submitted and dispatched, the worker's process is up and waits, the deliverer has the task in hand.\<close>

lemma blocks_run:
  "list_all (\<lambda>b. \<not> is_completion b) bs \<Longrightarrow> (platform_step s ^^ length bs) P (P\<lparr>pf_store := run_blocks s bs (pf_store P)\<rparr>)"
proof (induction bs arbitrary: P)
  case (Cons b bs)
  have "platform_step s P (P\<lparr>pf_store := run_block s b (pf_store P)\<rparr>)" using Cons.prems by (intro platform_step.block) simp
  moreover have "(platform_step s ^^ length bs) (P\<lparr>pf_store := run_block s b (pf_store P)\<rparr>) (P\<lparr>pf_store := run_blocks s (b # bs) (pf_store P)\<rparr>)"
    using Cons.IH [of "P\<lparr>pf_store := run_block s b (pf_store P)\<rparr>"] Cons.prems by (simp add: run_blocks_def)
  ultimately have "(platform_step s ^^ Suc (length bs)) P (P\<lparr>pf_store := run_blocks s (b # bs) (pf_store P)\<rparr>)" by (rule steps_Suc)
  then show ?case by simp
qed (simp add: run_blocks_def)

lemma heads_pop:
  "k \<le> m \<Longrightarrow> wn_running n \<Longrightarrow> nr_consumers n = replicate m At_Head \<Longrightarrow>
   (own_step ^^ k) n (n\<lparr>nr_consumers := replicate k Popping @ replicate (m - k) At_Head\<rparr>)"
proof (induction k)
  case (Suc k)
  let ?n = "n\<lparr>nr_consumers := replicate k Popping @ replicate (m - k) At_Head\<rparr>"
  have "replicate (m - k) At_Head = At_Head # replicate (m - Suc k) At_Head" using Suc.prems(1) by (metis Suc_diff_Suc Suc_le_lessD replicate_Suc)
  then have cs: "nr_consumers ?n = replicate k Popping @ At_Head # replicate (m - Suc k) At_Head" by simp
  have "own_step ?n (consumer_head k ?n)" by (rule own_step.head) (simp_all add: cs nth_append)
  moreover have "consumer_head k ?n = n\<lparr>nr_consumers := replicate (Suc k) Popping @ replicate (m - Suc k) At_Head\<rparr>"
    using Suc.prems(2) unfolding consumer_head_def cs by (simp add: list_update_append replicate_append_same)
  ultimately show ?case using Suc by auto
next
  case 0
  then have "n\<lparr>nr_consumers := replicate 0 Popping @ replicate (m - 0) At_Head\<rparr> = n" by simp
  then show ?case by simp
qed

lemma sample_platform:
  obtains P node where "platform_run sample_scheduler 9 P" "pf_store P = round_store" "pf_batch P = [round_assignment]"
    "pf_nodes P ''w:9'' = Some node" "node_idle node" "pf_cut P = {}"
proof -
  obtain n where n: "WorkerNode_start sample_env (WorkerNode_new ''config/worker.yaml'') = Some (True, n)" "wn_config n = WorkerConfig_default"
    using sample_start [of "WorkerNode_new ''config/worker.yaml''"] by (auto simp: WorkerNode_new_def)
  let ?P3 = "platform_new\<lparr>pf_store := round_store\<rparr>"
  let ?P4 = "set_node ''w:9'' (node_started n) ?P3"
  let ?idle = "(node_started n)\<lparr>nr_consumers := replicate 4 Popping\<rparr>"
  have bs: "list_all (\<lambda>b. \<not> is_completion b) sample_blocks" "length sample_blocks = 3"
    "run_blocks sample_scheduler sample_blocks (pf_store platform_new) = round_store"
    by (simp_all add: sample_blocks_def) (simp add: platform_new_def round_store_def sample_blocks_def)
  have "(platform_step sample_scheduler ^^ 3) platform_new ?P3"
    using blocks_run [OF bs(1), of sample_scheduler platform_new] unfolding bs(2,3) .
  moreover have "platform_step sample_scheduler ?P3 ?P4" by (rule platform_step.up [OF _ n(1)]) (simp add: platform_new_def)
  ultimately have r4: "platform_run sample_scheduler 4 ?P4" unfolding platform_run_def by (auto simp: eval_nat_numeral)
  then have inv: "platform_inv ?P4" using platform_run_inv by simp
  have "nr_consumers (node_started n) = replicate 4 At_Head" "wn_running (node_started n)"
    using n(2) started_fields(1) [OF n(1)] by (simp_all add: node_started_def WorkerNode.defs WorkerConfig_default_def)
  then have "(own_step ^^ 4) (node_started n) ?idle" using heads_pop [of 4 4 "node_started n"] by simp
  from node_steps [OF this inv, of "''w:9''" sample_scheduler] obtain P where P: "(platform_step sample_scheduler ^^ 4) ?P4 P"
    "pf_nodes P ''w:9'' = Some ?idle" "pf_store P = round_store" "pf_batch P = []" "pf_cut P = {}"
    by (auto simp: platform_new_def)
  have batch: "snapshotAssignments round_store = [round_assignment]" by code_simp
  have "platform_step sample_scheduler P (P\<lparr>pf_batch := [round_assignment]\<rparr>)"
    using platform_step.pass [OF P(4), of sample_scheduler] P(3) batch by simp
  then have "(platform_step sample_scheduler ^^ (4 + 4 + 1)) platform_new (P\<lparr>pf_batch := [round_assignment]\<rparr>)"
    using r4 P(1) unfolding platform_run_def relpowp_add by auto
  moreover have "node_idle ?idle"
    using started_fields(2) [OF n(1)] by (simp add: node_idle_def node_started_def WorkerNode.defs TaskQueue_new_def list_all_iff)
  ultimately show thesis using P(2,3,5) by (intro that [of "P\<lparr>pf_batch := [round_assignment]\<rparr>"]) (simp_all add: platform_run_def)
qed

lemma round_payload: "payload_ok (as_Payload round_assignment)" "payload_ok []"
  by (simp_all add: payload_ok_def line_safe_def text_ok_if plain_ascii_def round_assignment_def)

theorem results_are_right_witness:
  "\<exists>P t. platform_run sample_scheduler 18 P \<and> map_of (Tasks (pf_store P)) ''task-000001'' = Some t \<and> t_PayloadRef t = ''x'' \<and>
     t_Status t = TaskCompleted \<and> t_Message t = ''processed: x''"
proof -
  obtain P node where P: "platform_run sample_scheduler 9 P" "pf_batch P = [round_assignment]" "pf_nodes P ''w:9'' = Some node" "node_idle node"
    "pf_cut P = {}" using sample_platform .
  let ?line = "assignment_line round_assignment"
  have line: "?line = ''task-000001|x'' @ [NL]" "as_TaskID round_assignment = ''task-000001''" "as_Payload round_assignment = ''x''"
    by (simp_all add: assignment_line_def round_assignment_def)
  have inv: "platform_inv P" using platform_run_inv [OF P(1)] by simp
  have node: "pf_nodes P (as_Address round_assignment) = Some node" using P(3) by (simp add: round_assignment_def)
  have wire: "deliver Written round_assignment = (True, Some ?line)" by (simp add: deliver_def)
  have sends: "client_sends ?line [RecvBytes ?line]" by (rule client_sends_whole) (simp add: line(1))
  have read: "handleClient [RecvBytes ?line] = Some (Some \<lparr>task_id = as_TaskID round_assignment, task_prompt = ''x''\<rparr>)"
    unfolding line by code_simp
  have valid: "text_ok ''x''" by (simp add: text_ok_if plain_ascii_def)
  obtain P' t where P': "(platform_step sample_scheduler ^^ 9) P P'" "map_of (Tasks (pf_store P')) ''task-000001'' = Some t"
    "t_Status t = TaskCompleted" "t_PayloadRef t = ''x''" "pf_cut P' = {}"
    by (rule send_completes [OF inv P(2) wire node P(4) sends read valid, of sample_scheduler]) (simp add: line(2,3) P(5))
  have "(platform_step sample_scheduler ^^ (9 + 9)) platform_new P'" using P(1) P'(1) unfolding platform_run_def relpowp_add by blast
  then have run: "platform_run sample_scheduler 18 P'" by (simp add: platform_run_def)
  have "payload_ok (t_PayloadRef t)" using round_payload(1) P'(4) by (simp add: round_assignment_def)
  from results_are_right [OF run _ P'(2) _ this] have "t_Message t = ''processed: x''"
    using P'(3-5) by (simp add: Executor_execute_eq)
  then show ?thesis using run P'(2-4) by blast
qed



end
