(* ===== verification/Sched_Grpc.thy ===== *)
theory Sched_Grpc
  imports Sched_Service
begin

text \<open>
  The gRPC interface of the scheduler (\<open>scheduler/internal/grpcapi/server.go\<close>). The message types are generated from the
  protocol files; here they are records of the fields the server reads and writes, an absent message is \<open>None\<close>, and a
  timestamp is a time. Texts of errors are left out.
\<close>

section \<open>Messages\<close>

datatype ProtoNodeState = NODE_STATE_UNSPECIFIED | NODE_STATE_READY | NODE_STATE_BUSY | NODE_STATE_OFFLINE

datatype ProtoTaskState = TASK_STATE_UNSPECIFIED | TASK_STATE_PENDING | TASK_STATE_RUNNING | TASK_STATE_COMPLETED | TASK_STATE_FAILED

datatype TaskInput = Prompt string | PayloadRef string | InlineBytes string

text \<open>The input is \<open>None\<close> when the message or its source is missing.\<close>

record ProtoTaskSpec =
  ps_Model :: string
  ps_Operation :: string
  ps_Input :: "TaskInput option"
  ps_Metadata :: "(string \<times> string) list"

record WorkerDescriptor =
  wd_Id :: string
  wd_Address :: string
  wd_Capacity :: "32 word"
  wd_Labels :: "string list"

record WorkerStatus =
  ws_Worker :: WorkerDescriptor
  ws_RunningTasks :: "32 word"
  ws_State :: ProtoNodeState
  ws_LastHeartbeat :: "gotime option"

record TaskInfo =
  ti_Id :: string
  ti_Spec :: ProtoTaskSpec
  ti_State :: ProtoTaskState
  ti_AssignedWorker :: string
  ti_Message :: string
  ti_CreatedAt :: "gotime option"
  ti_StartedAt :: "gotime option"
  ti_CompletedAt :: "gotime option"

record TaskAssignment =
  ta_TaskId :: string
  ta_Spec :: ProtoTaskSpec
  ta_AssignedAt :: "gotime option"

record ProtoTaskResult =
  pr_TaskId :: string
  pr_Success :: bool
  pr_Output :: string
  pr_ErrorMessage :: string

record ClusterOverview =
  co_GeneratedAt :: "gotime option"
  co_Workers :: "WorkerStatus list"
  co_Tasks :: "TaskInfo list"
  co_TotalWorkers :: "32 word"
  co_ActiveWorkers :: "32 word"
  co_PendingTasks :: "32 word"
  co_RunningTasks :: "32 word"
  co_CompletedTasks :: "32 word"

datatype grpc_code = InvalidArgument | NotFoundCode | Internal

section \<open>Conversions\<close>

fun toProtoNodeState :: "NodeState \<Rightarrow> ProtoNodeState" where
  "toProtoNodeState NodeReady = NODE_STATE_READY"
| "toProtoNodeState NodeBusy = NODE_STATE_BUSY"
| "toProtoNodeState NodeOffline = NODE_STATE_OFFLINE"
| "toProtoNodeState NodeNone = NODE_STATE_UNSPECIFIED"

text \<open>The reported state is a string of the model's request.\<close>

fun fromProtoNodeState :: "ProtoNodeState \<Rightarrow> string" where
  "fromProtoNodeState NODE_STATE_BUSY = ''busy''"
| "fromProtoNodeState NODE_STATE_OFFLINE = ''offline''"
| "fromProtoNodeState NODE_STATE_READY = ''ready''"
| "fromProtoNodeState NODE_STATE_UNSPECIFIED = ''ready''"

fun toProtoTaskState :: "TaskState \<Rightarrow> ProtoTaskState" where
  "toProtoTaskState TaskPending = TASK_STATE_PENDING"
| "toProtoTaskState TaskRunning = TASK_STATE_RUNNING"
| "toProtoTaskState TaskCompleted = TASK_STATE_COMPLETED"
| "toProtoTaskState TaskFailed = TASK_STATE_FAILED"

definition timestampOrNil :: "gotime \<Rightarrow> gotime option" where
  "timestampOrNil value = (if time_IsZero value then None else Some value)"

definition timestampPointerOrNil :: "gotime option \<Rightarrow> gotime option" where
  "timestampPointerOrNil value = (case value of None \<Rightarrow> None | Some t \<Rightarrow> if time_IsZero t then None else Some t)"

abbreviation inputSourceMetadataKey :: string where "inputSourceMetadataKey \<equiv> ''_scheduler_input_source''"

definition publicMetadata :: "(string \<times> string) list \<Rightarrow> (string \<times> string) list" where
  "publicMetadata input = filter (\<lambda>(k, v). k \<noteq> inputSourceMetadataKey) input"

definition toTaskSpec :: "SchedTask \<Rightarrow> ProtoTaskSpec" where
  "toTaskSpec task =
     (let source = (case map_of (t_Metadata task) inputSourceMetadataKey of None \<Rightarrow> [] | Some s \<Rightarrow> s);
          input = (if source = ''prompt'' then Prompt (t_PayloadRef task)
                   else if source = ''inline_bytes'' then InlineBytes (t_PayloadRef task)
                   else PayloadRef (t_PayloadRef task))
      in \<lparr>ps_Model = t_Model task, ps_Operation = t_Operation task, ps_Input = Some input,
          ps_Metadata = publicMetadata (t_Metadata task)\<rparr>)"

text \<open>A \<open>uint32(x)\<close> of an \<open>int\<close> keeps the low 32 bits.\<close>

definition toWorkerStatus :: "Node \<Rightarrow> WorkerStatus" where
  "toWorkerStatus node =
     \<lparr>ws_Worker = \<lparr>wd_Id = n_ID node, wd_Address = n_Address node, wd_Capacity = word_of_int (n_Capacity node),
                   wd_Labels = n_Labels node\<rparr>,
      ws_RunningTasks = word_of_int (n_RunningTasks node), ws_State = toProtoNodeState (n_Status node),
      ws_LastHeartbeat = timestampOrNil (n_LastHeartbeat node)\<rparr>"

definition toTaskAssignment :: "SchedTask \<Rightarrow> TaskAssignment" where
  "toTaskAssignment task =
     \<lparr>ta_TaskId = t_ID task, ta_Spec = toTaskSpec task, ta_AssignedAt = timestampPointerOrNil (t_StartedAt task)\<rparr>"

definition toTaskInfo :: "SchedTask \<Rightarrow> TaskInfo" where
  "toTaskInfo task =
     \<lparr>ti_Id = t_ID task, ti_Spec = toTaskSpec task, ti_State = toProtoTaskState (t_Status task),
      ti_AssignedWorker = t_AssignedWorker task, ti_Message = t_Message task, ti_CreatedAt = timestampOrNil (t_CreatedAt task),
      ti_StartedAt = timestampPointerOrNil (t_StartedAt task), ti_CompletedAt = timestampPointerOrNil (t_CompletedAt task)\<rparr>"

definition toClusterOverview :: "StatusResponse \<Rightarrow> ClusterOverview" where
  "toClusterOverview overview =
     \<lparr>co_GeneratedAt = timestampOrNil (sr_GeneratedAt overview), co_Workers = map toWorkerStatus (sr_Workers overview),
      co_Tasks = map toTaskInfo (sr_Tasks overview), co_TotalWorkers = word_of_nat (sr_TotalWorkers overview),
      co_ActiveWorkers = word_of_nat (sr_ActiveWorkers overview), co_PendingTasks = word_of_nat (sr_PendingTasks overview),
      co_RunningTasks = word_of_nat (sr_RunningTasks overview), co_CompletedTasks = word_of_nat (sr_CompletedTasks overview)\<rparr>"

section \<open>Calls\<close>

text \<open>\<open>strings.Contains(err.Error(), "not found")\<close>: the texts of the two not-found errors contain it, the other texts do not.\<close>

fun is_not_found :: "sched_error \<Rightarrow> bool" where
  "is_not_found (WorkerNotFound _) \<longleftrightarrow> True"
| "is_not_found (TaskNotFound _) \<longleftrightarrow> True"
| "is_not_found _ \<longleftrightarrow> False"

definition RegisterWorker :: "Scheduler \<Rightarrow> gotime \<Rightarrow> WorkerDescriptor option \<Rightarrow> State \<Rightarrow> (grpc_code + WorkerStatus) \<times> State" where
  "RegisterWorker s now worker st =
     (case worker of
        None \<Rightarrow> (Inl InvalidArgument, st)
      | Some w \<Rightarrow>
          (case NodeService_Register s \<lparr>reg_ID = wd_Id w, reg_Address = wd_Address w, reg_Capacity = uint (wd_Capacity w),
                                        reg_Labels = wd_Labels w\<rparr> now st of
             (Inl e, st') \<Rightarrow> (Inl InvalidArgument, st')
           | (Inr node, st') \<Rightarrow> (Inr (toWorkerStatus node), st')))"

definition Grpc_Heartbeat ::
    "Scheduler \<Rightarrow> gotime \<Rightarrow> string \<Rightarrow> 32 word \<Rightarrow> ProtoNodeState \<Rightarrow> State \<Rightarrow> (grpc_code + WorkerStatus) \<times> State" where
  "Grpc_Heartbeat s now worker_id running reported st =
     (case NodeService_Heartbeat s \<lparr>hb_ID = worker_id, hb_RunningTasks = uint running, hb_Status = fromProtoNodeState reported,
                                    hb_ActiveTaskIDs = []\<rparr> now st of
        (Inl e, st') \<Rightarrow> (Inl (if is_not_found e then NotFoundCode else InvalidArgument), st')
      | (Inr node, st') \<Rightarrow> (Inr (toWorkerStatus node), st'))"

definition ReportTaskResult :: "Scheduler \<Rightarrow> gotime \<Rightarrow> ProtoTaskResult option \<Rightarrow> State \<Rightarrow> (grpc_code + TaskInfo) \<times> State" where
  "ReportTaskResult s now result st =
     (case result of
        None \<Rightarrow> (Inl InvalidArgument, st)
      | Some r \<Rightarrow>
          (let message = (if \<not> pr_Success r \<and> pr_ErrorMessage r \<noteq> [] then pr_ErrorMessage r else pr_Output r)
           in case TaskService_Complete s (pr_TaskId r) \<lparr>done_Success = pr_Success r, done_Message = message\<rparr> now st of
                (Inl e, st') \<Rightarrow> (Inl (if is_not_found e then NotFoundCode else InvalidArgument), st')
              | (Inr task, st') \<Rightarrow> (Inr (toTaskInfo task), st')))"

definition submit_request :: "ProtoTaskSpec \<Rightarrow> SubmitTaskRequest" where
  "submit_request spec =
     (let req = \<lparr>sub_Model = ps_Model spec, sub_Operation = ps_Operation spec, sub_PayloadRef = [],
                 sub_Metadata = publicMetadata (ps_Metadata spec)\<rparr>;
          tag = (\<lambda>payload source. req\<lparr>sub_PayloadRef := payload,
                   sub_Metadata := AList.update inputSourceMetadataKey source (sub_Metadata req)\<rparr>)
      in case ps_Input spec of
           None \<Rightarrow> req
         | Some (Prompt p) \<Rightarrow> tag p ''prompt''
         | Some (PayloadRef r) \<Rightarrow> tag r ''payload_ref''
         | Some (InlineBytes b) \<Rightarrow> tag b ''inline_bytes'')"

definition SubmitTask :: "Scheduler \<Rightarrow> gotime \<Rightarrow> ProtoTaskSpec option \<Rightarrow> State \<Rightarrow> (grpc_code + TaskInfo) \<times> State" where
  "SubmitTask s now spec st =
     (case spec of
        None \<Rightarrow> (Inl InvalidArgument, st)
      | Some sp \<Rightarrow>
          (case TaskService_Submit s (submit_request sp) now st of
             (Inl e, st') \<Rightarrow> (Inl InvalidArgument, st')
           | (Inr task, st') \<Rightarrow> (Inr (toTaskInfo task), st')))"

definition Grpc_GetTask :: "string \<Rightarrow> State \<Rightarrow> grpc_code + TaskInfo" where
  "Grpc_GetTask ident st = (case TaskService_Get ident st of None \<Rightarrow> Inl NotFoundCode | Some task \<Rightarrow> Inr (toTaskInfo task))"

definition GetClusterOverview :: "Scheduler \<Rightarrow> gotime \<Rightarrow> State \<Rightarrow> ClusterOverview \<times> State" where
  "GetClusterOverview s now st = (case TaskService_Status s now st of (status, st') \<Rightarrow> (toClusterOverview status, st'))"

section \<open>The assignment stream\<close>

definition workerExists :: "string \<Rightarrow> State \<Rightarrow> bool" where
  "workerExists workerID st \<longleftrightarrow> map_of (Nodes st) workerID \<noteq> None"

text \<open>Sorted by start, a missing one first, then by id.\<close>

definition runningAssignments :: "string \<Rightarrow> State \<Rightarrow> SchedTask list" where
  "runningAssignments workerID st =
     sort_key (\<lambda>t. (case t_StartedAt t of None \<Rightarrow> (False, 0) | Some x \<Rightarrow> (True, x), t_ID t))
       (filter (\<lambda>t. t_AssignedWorker t = workerID \<and> t_Status t = TaskRunning) (map snd (Tasks st)))"

text \<open>The inner loop: what it sends, and the set afterwards. The last argument tells for each send whether it succeeds; \<open>False\<close> ends
  the stream, as the third component tells.\<close>

fun send_new :: "SchedTask list \<Rightarrow> string set \<Rightarrow> (TaskAssignment \<Rightarrow> bool) \<Rightarrow> TaskAssignment list \<times> string set \<times> bool" where
  "send_new [] sent ok = ([], sent, True)"
| "send_new (t # ts) sent ok =
     (if t_ID t \<in> sent then send_new ts sent ok
      else if \<not> ok (toTaskAssignment t) then ([], sent, False)
      else case send_new ts (insert (t_ID t) sent) ok of (out, sent', alive) \<Rightarrow> (toTaskAssignment t # out, sent', alive))"

text \<open>The outer loop: the states the polls see, one per tick until the stream's context is done.\<close>

fun watch_loop :: "string \<Rightarrow> State list \<Rightarrow> string set \<Rightarrow> (TaskAssignment \<Rightarrow> bool) \<Rightarrow> TaskAssignment list" where
  "watch_loop workerID [] sent ok = []"
| "watch_loop workerID (st # polls) sent ok =
     (case send_new (runningAssignments workerID st) sent ok of
        (out, sent', alive) \<Rightarrow> out @ (if alive then watch_loop workerID polls sent' ok else []))"

definition WatchAssignments ::
    "string \<Rightarrow> bool \<Rightarrow> State \<Rightarrow> State \<Rightarrow> State list \<Rightarrow> (TaskAssignment \<Rightarrow> bool) \<Rightarrow> grpc_code + TaskAssignment list" where
  "WatchAssignments workerID resume st0 st1 polls ok =
     (if workerID = [] then Inl InvalidArgument
      else if \<not> workerExists workerID st0 then Inl NotFoundCode
      else Inr (watch_loop workerID polls (if resume then {} else t_ID ` set (runningAssignments workerID st1)) ok))"

section \<open>Properties\<close>

lemma public_update:
  shows "publicMetadata (AList.update inputSourceMetadataKey v (publicMetadata m)) = publicMetadata m"
    "map_of (AList.update inputSourceMetadataKey v (publicMetadata m)) inputSourceMetadataKey = Some v"
proof -
  have "inputSourceMetadataKey \<notin> set (map fst (publicMetadata m))" by (auto simp: publicMetadata_def)
  then show "publicMetadata (AList.update inputSourceMetadataKey v (publicMetadata m)) = publicMetadata m"
    by (simp add: update_new) (simp add: publicMetadata_def)
  show "map_of (AList.update inputSourceMetadataKey v (publicMetadata m)) inputSourceMetadataKey = Some v" by (simp add: update_conv)
qed

text \<open>What the interface makes of a specification: the input is never missing and the reserved key never shows.\<close>

definition public_spec :: "ProtoTaskSpec \<Rightarrow> ProtoTaskSpec" where
  "public_spec spec =
     spec\<lparr>ps_Input := Some (case ps_Input spec of None \<Rightarrow> PayloadRef [] | Some i \<Rightarrow> i), ps_Metadata := publicMetadata (ps_Metadata spec)\<rparr>"

lemma public_twice: "publicMetadata (publicMetadata m) = publicMetadata m" "map_of (publicMetadata m) inputSourceMetadataKey = None"
  by (auto simp: publicMetadata_def map_of_eq_None_iff)

lemma toTaskSpec_submitted:
  assumes "same_job (new_task ident (submit_request spec) now) t"
  shows "toTaskSpec t = public_spec spec"
proof -
  have t: "t_Model t = sub_Model (submit_request spec)" "t_Operation t = sub_Operation (submit_request spec)"
    "t_PayloadRef t = sub_PayloadRef (submit_request spec)" "t_Metadata t = sub_Metadata (submit_request spec)"
    using assms by (simp_all add: same_job_def new_task_def)
  show ?thesis
  proof (cases "ps_Input spec")
    case None
    then show ?thesis by (simp add: toTaskSpec_def t submit_request_def public_spec_def public_twice Let_def)
  next
    case (Some i)
    then show ?thesis
      by (cases i) (simp_all add: toTaskSpec_def t submit_request_def public_spec_def public_update Let_def)
  qed
qed



lemma send_new_ids:
  assumes "send_new ts sent ok = (out, sent', alive)"
  shows "distinct (map ta_TaskId out) \<and> set (map ta_TaskId out) \<inter> sent = {} \<and> sent' = sent \<union> set (map ta_TaskId out) \<and>
    set (map ta_TaskId out) \<subseteq> t_ID ` set ts \<and> (alive \<longrightarrow> t_ID ` set ts \<subseteq> sent') \<and> ((\<forall>a. ok a) \<longrightarrow> alive)"
  using assms
proof (induction ts arbitrary: sent out sent' alive)
  case (Cons t ts)
  show ?case
  proof (cases "t_ID t \<in> sent \<or> \<not> ok (toTaskAssignment t)")
    case True
    then show ?thesis using Cons.IH [of sent out sent' alive] Cons.prems by (auto split: if_splits)
  next
    case False
    obtain out1 where rec: "send_new ts (insert (t_ID t) sent) ok = (out1, sent', alive)" "out = toTaskAssignment t # out1"
      using Cons.prems False by (auto split: prod.splits)
    have "ta_TaskId (toTaskAssignment t) = t_ID t" by (simp add: toTaskAssignment_def)
    then show ?thesis using Cons.IH [OF rec(1)] rec(2) False by auto
  qed
qed auto

definition running_ids :: "string \<Rightarrow> State \<Rightarrow> string set" where
  "running_ids workerID st = t_ID ` set (runningAssignments workerID st)"

lemma watch_loop_ids:
  "distinct (map ta_TaskId (watch_loop w polls sent ok)) \<and> set (map ta_TaskId (watch_loop w polls sent ok)) \<inter> sent = {} \<and>
   set (map ta_TaskId (watch_loop w polls sent ok)) \<subseteq> (\<Union>st \<in> set polls. running_ids w st) \<and>
   ((\<forall>a. ok a) \<longrightarrow> (\<Union>st \<in> set polls. running_ids w st) \<subseteq> sent \<union> set (map ta_TaskId (watch_loop w polls sent ok)))"
proof (induction polls arbitrary: sent)
  case (Cons st polls)
  obtain out sent' alive where new: "send_new (runningAssignments w st) sent ok = (out, sent', alive)" by (metis prod_cases3)
  note ids = send_new_ids [OF new]
  let ?rest = "if alive then watch_loop w polls sent' ok else []"
  have run: "watch_loop w (st # polls) sent ok = out @ ?rest" using new by simp
  note IH = Cons.IH [of sent']
  have dist: "distinct (map ta_TaskId (out @ ?rest))" and new: "set (map ta_TaskId (out @ ?rest)) \<inter> sent = {}" using IH ids by auto
  have sub: "set (map ta_TaskId (out @ ?rest)) \<subseteq> (\<Union>st \<in> set (st # polls). running_ids w st)"
    using IH ids by (auto simp: running_ids_def)
  have "(\<Union>st \<in> set (st # polls). running_ids w st) \<subseteq> sent \<union> set (map ta_TaskId (out @ ?rest))" if "\<forall>a. ok a"
  proof -
    have "alive" "running_ids w st \<subseteq> sent'" unfolding running_ids_def using ids that by blast+
    moreover have "(\<Union>st \<in> set polls. running_ids w st) \<subseteq> sent' \<union> set (map ta_TaskId (watch_loop w polls sent' ok))" using IH that by blast
    moreover have "sent' = sent \<union> set (map ta_TaskId out)" using ids by blast
    ultimately show ?thesis by auto
  qed
  then show ?case unfolding run using dist new sub by blast
qed simp

lemma distinct_singleton: "distinct xs \<Longrightarrow> set xs = {x} \<Longrightarrow> xs = [x]"
  by (cases xs; cases "tl xs") auto

lemma watch_starts: "workerExists (c # w) st0 \<Longrightarrow> \<exists>out. WatchAssignments (c # w) resume st0 st1 polls ok = Inr out"
  by (simp add: WatchAssignments_def)


definition watched_store :: State where
  "watched_store = run_blocks sample_scheduler sample_blocks NewMemoryStore"

lemma watched: "workerExists ''w'' watched_store" "map t_ID (runningAssignments ''w'' watched_store) = [''task-000001'']"
  by code_simp+


end
