(* ===== verification/Sched_Config.thy ===== *)
theory Sched_Config
  imports Sched_Deliverer
begin

text \<open>
  The configuration and the start of the scheduler (\<open>scheduler/cmd/server.go\<close>): the file's lines, their sections and keys,
  \<open>time.ParseDuration\<close> with its 64-bit overflow checks and its floating-point fractions, and what \<open>Run\<close> builds from the
  result. Strings are bytes, as in Go.
\<close>

section \<open>Go's \<open>strings\<close> and \<open>bufio\<close>\<close>

text \<open>Drop any of the given pieces from the front, as long as one is there.\<close>

fun strip_piece :: "string list \<Rightarrow> string \<Rightarrow> string option" where
  "strip_piece [] s = None"
| "strip_piece (p # ps) s =
     (if p \<noteq> [] \<and> starts_with p s then Some (drop (length p) s) else strip_piece ps s)"

lemma strip_piece_shorter: "strip_piece ps s = Some r \<Longrightarrow> length r < length s"
  by (induction ps) (auto simp: starts_with_conv split: if_splits)

function trim_front :: "string list \<Rightarrow> string \<Rightarrow> string" where
  "trim_front ps s = (case strip_piece ps s of None \<Rightarrow> s | Some r \<Rightarrow> trim_front ps r)"
  by pat_completeness auto
termination by (relation "measure (\<lambda>(ps, s). length s)") (auto dest: strip_piece_shorter)

declare trim_front.simps [simp del]

definition trim_both :: "string list \<Rightarrow> string \<Rightarrow> string" where
  "trim_both ps s = rev (trim_front (map rev ps) (rev (trim_front ps s)))"

text \<open>The runes for which \<open>unicode.IsSpace\<close> holds, in UTF-8.\<close>

definition space_runes :: "string list" where
  "space_runes =
     [[CHR '' ''], [TAB], [NL], [CHR 0x0B], [CHR 0x0C], [CR], [CHR 0xC2, CHR 0x85], [CHR 0xC2, CHR 0xA0],
      [CHR 0xE1, CHR 0x9A, CHR 0x80], [CHR 0xE2, CHR 0x80, CHR 0x80], [CHR 0xE2, CHR 0x80, CHR 0x81],
      [CHR 0xE2, CHR 0x80, CHR 0x82], [CHR 0xE2, CHR 0x80, CHR 0x83], [CHR 0xE2, CHR 0x80, CHR 0x84],
      [CHR 0xE2, CHR 0x80, CHR 0x85], [CHR 0xE2, CHR 0x80, CHR 0x86], [CHR 0xE2, CHR 0x80, CHR 0x87],
      [CHR 0xE2, CHR 0x80, CHR 0x88], [CHR 0xE2, CHR 0x80, CHR 0x89], [CHR 0xE2, CHR 0x80, CHR 0x8A],
      [CHR 0xE2, CHR 0x80, CHR 0xA8], [CHR 0xE2, CHR 0x80, CHR 0xA9], [CHR 0xE2, CHR 0x80, CHR 0xAF],
      [CHR 0xE2, CHR 0x81, CHR 0x9F], [CHR 0xE3, CHR 0x80, CHR 0x80]]"

definition strings_TrimSpace :: "string \<Rightarrow> string" where
  "strings_TrimSpace s = trim_both space_runes s"

definition trim_quotes :: "string \<Rightarrow> string" where
  "trim_quotes s = trim_both [[QUOTE], [CHR 0x27]] s"

definition strings_Cut :: "char \<Rightarrow> string \<Rightarrow> (string \<times> string) option" where
  "strings_Cut c s =
     (case dropWhile (\<lambda>x. x \<noteq> c) s of [] \<Rightarrow> None | _ # rest \<Rightarrow> Some (takeWhile (\<lambda>x. x \<noteq> c) s, rest))"

text \<open>\<open>bufio.ScanLines\<close> cuts at newlines like \<open>getline\<close> and drops one trailing carriage return; a line that fills the
  scanner's buffer of 64 KiB ends the scan with an error.\<close>

definition dropCR :: "string \<Rightarrow> string" where
  "dropCR s = (if s \<noteq> [] \<and> last s = CR then butlast s else s)"

definition MaxScanTokenSize :: nat where
  "MaxScanTokenSize = 64 * 1024"

section \<open>\<open>time.ParseDuration\<close>\<close>

text \<open>\<open>float64\<close>: the nearest fraction with a 53-bit significand, ties to even. The operands below never leave the range of
  normal numbers, except for fractions that are far below a nanosecond and are cut off anyway.\<close>

definition round_even :: "nat \<Rightarrow> nat \<Rightarrow> nat" where
  "round_even p q =
     (let d = p div q; r = p mod q in if q < 2 * r \<or> (2 * r = q \<and> odd d) then d + 1 else d)"

fun bit_len :: "nat \<Rightarrow> nat" where
  "bit_len n = (if n = 0 then 0 else 1 + bit_len (n div 2))"

declare bit_len.simps [simp del]

definition scaled :: "nat \<Rightarrow> nat \<Rightarrow> int \<Rightarrow> nat \<times> nat" where
  "scaled p q e = (if 0 \<le> e then (p, q * 2 ^ nat e) else (p * 2 ^ nat (- e), q))"

definition float64 :: "nat \<times> nat \<Rightarrow> nat \<times> nat" where
  "float64 x =
     (let (p, q) = x in
      if p = 0 then (0, 1)
      else let e0 = int (bit_len p) - int (bit_len q) - 53;
               (p0, q0) = scaled p q e0;
               e = (if p0 \<ge> q0 * 2 ^ 53 then e0 + 1 else e0);
               (p1, q1) = scaled p q e
           in scaled (round_even p1 q1) 1 (- e))"

fun leadingInt :: "nat \<Rightarrow> string \<Rightarrow> (nat \<times> string) option" where
  "leadingInt x [] = Some (x, [])"
| "leadingInt x (c # s) =
     (if \<not> is_digit c then Some (x, c # s)
      else if x > 2 ^ 63 div 10 then None
      else if x * 10 + digit_val c > 2 ^ 63 then None
      else leadingInt (x * 10 + digit_val c) s)"

fun leadingFraction :: "bool \<Rightarrow> nat \<Rightarrow> nat \<times> nat \<Rightarrow> string \<Rightarrow> nat \<times> (nat \<times> nat) \<times> string" where
  "leadingFraction overflow x scale [] = (x, scale, [])"
| "leadingFraction overflow x scale (c # s) =
     (if \<not> is_digit c then (x, scale, c # s)
      else if overflow then leadingFraction True x scale s
      else if x > (2 ^ 63 - 1) div 10 then leadingFraction True x scale s
      else if x * 10 + digit_val c > 2 ^ 63 then leadingFraction True x scale s
      else leadingFraction False (x * 10 + digit_val c) (float64 (10 * fst scale, snd scale)) s)"

definition unitMap :: "(string \<times> nat) list" where
  "unitMap =
     [(''ns'', 1), (''us'', 10 ^ 3), ([CHR 0xC2, CHR 0xB5, CHR ''s''], 10 ^ 3),
      ([CHR 0xCE, CHR 0xBC, CHR ''s''], 10 ^ 3), (''ms'', 10 ^ 6), (''s'', 10 ^ 9),
      (''m'', 60 * 10 ^ 9), (''h'', 60 * 60 * 10 ^ 9)]"

definition number_start :: "char \<Rightarrow> bool" where
  "number_start c \<longleftrightarrow> c = CHR ''.'' \<or> is_digit c"

text \<open>\<open>uint64(float64(f) * (float64(unit) / scale))\<close>.\<close>

definition fraction_ns :: "nat \<Rightarrow> nat \<Rightarrow> nat \<times> nat \<Rightarrow> nat" where
  "fraction_ns f unit scale =
     (let (a, b) = float64 (f, 1);
          (c, d) = float64 (unit * snd scale, fst scale);
          (p, q) = float64 (a * c, b * d)
      in p div q)"

text \<open>One round of the loop: a number with its unit, in nanoseconds, and what is left of the string.\<close>

definition duration_item :: "string \<Rightarrow> (nat \<times> string) option" where
  "duration_item s =
     (if s = [] \<or> \<not> number_start (hd s) then None
      else case leadingInt 0 s of
        None \<Rightarrow> None
      | Some (v, s1) \<Rightarrow>
          (let pre = (length s1 \<noteq> length s);
               point = (s1 \<noteq> [] \<and> hd s1 = CHR ''.'');
               (f, scale, s2) = (if point then leadingFraction False 0 (1, 1) (tl s1) else (0, (1, 1), s1));
               post = (point \<and> length s2 \<noteq> length (tl s1));
               u = takeWhile (\<lambda>c. \<not> number_start c) s2
           in if \<not> pre \<and> \<not> post then None
              else if u = [] then None
              else case map_of unitMap u of
                None \<Rightarrow> None
              | Some unit \<Rightarrow>
                  if v > 2 ^ 63 div unit then None
                  else let v1 = (if f > 0 then v * unit + fraction_ns f unit scale else v * unit)
                       in if v1 > 2 ^ 63 then None else Some (v1, drop (length u) s2)))"

lemma duration_item_shorter: "duration_item s = Some (v, r) \<Longrightarrow> length r < length s"
proof -
  have int: "leadingInt x s = Some (v, r) \<Longrightarrow> length r \<le> length s" for x s v r
    by (induction x s rule: leadingInt.induct) (auto split: if_splits)
  have frac: "leadingFraction b x sc s = (f, sc', r) \<Longrightarrow> length r \<le> length s" for b x sc s f sc' r
    by (induction b x sc s rule: leadingFraction.induct) (auto split: if_splits)
  assume item: "duration_item s = Some (v, r)"
  then obtain v0 s1 where s1: "leadingInt 0 s = Some (v0, s1)"
    by (auto simp: duration_item_def split: if_splits option.splits)
  define fr where "fr = (if s1 \<noteq> [] \<and> hd s1 = CHR ''.'' then leadingFraction False 0 (1, 1) (tl s1) else (0, (1, 1), s1))"
  obtain f sc s2 where fr: "fr = (f, sc, s2)" by (metis prod_cases3)
  have "length s2 \<le> length s1"
    using fr frac [of False 0 "(1, 1)" "tl s1" f sc s2] by (auto simp: fr_def split: if_splits)
  moreover have "length s1 \<le> length s" using int [OF s1] .
  moreover have "r = drop (length (takeWhile (\<lambda>c. \<not> number_start c) s2)) s2"
    "takeWhile (\<lambda>c. \<not> number_start c) s2 \<noteq> []"
    using item fr s1 by (auto simp: duration_item_def Let_def fr_def [symmetric] split: if_splits option.splits)
  moreover from this(2) have "s2 \<noteq> []" by auto
  ultimately show ?thesis by (auto simp: length_greater_0_conv [symmetric] simp del: length_greater_0_conv)
qed

text \<open>The loop, with the running sum in a \<open>uint64\<close>.\<close>

function duration_sum :: "nat \<Rightarrow> string \<Rightarrow> nat option" where
  "duration_sum d s =
     (if s = [] then Some d
      else case duration_item s of
        None \<Rightarrow> None
      | Some (v, r) \<Rightarrow>
          (let d1 = (d + v) mod 2 ^ 64 in if d1 > 2 ^ 63 then None else duration_sum d1 r))"
  by pat_completeness auto
termination by (relation "measure (\<lambda>(d, s). length s)") (auto dest: duration_item_shorter)

declare duration_sum.simps [simp del]

definition time_ParseDuration :: "string \<Rightarrow> duration option" where
  "time_ParseDuration s =
     (let signed = (s \<noteq> [] \<and> (hd s = CHR ''-'' \<or> hd s = CHR ''+''));
          neg = (signed \<and> hd s = CHR ''-'');
          s1 = (if signed then tl s else s)
      in if s1 = ''0'' then Some 0
         else if s1 = [] then None
         else case duration_sum 0 s1 of
           None \<Rightarrow> None
         | Some d \<Rightarrow>
             if neg then Some (- int d)
             else if d > 2 ^ 63 - 1 then None
             else Some (int d))"

section \<open>The configuration\<close>

record SchedServerConfig =
  cfg_Addr :: string
  cfg_ReadHeaderTimeout :: duration

record GRPCConfig =
  cfg_GRPCAddr :: string

record SchedulerConfig =
  cfg_OfflineAfter :: duration
  cfg_MonitorInterval :: duration

record SchedConfig =
  cfg_Server :: SchedServerConfig
  cfg_GRPC :: GRPCConfig
  cfg_Scheduler :: SchedulerConfig

definition defaultConfig :: SchedConfig where
  "defaultConfig =
     \<lparr>cfg_Server = \<lparr>cfg_Addr = '':8080'', cfg_ReadHeaderTimeout = 5 * second\<rparr>,
      cfg_GRPC = \<lparr>cfg_GRPCAddr = '':9090''\<rparr>,
      cfg_Scheduler = \<lparr>cfg_OfflineAfter = 30 * second, cfg_MonitorInterval = 5 * second\<rparr>\<rparr>"

text \<open>The errors of one line, and with their line number those of the file.\<close>

datatype line_error = InvalidLine | InvalidDuration string string | UnknownKey string string | UnknownSection string

datatype config_error = OpenFailed | LineError nat line_error | ScanFailed

definition applyConfigValue :: "SchedConfig \<Rightarrow> string \<Rightarrow> string \<Rightarrow> string \<Rightarrow> line_error + SchedConfig" where
  "applyConfigValue cfg sec key value =
     (if sec = ''server'' then
        if key = ''addr'' then Inr (cfg\<lparr>cfg_Server := (cfg_Server cfg)\<lparr>cfg_Addr := value\<rparr>\<rparr>)
        else if key = ''read_header_timeout'' then
          (case time_ParseDuration value of
             None \<Rightarrow> Inl (InvalidDuration sec key)
           | Some duration \<Rightarrow> Inr (cfg\<lparr>cfg_Server := (cfg_Server cfg)\<lparr>cfg_ReadHeaderTimeout := duration\<rparr>\<rparr>))
        else Inl (UnknownKey sec key)
      else if sec = ''grpc'' then
        if key = ''addr'' then Inr (cfg\<lparr>cfg_GRPC := (cfg_GRPC cfg)\<lparr>cfg_GRPCAddr := value\<rparr>\<rparr>)
        else Inl (UnknownKey sec key)
      else if sec = ''scheduler'' then
        if key = ''offline_after'' then
          (case time_ParseDuration value of
             None \<Rightarrow> Inl (InvalidDuration sec key)
           | Some duration \<Rightarrow> Inr (cfg\<lparr>cfg_Scheduler := (cfg_Scheduler cfg)\<lparr>cfg_OfflineAfter := duration\<rparr>\<rparr>))
        else if key = ''monitor_interval'' then
          (case time_ParseDuration value of
             None \<Rightarrow> Inl (InvalidDuration sec key)
           | Some duration \<Rightarrow> Inr (cfg\<lparr>cfg_Scheduler := (cfg_Scheduler cfg)\<lparr>cfg_MonitorInterval := duration\<rparr>\<rparr>))
        else Inl (UnknownKey sec key)
      else Inl (UnknownSection sec))"

text \<open>The body of the loop over the lines: the new section and configuration, or the error.\<close>

definition sched_config_line :: "string \<Rightarrow> string \<times> SchedConfig \<Rightarrow> line_error + string \<times> SchedConfig" where
  "sched_config_line raw st =
     (let (sec, cfg) = st;
          trimmed = strings_TrimSpace raw
      in if trimmed = [] \<or> starts_with ''#'' trimmed then Inr (sec, cfg)
         else if \<not> starts_with '' '' raw \<and> \<not> starts_with [TAB] raw then
           if last trimmed \<noteq> CHR '':'' then Inl InvalidLine
           else Inr (butlast trimmed, cfg)
         else case strings_Cut (CHR '':'') (strings_TrimSpace raw) of
           None \<Rightarrow> Inl InvalidLine
         | Some (key, value) \<Rightarrow>
             (case applyConfigValue cfg sec key (trim_quotes (strings_TrimSpace value)) of
                Inl e \<Rightarrow> Inl e
              | Inr cfg1 \<Rightarrow> Inr (sec, cfg1)))"

text \<open>The loop; \<open>n\<close> lines have been read. A line that fills the buffer stops the scanner.\<close>

fun sched_config_lines :: "nat \<Rightarrow> string list \<Rightarrow> string \<times> SchedConfig \<Rightarrow> config_error + SchedConfig" where
  "sched_config_lines n [] st = Inr (snd st)"
| "sched_config_lines n (line # lines) st =
     (if MaxScanTokenSize \<le> length line then Inl ScanFailed
      else case sched_config_line (dropCR line) st of
        Inl e \<Rightarrow> Inl (LineError (Suc n) e)
      | Inr st1 \<Rightarrow> sched_config_lines (Suc n) lines st1)"

text \<open>What opening and reading the file gives; the flag of \<open>FileText\<close> says that reading ended in an error.\<close>

datatype config_file = FileMissing | FileError | FileText string bool

fun sched_loadConfig :: "config_file \<Rightarrow> config_error + SchedConfig" where
  "sched_loadConfig FileMissing = Inr defaultConfig"
| "sched_loadConfig FileError = Inl OpenFailed"
| "sched_loadConfig (FileText text broken) =
     (case sched_config_lines 0 (getlines text) ([], defaultConfig) of
        Inl e \<Rightarrow> Inl e
      | Inr cfg \<Rightarrow> if broken then Inl ScanFailed else Inr cfg)"

section \<open>\<open>Run\<close> up to the listening sockets\<close>

text \<open>An unset variable of the environment reads as the empty string.\<close>

definition configPath :: "(string \<Rightarrow> string) \<Rightarrow> string" where
  "configPath getenv =
     (let path = getenv ''SCHEDULER_CONFIG'' in if path \<noteq> [] then path else ''config/config.yaml'')"

record SchedSetup =
  su_http_addr :: string
  su_grpc_addr :: string
  su_ReadHeaderTimeout :: duration
  su_store :: State
  su_registry_offlineAfter :: duration
  su_dispatcher :: Scheduler
  su_checker_interval :: duration
  su_deliverer_interval :: duration

definition Run_setup :: "(string \<Rightarrow> string) \<Rightarrow> (string \<Rightarrow> config_file) \<Rightarrow> config_error + SchedSetup" where
  "Run_setup getenv files =
     (case sched_loadConfig (files (configPath getenv)) of
        Inl e \<Rightarrow> Inl e
      | Inr cfg \<Rightarrow>
          (let http = (if getenv ''SCHEDULER_ADDR'' \<noteq> [] then getenv ''SCHEDULER_ADDR'' else cfg_Addr (cfg_Server cfg));
               grpc = (if getenv ''SCHEDULER_GRPC_ADDR'' \<noteq> [] then getenv ''SCHEDULER_GRPC_ADDR''
                       else cfg_GRPCAddr (cfg_GRPC cfg));
               offlineAfter = cfg_OfflineAfter (cfg_Scheduler cfg)
           in Inr \<lparr>su_http_addr = http, su_grpc_addr = grpc,
                   su_ReadHeaderTimeout = cfg_ReadHeaderTimeout (cfg_Server cfg),
                   su_store = NewMemoryStore, su_registry_offlineAfter = offlineAfter,
                   su_dispatcher = \<lparr>sch_strategy = Some LeastLoaded_Compare, sch_offlineAfter = offlineAfter\<rparr>,
                   su_checker_interval = NewChecker_interval (cfg_MonitorInterval (cfg_Scheduler cfg)),
                   su_deliverer_interval = NewAssignmentDeliverer_interval (300 * 1000000)\<rparr>))"

section \<open>Durations written in nanoseconds\<close>

lemma leadingInt_digits:
  assumes "\<forall>c \<in> set ds. is_digit c" "rest = [] \<or> \<not> is_digit (hd rest)"
    "foldl (\<lambda>a c. 10 * a + digit_val c) x ds \<le> 2 ^ 63"
  shows "leadingInt x (ds @ rest) = Some (foldl (\<lambda>a c. 10 * a + digit_val c) x ds, rest)"
  using assms(1,3)
proof (induction ds arbitrary: x)
  case Nil
  then show ?case using assms(2) by (cases rest) auto
next
  case (Cons c ds)
  have grow: "y \<le> foldl (\<lambda>a c. 10 * a + digit_val c) y ds" for y
  proof (induction ds arbitrary: y)
    case (Cons d ds)
    from Cons [of "10 * y + digit_val d"] show ?case by simp
  qed simp
  have "10 * x + digit_val c \<le> 2 ^ 63"
    using grow [of "10 * x + digit_val c"] Cons.prems(2) by simp
  moreover from this have "x \<le> 2 ^ 63 div 10" by simp
  ultimately show ?case using Cons.IH [of "10 * x + digit_val c"] Cons.prems by (simp add: mult.commute)
qed

lemma ParseDuration_ns:
  assumes "n < 2 ^ 63"
  shows "time_ParseDuration (to_string n @ ''ns'') = Some (int n)"
proof -
  let ?s = "to_string n @ ''ns''"
  have digits: "\<forall>c \<in> set (to_string n). is_digit c" by (rule to_string_digits)
  have hd: "is_digit (hd ?s)" using digits by (cases "to_string n") auto
  have ns: "\<not> is_digit (CHR ''n'')" "\<not> is_digit (CHR ''s'')" by (simp_all add: is_digit_def)
  have lead: "leadingInt 0 ?s = Some (n, ''ns'')"
    using leadingInt_digits [OF digits, of "''ns''" 0] assms ns dec_value_to_string [of n]
    by (simp add: dec_value_def)
  have item: "duration_item ?s = Some (n, [])"
    using lead hd ns assms by (simp add: duration_item_def number_start_def unitMap_def Let_def)
  have "duration_sum 0 ?s = Some n"
    using item assms by (simp add: duration_sum.simps [of 0 ?s] duration_sum.simps [of n])
  moreover have "hd ?s \<noteq> CHR ''-''" "hd ?s \<noteq> CHR ''+''" using hd by (auto simp: is_digit_def)
  moreover have "?s \<noteq> ''0''" by (cases "to_string n") auto
  ultimately show ?thesis using assms by (simp add: time_ParseDuration_def Let_def)
qed

section \<open>Lines of the shipped form\<close>

definition graphic :: "char \<Rightarrow> bool" where
  "graphic c \<longleftrightarrow> 33 \<le> (of_char c :: nat) \<and> (of_char c :: nat) < 127"

lemma trim_front_stop:
  assumes "\<forall>p \<in> set ps. p = [] \<or> hd p \<noteq> c"
  shows "trim_front ps (c # s) = c # s"
proof -
  have "strip_piece ps (c # s) = None"
    using assms by (induction ps) (auto simp: starts_with_conv Cons_eq_append_conv)
  then show ?thesis by (simp add: trim_front.simps [of ps "c # s"])
qed

lemma space_rune_ends:
  assumes "graphic c"
  shows "\<forall>p \<in> set space_runes. p = [] \<or> hd p \<noteq> c" "\<forall>p \<in> set (map rev space_runes). p = [] \<or> hd p \<noteq> c"
  using assms by (auto simp: space_runes_def graphic_def)

lemma strip_blank: "strip_piece space_runes (CHR '' '' # s) = Some s"
  by (simp add: space_runes_def starts_with_def)

lemma TrimSpace_blanks:
  assumes "s \<noteq> []" "graphic (hd s)" "graphic (last s)"
  shows "strings_TrimSpace (replicate n (CHR '' '') @ s) = s"
proof -
  obtain c r where s: "s = c # r" using assms(1) by (cases s) auto
  have front: "trim_front space_runes (replicate n (CHR '' '') @ s) = s"
  proof (induction n)
    case 0
    then show ?case using trim_front_stop [OF space_rune_ends(1)] assms(2) by (simp add: s)
  next
    case (Suc n)
    then show ?case
      by (subst trim_front.simps) (simp add: strip_blank)
  qed
  obtain r' c' where r: "s = r' @ [c']" using assms(1) by (cases s rule: rev_cases) auto
  then have "rev s = c' # rev r'" "graphic c'" using assms(3) by auto
  with front trim_front_stop [OF space_rune_ends(2)] r show ?thesis
    by (simp add: strings_TrimSpace_def trim_both_def)
qed

text \<open>A configuration written like \<open>scheduler/config/config.yaml\<close>, with the durations in nanoseconds.\<close>

definition value_line :: "string \<Rightarrow> string \<Rightarrow> string" where
  "value_line key v = ''  '' @ key @ '': '' @ QUOTE # v @ [QUOTE]"

definition ns_text :: "duration \<Rightarrow> string" where
  "ns_text d = to_string (nat d) @ ''ns''"

definition form_lines :: "string \<Rightarrow> string \<Rightarrow> string \<Rightarrow> string \<Rightarrow> string \<Rightarrow> string list" where
  "form_lines addr read_header_timeout grpc_addr offline_after monitor_interval =
     [''server:'', value_line ''addr'' addr, value_line ''read_header_timeout'' read_header_timeout, '''',
      ''grpc:'', value_line ''addr'' grpc_addr, '''',
      ''scheduler:'', value_line ''offline_after'' offline_after, value_line ''monitor_interval'' monitor_interval]"

definition form_text :: "string list \<Rightarrow> string" where
  "form_text lines = concat (map (\<lambda>l. l @ [NL]) lines)"

definition config_text :: "SchedConfig \<Rightarrow> string" where
  "config_text cfg = form_text (form_lines (cfg_Addr (cfg_Server cfg)) (ns_text (cfg_ReadHeaderTimeout (cfg_Server cfg)))
     (cfg_GRPCAddr (cfg_GRPC cfg)) (ns_text (cfg_OfflineAfter (cfg_Scheduler cfg)))
     (ns_text (cfg_MonitorInterval (cfg_Scheduler cfg))))"

text \<open>What can be written in quotes: one line of moderate length that neither starts nor ends with a quote.\<close>

definition quotable :: "string \<Rightarrow> bool" where
  "quotable v \<longleftrightarrow>
     NL \<notin> set v \<and> length v < 65000 \<and> (v \<noteq> [] \<longrightarrow> {hd v, last v} \<inter> {QUOTE, CHR 0x27} = {})"

definition storable :: "duration \<Rightarrow> bool" where
  "storable d \<longleftrightarrow> 0 \<le> d \<and> d < 2 ^ 63"

definition sched_config_ok :: "SchedConfig \<Rightarrow> bool" where
  "sched_config_ok cfg \<longleftrightarrow>
     quotable (cfg_Addr (cfg_Server cfg)) \<and> quotable (cfg_GRPCAddr (cfg_GRPC cfg)) \<and>
     storable (cfg_ReadHeaderTimeout (cfg_Server cfg)) \<and> storable (cfg_OfflineAfter (cfg_Scheduler cfg)) \<and>
     storable (cfg_MonitorInterval (cfg_Scheduler cfg))"

lemma trim_quotes_quoted:
  assumes "quotable v"
  shows "trim_quotes (QUOTE # v @ [QUOTE]) = v"
proof (cases v)
  case Nil
  have "trim_front [[QUOTE], [CHR 0x27]] [QUOTE, QUOTE] = []" by code_simp
  with Nil show ?thesis by (simp add: trim_quotes_def trim_both_def trim_front.simps [of _ "[]"] starts_with_def)
next
  case (Cons c r)
  then obtain r' c' where r': "v = r' @ [c']" by (metis append_butlast_last_id list.distinct(1))
  have ends: "c \<notin> {QUOTE, CHR 0x27}" "c' \<notin> {QUOTE, CHR 0x27}"
    using assms Cons arg_cong [OF r', of last] by (auto simp: quotable_def)
  have front: "trim_front [[QUOTE], [CHR 0x27]] (QUOTE # x # xs) = x # xs" if "x \<notin> {QUOTE, CHR 0x27}" for x xs
    using trim_front_stop [of "[[QUOTE], [CHR 0x27]]" x xs] that
    by (auto simp: trim_front.simps [of _ "QUOTE # x # xs"] starts_with_def)
  have "trim_front [[QUOTE], [CHR 0x27]] (QUOTE # v @ [QUOTE]) = v @ [QUOTE]"
    using front [OF ends(1), of "r @ [QUOTE]"] Cons by simp
  moreover have "trim_front [[QUOTE], [CHR 0x27]] (QUOTE # rev v) = rev v"
    using front [OF ends(2), of "rev r'"] r' by simp
  ultimately show ?thesis by (simp add: trim_quotes_def trim_both_def)
qed

lemma quotable_ns: "quotable (ns_text d)" if "storable d"
proof -
  have dig: "\<forall>c \<in> set (to_string n). is_digit c" for n by (rule to_string_digits)
  have len: "length (to_string n) \<le> Suc k" if "n < 10 ^ Suc k" for n k
    using that
  proof (induction k arbitrary: n)
    case 0
    then show ?case by (subst to_string.simps) simp
  next
    case (Suc k)
    from Suc.IH [of "n div 10"] Suc.prems show ?case by (subst to_string.simps) simp
  qed
  have "length (to_string (nat d)) \<le> Suc 18"
    by (rule len) (use that in \<open>simp add: storable_def nat_less_iff\<close>)
  moreover have "NL \<notin> set (to_string (nat d))" using dig [of "nat d"] by (auto simp: is_digit_def)
  moreover have "is_digit (hd (to_string (nat d)))" using dig [of "nat d"] by simp
  then have "hd (to_string (nat d)) \<notin> {QUOTE, CHR 0x27}" by (auto simp: is_digit_def)
  ultimately show ?thesis by (auto simp: quotable_def ns_text_def)
qed

lemma config_value_line:
  assumes "key \<noteq> []" "graphic (hd key)" "hd key \<noteq> CHR ''#''" "CHR '':'' \<notin> set key" "quotable v"
  shows "sched_config_line (dropCR (value_line key v)) (sec, cfg) =
    (case applyConfigValue cfg sec key v of Inl e \<Rightarrow> Inl e | Inr cfg1 \<Rightarrow> Inr (sec, cfg1))"
proof -
  let ?q = "QUOTE # v @ [QUOTE]"
  let ?body = "key @ '': '' @ ?q"
  have q: "graphic QUOTE" by (simp add: graphic_def)
  have cr: "dropCR (value_line key v) = value_line key v" by (simp add: dropCR_def value_line_def)
  have trim: "strings_TrimSpace (value_line key v) = ?body"
    using TrimSpace_blanks [of ?body 2] assms(1,2) q by (simp add: value_line_def numeral_2_eq_2)
  have val: "strings_TrimSpace ('' '' @ ?q) = ?q"
    using TrimSpace_blanks [of ?q 1] q by simp
  have "\<forall>x \<in> set key. x \<noteq> CHR '':''" using assms(4) by auto
  then have "takeWhile (\<lambda>x. x \<noteq> CHR '':'') ?body = key" "dropWhile (\<lambda>x. x \<noteq> CHR '':'') ?body = '': '' @ ?q"
    by (simp_all add: takeWhile_append dropWhile_append)
  then have cut: "strings_Cut (CHR '':'') ?body = Some (key, '' '' @ ?q)"
    by (simp add: strings_Cut_def)
  have "\<not> starts_with ''#'' ?body" using assms(1,3) by (cases key) (auto simp: starts_with_def)
  moreover have "starts_with '' '' (value_line key v)" by (simp add: starts_with_def value_line_def)
  ultimately show ?thesis
    using assms(1) unfolding cr sched_config_line_def
    by (simp add: trim cut val trim_quotes_quoted [OF assms(5)] del: append.simps append_Cons)
qed

lemma config_section_line:
  assumes "sec \<noteq> []" "graphic (hd sec)" "hd sec \<noteq> CHR ''#''"
  shows "sched_config_line (dropCR (sec @ '':'')) (old, cfg) = Inr (sec, cfg)"
proof -
  have "graphic (CHR '':'')" by (simp add: graphic_def)
  then have "strings_TrimSpace (sec @ '':'') = sec @ '':''"
    using TrimSpace_blanks [of "sec @ '':''" 0] assms(1,2) by simp
  moreover have "\<not> starts_with '' '' (sec @ '':'')" "\<not> starts_with [TAB] (sec @ '':'')" "\<not> starts_with ''#'' (sec @ '':'')"
    using assms by (cases sec; auto simp: starts_with_def graphic_def)+
  ultimately show ?thesis by (simp add: sched_config_line_def dropCR_def)
qed

lemma config_empty_line: "sched_config_line (dropCR []) st = Inr st"
proof -
  have "strings_TrimSpace [] = []" by code_simp
  then show ?thesis by (cases st) (simp add: sched_config_line_def dropCR_def)
qed

lemma config_lines_short:
  "sched_config_lines n (line # lines) st =
     (case sched_config_line (dropCR line) st of
        Inl e \<Rightarrow> Inl (LineError (Suc n) e)
      | Inr st1 \<Rightarrow> sched_config_lines (Suc n) lines st1)" if "length line < 65536"
  using that by (simp add: MaxScanTokenSize_def)

lemma form_loads:
  assumes "quotable a" "quotable g" "quotable d1" "quotable d2" "quotable d3"
    "time_ParseDuration d1 = Some r" "time_ParseDuration d2 = Some off" "time_ParseDuration d3 = Some m"
  shows "sched_loadConfig (FileText (form_text (form_lines a d1 g d2 d3)) False) =
    Inr \<lparr>cfg_Server = \<lparr>cfg_Addr = a, cfg_ReadHeaderTimeout = r\<rparr>, cfg_GRPC = \<lparr>cfg_GRPCAddr = g\<rparr>,
         cfg_Scheduler = \<lparr>cfg_OfflineAfter = off, cfg_MonitorInterval = m\<rparr>\<rparr>"
proof -
  have "\<forall>l \<in> set (form_lines a d1 g d2 d3). NL \<notin> set l"
    using assms(1-5) by (simp add: form_lines_def value_line_def quotable_def)
  then have lines: "getlines (form_text (form_lines a d1 g d2 d3)) = form_lines a d1 g d2 d3"
    unfolding form_text_def by (rule getlines_concat)
  have short: "length (value_line key v) < 65536" if "quotable v" "length key < 100" for key v
    using that by (simp add: value_line_def quotable_def)
  have line: "sched_config_line (dropCR (value_line key v)) (sec, c) =
      (case applyConfigValue c sec key v of Inl e \<Rightarrow> Inl e | Inr c1 \<Rightarrow> Inr (sec, c1))"
    if "quotable v" "key \<in> {''addr'', ''read_header_timeout'', ''offline_after'', ''monitor_interval''}" for key v sec c
    using config_value_line [of key v sec c] that by (auto simp: graphic_def)
  have sec: "sched_config_line (dropCR s) (old, c) = Inr (butlast s, c)" if "s \<in> {''server:'', ''grpc:'', ''scheduler:''}" for s old c
    using config_section_line [of "butlast s" old c] that by (auto simp: graphic_def)
  show ?thesis
    unfolding sched_loadConfig.simps lines unfolding form_lines_def
    by (simp add: config_lines_short short line sec config_empty_line assms applyConfigValue_def defaultConfig_def
        del: sched_config_lines.simps(2))
qed

text \<open>
  C40. Every configuration whose addresses can be written in quotes and whose durations are not negative survives being
  written in the form of \<open>config.yaml\<close> and loaded: \<open>loadConfig\<close> returns it unchanged, with every section, key and duration
  read back.
\<close>

theorem config_roundtrip:
  assumes "sched_config_ok cfg"
  shows "sched_loadConfig (FileText (config_text cfg) False) = Inr cfg"
proof -
  have "time_ParseDuration (ns_text d) = Some d" if "storable d" for d
    using ParseDuration_ns [of "nat d"] that by (simp add: ns_text_def storable_def nat_less_iff)
  with assms show ?thesis
    unfolding config_text_def sched_config_ok_def by (subst form_loads) (auto simp: quotable_ns)
qed

theorem config_roundtrip_witness:
  "sched_config_ok defaultConfig \<and> sched_loadConfig (FileText (config_text defaultConfig) False) = Inr defaultConfig"
proof -
  have "sched_config_ok defaultConfig" by (simp add: sched_config_ok_def defaultConfig_def quotable_def storable_def)
  with config_roundtrip show ?thesis by simp
qed

text \<open>Units, signs, fractions and the limits of 64 bits.\<close>

lemmas duration_eval = time_ParseDuration_def duration_sum.simps duration_item_def number_start_def is_digit_def
  digit_val_def unitMap_def Let_def fraction_ns_def float64_def scaled_def round_even_def bit_len.simps

lemma ParseDuration_examples:
  "time_ParseDuration ''5s'' = Some (5 * second)" "time_ParseDuration ''30s'' = Some (30 * second)"
  "time_ParseDuration ''1h30m'' = Some (5400 * second)" "time_ParseDuration ''1.5h'' = Some (5400 * second)"
  "time_ParseDuration ''-0.3s'' = Some (- 300000000)" "time_ParseDuration ''+0'' = Some 0"
  "time_ParseDuration ''5'' = None" "time_ParseDuration ''.s'' = None"
  "time_ParseDuration ''9223372036854775807ns'' = Some (2 ^ 63 - 1)"
  "time_ParseDuration ''9223372036854775808ns'' = None"
  "time_ParseDuration ''-9223372036854775808ns'' = Some (- (2 ^ 63))"
  by (simp_all add: duration_eval)

text \<open>The shipped \<open>scheduler/config/config.yaml\<close> says what the defaults say.\<close>

lemma shipped_config_is_default:
  "sched_loadConfig (FileText (form_text (form_lines '':8080'' ''5s'' '':9090'' ''30s'' ''5s'')) False) = Inr defaultConfig"
  by (subst form_loads) (simp_all add: quotable_def ParseDuration_examples defaultConfig_def)

text \<open>The lines up to the first one that is rejected, and its number.\<close>

lemma config_lines_error:
  "sched_config_lines n ls st = Inl (LineError m e) \<Longrightarrow>
   \<exists>good bad rest sec cfg. ls = good @ bad # rest \<and> m = Suc (n + length good) \<and>
     sched_config_lines n good st = Inr cfg \<and> sched_config_line (dropCR bad) (sec, cfg) = Inl e"
proof (induction ls arbitrary: n st)
  case (Cons line ls)
  show ?case
  proof (cases "sched_config_line (dropCR line) st")
    case (Inl e')
    with Cons.prems have "m = Suc n" "e' = e" by (auto split: if_splits)
    with Inl show ?thesis
      by (intro exI [of _ "[]"] exI [of _ line] exI [of _ ls] exI [of _ "fst st"] exI [of _ "snd st"]) simp
  next
    case (Inr st1)
    with Cons.prems have len: "length line < MaxScanTokenSize"
      and rest: "sched_config_lines (Suc n) ls st1 = Inl (LineError m e)" by (auto split: if_splits)
    from Cons.IH [OF rest] obtain good bad rest sec cfg where
      "ls = good @ bad # rest" "m = Suc (Suc n + length good)"
      "sched_config_lines (Suc n) good st1 = Inr cfg" "sched_config_line (dropCR bad) (sec, cfg) = Inl e" by blast
    with Inr len show ?thesis
      by (intro exI [of _ "line # good"] exI [of _ bad] exI [of _ rest] exI [of _ sec] exI [of _ cfg]) simp
  qed
qed simp

text \<open>
  The error of a rejected file names the first line that is rejected: the lines before it load on their own, and
  nothing of the file is kept.
\<close>

theorem config_error_names_first_bad_line:
  assumes "sched_loadConfig (FileText text broken) = Inl (LineError m e)"
  shows "\<exists>good bad rest sec cfg. getlines text = good @ bad # rest \<and> m = Suc (length good) \<and>
    sched_config_lines 0 good ([], defaultConfig) = Inr cfg \<and> sched_config_line (dropCR bad) (sec, cfg) = Inl e"
proof -
  have "sched_config_lines 0 (getlines text) ([], defaultConfig) = Inl (LineError m e)"
    using assms by (auto split: sum.splits if_splits)
  from config_lines_error [OF this] show ?thesis by simp
qed

text \<open>The environment overrides the addresses of the file and nothing else.\<close>

lemma Run_setup_overrides:
  assumes "sched_loadConfig (files (configPath getenv)) = Inr cfg"
  obtains su where "Run_setup getenv files = Inr su"
    "su_http_addr su = (if getenv ''SCHEDULER_ADDR'' = [] then cfg_Addr (cfg_Server cfg) else getenv ''SCHEDULER_ADDR'')"
    "su_grpc_addr su = (if getenv ''SCHEDULER_GRPC_ADDR'' = [] then cfg_GRPCAddr (cfg_GRPC cfg) else getenv ''SCHEDULER_GRPC_ADDR'')"
    "sch_offlineAfter (su_dispatcher su) = cfg_OfflineAfter (cfg_Scheduler cfg)"
    "su_registry_offlineAfter su = sch_offlineAfter (su_dispatcher su)"
    "0 < su_checker_interval su" "su_deliverer_interval su = 300000000"
  using assms by (simp add: Run_setup_def Let_def NewChecker_interval_def NewAssignmentDeliverer_interval_def)

end
