(* ===== verification/Sched_Logger.thy ===== *)
theory Sched_Logger
  imports Rdma_Prelude
begin

text \<open>
  The logger of the scheduler (\<open>scheduler/Logger/logger.go\<close>), a handler for Go's \<open>slog\<close> that writes one coloured line per record. Levels are
  integers, as in \<open>slog\<close>. A record has its time broken down, the file and line of the caller, and its attributes with their values in the form \<open>%v\<close>
  gives them. The writer is the bytes it has taken; whether a write succeeds is an argument.
\<close>

section \<open>Levels and colours\<close>

type_synonym slog_level = int

definition LevelDebug :: slog_level where "LevelDebug = -4"
definition LevelInfo :: slog_level where "LevelInfo = 0"
definition LevelWarn :: slog_level where "LevelWarn = 4"
definition LevelError :: slog_level where "LevelError = 8"

lemmas slog_levels = LevelDebug_def LevelInfo_def LevelWarn_def LevelError_def

datatype Color = Reset | Red | Green | Yellow | Blue | Magenta

definition ESC :: char where
  "ESC = CHR 0x1B"

fun Color_text :: "Color \<Rightarrow> string" where
  "Color_text Reset = ESC # ''[0m''"
| "Color_text Red = ESC # ''[1;31m''"
| "Color_text Green = ESC # ''[1;32m''"
| "Color_text Yellow = ESC # ''[1;33m''"
| "Color_text Blue = ESC # ''[1;34m''"
| "Color_text Magenta = ESC # ''[1;35m''"

definition logLevelColorMap :: "(slog_level \<times> Color) list" where
  "logLevelColorMap = [(LevelDebug, Blue), (LevelInfo, Green), (LevelWarn, Magenta), (LevelError, Red)]"

definition level_color :: "slog_level \<Rightarrow> Color" where
  "level_color level = (case map_of logLevelColorMap level of None \<Rightarrow> Reset | Some color \<Rightarrow> color)"

text \<open>\<open>Level.String\<close>: the name of the level below, and the distance from it.\<close>

definition signed_text :: "int \<Rightarrow> string" where
  "signed_text i = (if i < 0 then ''-'' else ''+'') @ to_string (nat \<bar>i\<bar>)"

definition level_text :: "string \<Rightarrow> int \<Rightarrow> string" where
  "level_text base i = (if i = 0 then base else base @ signed_text i)"

definition Level_String :: "slog_level \<Rightarrow> string" where
  "Level_String l =
     (if l < LevelInfo then level_text ''DEBUG'' (l - LevelDebug)
      else if l < LevelWarn then level_text ''INFO'' (l - LevelInfo)
      else if l < LevelError then level_text ''WARN'' (l - LevelWarn)
      else level_text ''ERROR'' (l - LevelError))"

section \<open>Records\<close>

record slog_time =
  st_year :: nat
  st_month :: nat
  st_day :: nat
  st_hour :: nat
  st_minute :: nat
  st_second :: nat
  st_milli :: nat

record slog_record =
  rec_Time :: slog_time
  rec_Level :: slog_level
  rec_File :: string
  rec_Line :: nat
  rec_Message :: string
  rec_Attrs :: "(string \<times> string) list"

definition padded :: "nat \<Rightarrow> nat \<Rightarrow> string" where
  "padded width n = replicate (width - length (to_string n)) (CHR ''0'') @ to_string n"

text \<open>\<open>Time.Format\<close> with the layout \<open>2006-01-02 15:04:05.000\<close>.\<close>

definition Time_Format :: "slog_time \<Rightarrow> string" where
  "Time_Format t =
     padded 4 (st_year t) @ ''-'' @ padded 2 (st_month t) @ ''-'' @ padded 2 (st_day t) @ '' '' @
     padded 2 (st_hour t) @ '':'' @ padded 2 (st_minute t) @ '':'' @ padded 2 (st_second t) @ ''.'' @ padded 3 (st_milli t)"

text \<open>\<open>filepath.Base\<close>: slashes at the end go, then everything up to the last slash.\<close>

definition filepath_Base :: "string \<Rightarrow> string" where
  "filepath_Base path =
     (if path = [] then ''.''
      else let base = rev (takeWhile (\<lambda>c. c \<noteq> CHR ''/'') (dropWhile (\<lambda>c. c = CHR ''/'') (rev path)))
           in if base = [] then ''/'' else base)"

section \<open>The handler\<close>

text \<open>The embedded text handler keeps the level, the attributes of \<open>WithAttrs\<close> and the groups of \<open>WithGroup\<close>.\<close>

record ColoredHandler =
  ch_level :: slog_level
  ch_attrs :: "(string \<times> string) list"
  ch_groups :: "string list"

definition NewColoredHandler :: "slog_level \<Rightarrow> ColoredHandler" where
  "NewColoredHandler level = \<lparr>ch_level = level, ch_attrs = [], ch_groups = []\<rparr>"

definition WithAttrs :: "(string \<times> string) list \<Rightarrow> ColoredHandler \<Rightarrow> ColoredHandler" where
  "WithAttrs attrs h = h\<lparr>ch_attrs := ch_attrs h @ attrs\<rparr>"

definition WithGroup :: "string \<Rightarrow> ColoredHandler \<Rightarrow> ColoredHandler" where
  "WithGroup name h = h\<lparr>ch_groups := ch_groups h @ [name]\<rparr>"

definition attr_text :: "string \<times> string \<Rightarrow> string" where
  "attr_text attr = '' '' @ fst attr @ ''='' @ snd attr"

definition handler_line :: "slog_record \<Rightarrow> string" where
  "handler_line r =
     (let color = Color_text (level_color (rec_Level r));
          levelStr = ''['' @ color @ Level_String (rec_Level r) @ Color_text Reset @ '']'';
          source = filepath_Base (rec_File r) @ '':'' @ to_string (rec_Line r);
          sourceStr = ''['' @ Color_text Yellow @ source @ Color_text Reset @ '']'';
          messageStr = color @ rec_Message r @ Color_text Reset
      in Time_Format (rec_Time r) @ '' '' @ levelStr @ '' '' @ sourceStr @ '' '' @ messageStr @
         concat (map attr_text (rec_Attrs r)) @ [NL])"

definition ColoredHandler_Handle :: "bool \<Rightarrow> ColoredHandler \<Rightarrow> slog_record \<Rightarrow> string \<Rightarrow> bool \<times> string" where
  "ColoredHandler_Handle write_ok h r out = (if write_ok then (True, out @ handler_line r) else (False, out))"

text \<open>A logger asks the handler whether the level is enabled and drops the error of \<open>Handle\<close>. \<open>Fatal\<close> logs an error and panics: the
  second component.\<close>

definition Logger_log :: "bool \<Rightarrow> ColoredHandler \<Rightarrow> slog_record \<Rightarrow> string \<Rightarrow> string" where
  "Logger_log write_ok h r out = (if ch_level h \<le> rec_Level r then snd (ColoredHandler_Handle write_ok h r out) else out)"

definition Log :: ColoredHandler where
  "Log = NewColoredHandler LevelInfo"

definition Logger_Fatal :: "bool \<Rightarrow> ColoredHandler \<Rightarrow> slog_record \<Rightarrow> string \<Rightarrow> string \<times> string" where
  "Logger_Fatal write_ok h r out = (Logger_log write_ok h (r\<lparr>rec_Level := LevelError\<rparr>) out, ''FATAL'')"

section \<open>Properties\<close>

text \<open>What \<open>With\<close> and \<open>WithGroup\<close> add to a logger is never written.\<close>

lemma with_is_lost:
  "Logger_log ok (WithAttrs attrs h) r out = Logger_log ok h r out"
  "Logger_log ok (WithGroup name h) r out = Logger_log ok h r out"
  by (simp_all add: Logger_log_def ColoredHandler_Handle_def WithAttrs_def WithGroup_def)

lemma to_string_line: "NL \<notin> set (to_string n)"
  using to_string_digits [of n] by (auto simp: is_digit_def)

lemma padded_line: "NL \<notin> set (padded w n)"
  using to_string_line by (auto simp: padded_def)

lemma Color_text_line: "NL \<notin> set (Color_text c)"
  by (cases c) (simp_all add: ESC_def)

lemma Level_String_line: "NL \<notin> set (Level_String l)"
  using to_string_line by (auto simp: Level_String_def level_text_def signed_text_def)

lemma filepath_Base_line: "NL \<notin> set path \<Longrightarrow> NL \<notin> set (filepath_Base path)"
  by (auto simp: filepath_Base_def Let_def dest!: set_takeWhileD set_dropWhileD [of _ _ "rev path"])

text \<open>
  A record is one line exactly if its message, its file and its attributes have no line feed: nothing is quoted or escaped.
\<close>

theorem record_is_one_line:
  assumes "NL \<notin> set (rec_File r)"
  shows "count_list (handler_line r) NL = 1 \<longleftrightarrow>
    NL \<notin> set (rec_Message r) \<and> (\<forall>(key, val) \<in> set (rec_Attrs r). NL \<notin> set key \<and> NL \<notin> set val)"
proof -
  have zero: "count_list xs NL = 0 \<longleftrightarrow> NL \<notin> set xs" for xs by (rule count_list_0_iff)
  have attrs: "count_list (concat (map attr_text as)) NL = 0 \<longleftrightarrow> (\<forall>(key, val) \<in> set as. NL \<notin> set key \<and> NL \<notin> set val)" for as
    by (auto simp: zero attr_text_def)
  have "count_list (handler_line r) NL = count_list (rec_Message r) NL + count_list (concat (map attr_text (rec_Attrs r))) NL + 1"
    using Color_text_line Level_String_line padded_line to_string_line filepath_Base_line [OF assms]
    by (simp add: handler_line_def Let_def Time_Format_def ESC_def)
  then show ?thesis using attrs zero by simp
qed

end
