(* ===== verification/Sched_Program.thy ===== *)
theory Sched_Program
  imports Sched_Config Sched_Logger
begin

text \<open>
  The scheduler's program (\<open>Run\<close> in \<open>scheduler/cmd/server.go\<close> and \<open>scheduler/main.go\<close>): what it starts, in which order, and how it ends. The
  environment, the configuration file, the result of listening for gRPC and the value the two servers' goroutines put first into the error
  channel are arguments; the servers themselves are the calls of \<open>Sched_Api\<close> and \<open>Sched_Grpc\<close>.
\<close>

section \<open>Run\<close>

datatype run_error =
    ConfigError config_error
  | GrpcListenError string string
  | ServeError string

text \<open>What \<open>Run\<close> does that the rest of the program can see. The two servers' goroutines run once \<open>Serving\<close> is reached.\<close>

datatype run_event =
    StartChecker duration
  | StartDeliverer duration
  | Listening string
  | InfoLogged string string
  | Serving string string

text \<open>\<open>Run\<close> waits on the error channel until a server has ended; \<open>None\<close>: none has.\<close>

datatype run_result = Waiting | Returned "run_error option"

definition Run ::
    "(string \<Rightarrow> string) \<Rightarrow> (string \<Rightarrow> config_file) \<Rightarrow> (string \<Rightarrow> string option) \<Rightarrow> string option option \<Rightarrow> run_event list \<times> run_result" where
  "Run getenv files listen errCh =
     (case Run_setup getenv files of
        Inl e \<Rightarrow> ([], Returned (Some (ConfigError e)))
      | Inr su \<Rightarrow>
          (let started = [StartChecker (su_checker_interval su), StartDeliverer (su_deliverer_interval su)]
           in case listen (su_grpc_addr su) of
                Some e \<Rightarrow> (started, Returned (Some (GrpcListenError (su_grpc_addr su) e)))
              | None \<Rightarrow>
                  (started @
                     [Listening (su_grpc_addr su), InfoLogged ''scheduler http listening'' (su_http_addr su),
                      InfoLogged ''scheduler grpc listening'' (su_grpc_addr su), Serving (su_grpc_addr su) (su_http_addr su)],
                   case errCh of
                     None \<Rightarrow> Waiting
                   | Some e \<Rightarrow> Returned (map_option ServeError e))))"

text \<open>\<open>main\<close>: still running, ended, or panicked, with the error it has logged.\<close>

datatype main_result = Main_Running | Main_Ended | Main_Panicked run_error

definition sched_main ::
    "(string \<Rightarrow> string) \<Rightarrow> (string \<Rightarrow> config_file) \<Rightarrow> (string \<Rightarrow> string option) \<Rightarrow> string option option \<Rightarrow> run_event list \<times> main_result" where
  "sched_main getenv files listen errCh =
     (case Run getenv files listen errCh of
        (events, Waiting) \<Rightarrow> (events, Main_Running)
      | (events, Returned None) \<Rightarrow> (events, Main_Ended)
      | (events, Returned (Some e)) \<Rightarrow> (events, Main_Panicked e))"

text \<open>The record \<open>main\<close> logs before it panics; the text of the error, the time and the source line are the caller's.\<close>

definition fatal_record :: "slog_time \<Rightarrow> string \<Rightarrow> nat \<Rightarrow> string \<Rightarrow> slog_record" where
  "fatal_record now file line err =
     \<lparr>rec_Time = now, rec_Level = LevelError, rec_File = file, rec_Line = line, rec_Message = ''scheduler exited'', rec_Attrs = [(''err'', err)]\<rparr>"

section \<open>Properties\<close>

text \<open>The error that ends the program always passes the level of the global logger.\<close>

lemma fatal_is_logged:
  "Logger_Fatal True Log (fatal_record now file line err) out = (out @ handler_line (fatal_record now file line err), ''FATAL'')"
  by (simp add: Logger_Fatal_def Logger_log_def ColoredHandler_Handle_def Log_def NewColoredHandler_def fatal_record_def slog_levels)

text \<open>
  The end of the program: it serves exactly if the configuration can be loaded and the gRPC address be listened on, it then runs until one of the
  two servers ends, and it panics for every error and never otherwise.
\<close>

theorem scheduler_main_end:
  "case sched_main getenv files listen errCh of (events, result) \<Rightarrow>
     ((\<exists>g h. Serving g h \<in> set events) \<longleftrightarrow> (\<exists>su. Run_setup getenv files = Inr su \<and> listen (su_grpc_addr su) = None)) \<and>
     ((\<exists>g h. Serving g h \<in> set events) \<longrightarrow>
        result = (case errCh of None \<Rightarrow> Main_Running | Some None \<Rightarrow> Main_Ended | Some (Some e) \<Rightarrow> Main_Panicked (ServeError e))) \<and>
     ((\<nexists>g h. Serving g h \<in> set events) \<longrightarrow> (\<exists>e. result = Main_Panicked e))"
  by (cases "Run_setup getenv files")
    (auto simp: sched_main_def Run_def Let_def split: option.splits)

text \<open>
  The scheduler reports that it listens for HTTP before it does: with a configuration that loads and a gRPC address that is free, it
  logs \<open>scheduler http listening\<close> also when the HTTP address is taken and the server ends at once with that error.
\<close>

theorem listening_is_logged_before:
  assumes "Run_setup getenv files = Inr su" "listen (su_grpc_addr su) = None"
  shows "\<exists>events. sched_main getenv files listen (Some (Some e)) = (events, Main_Panicked (ServeError e)) \<and>
    InfoLogged ''scheduler http listening'' (su_http_addr su) \<in> set events"
  using assms by (simp add: sched_main_def Run_def Let_def)

end
