(* ===== verification/Tcp_Compare.thy ===== *)
theory Tcp_Compare
  imports Rdma_Prelude
begin

text \<open>
  The TCP comparison program (\<open>benchmark/tcp_compare.cpp\<close>): a client thread and a server thread of one process that send a payload forth and back over a
  loopback connection. Each call of \<open>send\<close> or \<open>recv\<close> is a step that moves at least one byte and at most what the caller wants, what is there and what
  the connection can hold. Measured times are left out.
\<close>

section \<open>The program\<close>

definition tcp_kRounds :: nat where "tcp_kRounds = 2000"
definition tcp_kPayloadBytes :: nat where "tcp_kPayloadBytes = 4 * 1024"

text \<open>\<open>SendAll\<close> and \<open>RecvAll\<close> on what the calls return one after the other; \<open>None\<close>: they have not returned yet. The counter is what was moved
  before.\<close>

fun SendAll :: "nat \<Rightarrow> nat \<Rightarrow> int list \<Rightarrow> bool option" where
  "SendAll moved bytes rcs =
     (if bytes \<le> moved then Some True
      else case rcs of
             [] \<Rightarrow> None
           | rc # rest \<Rightarrow> if rc \<le> 0 then Some False else SendAll (moved + nat rc) bytes rest)"

declare SendAll.simps [simp del]

definition RecvAll :: "nat \<Rightarrow> nat \<Rightarrow> int list \<Rightarrow> bool option" where
  "RecvAll = SendAll"

text \<open>The client: waiting for the server, creating its socket, connecting, sending or receiving in a round, joining the server with an exit code,
  returned, or killed by \<open>SIGPIPE\<close> with the whole process. The server: creating its socket, binding, accepting, in a round, at its end.\<close>

datatype tcp_client_pc =
    C_Ready
  | C_Socket
  | C_Connect
  | C_Send nat nat
  | C_Recv nat
  | C_Join int
  | C_Exit int
  | C_Killed

datatype tcp_server_pc =
    S_Socket
  | S_Bind
  | S_Accept
  | S_Recv nat
  | S_Send nat nat
  | S_Ended

text \<open>The promise; whether a connection waits to be accepted; the bytes under way to the server and to the client; the bytes each side
  has received in its round. The last field is history: whether a call has failed.\<close>

record tcp_state =
  tc_client :: tcp_client_pc
  tc_server :: tcp_server_pc
  tc_ready :: "bool option"
  tc_pending :: bool
  tc_up :: "nat list"
  tc_down :: "nat list"
  tc_buffer :: "nat list"
  tc_response :: "nat list"
  tc_failed :: bool

definition tcp_new :: tcp_state where
  "tcp_new = \<lparr>tc_client = C_Ready, tc_server = S_Socket, tc_ready = None, tc_pending = False, tc_up = [], tc_down = [],
     tc_buffer = [], tc_response = [], tc_failed = False\<rparr>"

definition tcp_payload :: "nat list" where
  "tcp_payload = replicate tcp_kPayloadBytes 0x2A"

text \<open>Where the threads are after a transfer.\<close>

definition client_sent :: "nat \<Rightarrow> nat \<Rightarrow> tcp_state \<Rightarrow> tcp_state" where
  "client_sent i moved s = (if moved < tcp_kPayloadBytes then s\<lparr>tc_client := C_Send i moved\<rparr> else s\<lparr>tc_client := C_Recv i, tc_response := []\<rparr>)"

definition client_received :: "nat \<Rightarrow> tcp_state \<Rightarrow> tcp_state" where
  "client_received i s =
     (if length (tc_response s) < tcp_kPayloadBytes then s
      else s\<lparr>tc_client := (if Suc i < tcp_kRounds then C_Send (Suc i) 0 else C_Join 0)\<rparr>)"

definition server_received :: "nat \<Rightarrow> tcp_state \<Rightarrow> tcp_state" where
  "server_received i s = (if length (tc_buffer s) < tcp_kPayloadBytes then s else s\<lparr>tc_server := S_Send i 0\<rparr>)"

definition server_sent :: "nat \<Rightarrow> nat \<Rightarrow> tcp_state \<Rightarrow> tcp_state" where
  "server_sent i moved s =
     (if moved < tcp_kPayloadBytes then s\<lparr>tc_server := S_Send i moved\<rparr>
      else if Suc i < tcp_kRounds then s\<lparr>tc_server := S_Recv (Suc i), tc_buffer := []\<rparr>
      else s\<lparr>tc_server := S_Ended\<rparr>)"

definition client_closed :: "tcp_state \<Rightarrow> bool" where
  "client_closed s \<longleftrightarrow> (\<exists>code. tc_client s = C_Join code \<or> tc_client s = C_Exit code)"

text \<open>The steps. With \<open>faults\<close> every call may fail at any time; without, a call fails only because the other side has closed: reading then gives no
  bytes, writing raises \<open>SIGPIPE\<close>. \<open>accept\<close> blocks until a connection waits.\<close>

inductive tcp_step :: "bool \<Rightarrow> nat \<Rightarrow> tcp_state \<Rightarrow> tcp_state \<Rightarrow> bool" for faults cap where
  s_socket: "tc_server s = S_Socket \<Longrightarrow> tcp_step faults cap s (s\<lparr>tc_server := S_Bind\<rparr>)"
| s_bind: "tc_server s = S_Bind \<Longrightarrow> tcp_step faults cap s (s\<lparr>tc_server := S_Accept, tc_ready := Some True\<rparr>)"
| s_start_fails: "faults \<Longrightarrow> tc_server s = S_Socket \<or> tc_server s = S_Bind \<Longrightarrow>
    tcp_step faults cap s (s\<lparr>tc_server := S_Ended, tc_ready := Some False, tc_failed := True\<rparr>)"
| s_accept: "tc_server s = S_Accept \<Longrightarrow> tc_pending s \<Longrightarrow>
    tcp_step faults cap s (s\<lparr>tc_server := S_Recv 0, tc_pending := False, tc_buffer := []\<rparr>)"
| s_accept_fails: "faults \<Longrightarrow> tc_server s = S_Accept \<Longrightarrow> tc_pending s \<Longrightarrow>
    tcp_step faults cap s (s\<lparr>tc_server := S_Ended, tc_failed := True\<rparr>)"
| s_recv: "tc_server s = S_Recv i \<Longrightarrow> 0 < k \<Longrightarrow> k \<le> length (tc_up s) \<Longrightarrow> k \<le> tcp_kPayloadBytes - length (tc_buffer s) \<Longrightarrow>
    tcp_step faults cap s (server_received i (s\<lparr>tc_buffer := tc_buffer s @ take k (tc_up s), tc_up := drop k (tc_up s)\<rparr>))"
| s_send: "tc_server s = S_Send i moved \<Longrightarrow> 0 < k \<Longrightarrow> k \<le> tcp_kPayloadBytes - moved \<Longrightarrow> k + length (tc_down s) \<le> cap \<Longrightarrow>
    tcp_step faults cap s (server_sent i (moved + k) (s\<lparr>tc_down := tc_down s @ take k (drop moved (tc_buffer s))\<rparr>))"
| s_end: "tc_server s = S_Recv i \<Longrightarrow> client_closed s \<Longrightarrow> tc_up s = [] \<Longrightarrow>
    tcp_step faults cap s (s\<lparr>tc_server := S_Ended, tc_failed := True\<rparr>)"
| s_fails: "faults \<Longrightarrow> tc_server s = S_Recv i \<or> tc_server s = S_Send i moved \<Longrightarrow>
    tcp_step faults cap s (s\<lparr>tc_server := S_Ended, tc_failed := True\<rparr>)"
| s_sigpipe: "tc_server s = S_Send i moved \<Longrightarrow> client_closed s \<Longrightarrow>
    tcp_step faults cap s (s\<lparr>tc_client := C_Killed, tc_server := S_Ended, tc_failed := True\<rparr>)"
| c_ready: "tc_client s = C_Ready \<Longrightarrow> tc_ready s = Some ok \<Longrightarrow>
    tcp_step faults cap s (s\<lparr>tc_client := (if ok then C_Socket else C_Join 1)\<rparr>)"
| c_socket: "tc_client s = C_Socket \<Longrightarrow> tcp_step faults cap s (s\<lparr>tc_client := C_Connect\<rparr>)"
| c_socket_fails: "faults \<Longrightarrow> tc_client s = C_Socket \<Longrightarrow> tcp_step faults cap s (s\<lparr>tc_client := C_Join 1, tc_failed := True\<rparr>)"
| c_connect: "tc_client s = C_Connect \<Longrightarrow> tc_server s = S_Accept \<Longrightarrow>
    tcp_step faults cap s (s\<lparr>tc_client := C_Send 0 0, tc_pending := True\<rparr>)"
| c_connect_fails: "faults \<or> tc_server s = S_Ended \<Longrightarrow> tc_client s = C_Connect \<Longrightarrow>
    tcp_step faults cap s (s\<lparr>tc_client := C_Join 1, tc_failed := True\<rparr>)"
| c_send: "tc_client s = C_Send i moved \<Longrightarrow> 0 < k \<Longrightarrow> k \<le> tcp_kPayloadBytes - moved \<Longrightarrow> k + length (tc_up s) \<le> cap \<Longrightarrow>
    tcp_step faults cap s (client_sent i (moved + k) (s\<lparr>tc_up := tc_up s @ take k (drop moved tcp_payload)\<rparr>))"
| c_recv: "tc_client s = C_Recv i \<Longrightarrow> 0 < k \<Longrightarrow> k \<le> length (tc_down s) \<Longrightarrow> k \<le> tcp_kPayloadBytes - length (tc_response s) \<Longrightarrow>
    tcp_step faults cap s (client_received i (s\<lparr>tc_response := tc_response s @ take k (tc_down s), tc_down := drop k (tc_down s)\<rparr>))"
| c_end: "tc_client s = C_Recv i \<Longrightarrow> tc_server s = S_Ended \<Longrightarrow> tc_down s = [] \<Longrightarrow>
    tcp_step faults cap s (s\<lparr>tc_client := C_Join 1, tc_failed := True\<rparr>)"
| c_fails: "faults \<Longrightarrow> tc_client s = C_Send i moved \<or> tc_client s = C_Recv i \<Longrightarrow>
    tcp_step faults cap s (s\<lparr>tc_client := C_Join 1, tc_failed := True\<rparr>)"
| c_sigpipe: "tc_client s = C_Send i moved \<Longrightarrow> tc_server s = S_Ended \<Longrightarrow>
    tcp_step faults cap s (s\<lparr>tc_client := C_Killed, tc_failed := True\<rparr>)"
| c_join: "tc_client s = C_Join code \<Longrightarrow> tc_server s = S_Ended \<Longrightarrow> tcp_step faults cap s (s\<lparr>tc_client := C_Exit code\<rparr>)"

section \<open>Transfers\<close>

text \<open>\<open>SendAll\<close> succeeds exactly if positive results add up to the bytes before any other result is seen.\<close>

lemma SendAll_moves:
  assumes "\<forall>rc \<in> set rcs. 0 < rc" "moved + nat (sum_list rcs) = bytes"
  shows "SendAll moved bytes (rcs @ rest) = Some True"
  using assms
proof (induction rcs arbitrary: moved)
  case (Cons rc rcs)
  then have pos: "0 < rc" "0 \<le> sum_list rcs" by (auto intro: sum_list_nonneg order_less_imp_le)
  then have "moved + nat rc + nat (sum_list rcs) = bytes" using Cons.prems(2) by (simp add: nat_add_distrib)
  from Cons.IH [OF _ this] show ?case using Cons.prems(1) pos(1) by (simp add: SendAll.simps [of moved])
qed (simp add: SendAll.simps)

lemma SendAll_fails:
  assumes "\<forall>rc \<in> set rcs. 0 < rc" "moved + nat (sum_list rcs) < bytes" "rc \<le> 0"
  shows "SendAll moved bytes (rcs @ rc # rest) = Some False"
  using assms
proof (induction rcs arbitrary: moved)
  case (Cons r rcs)
  then have pos: "0 < r" "0 \<le> sum_list rcs" by (auto intro: sum_list_nonneg order_less_imp_le)
  then have "moved + nat r + nat (sum_list rcs) < bytes" using Cons.prems(2) by (simp add: nat_add_distrib)
  from Cons.IH [OF _ this] show ?case using Cons.prems pos by (simp add: SendAll.simps [of moved])
qed (simp add: SendAll.simps)

section \<open>Every run ends\<close>

text \<open>The counters stay below their bounds.\<close>

fun client_range :: "tcp_client_pc \<Rightarrow> nat \<Rightarrow> bool" where
  "client_range (C_Send i moved) n \<longleftrightarrow> i < tcp_kRounds \<and> moved < tcp_kPayloadBytes"
| "client_range (C_Recv i) n \<longleftrightarrow> i < tcp_kRounds \<and> n < tcp_kPayloadBytes"
| "client_range _ n \<longleftrightarrow> True"

fun server_range :: "tcp_server_pc \<Rightarrow> nat \<Rightarrow> bool" where
  "server_range (S_Recv i) n \<longleftrightarrow> i < tcp_kRounds \<and> n < tcp_kPayloadBytes"
| "server_range (S_Send i moved) n \<longleftrightarrow> i < tcp_kRounds \<and> moved < tcp_kPayloadBytes \<and> n = tcp_kPayloadBytes"
| "server_range _ n \<longleftrightarrow> True"

definition range_ok :: "tcp_state \<Rightarrow> bool" where
  "range_ok s \<longleftrightarrow> client_range (tc_client s) (length (tc_response s)) \<and> server_range (tc_server s) (length (tc_buffer s))"

lemmas transfer_defs = client_sent_def client_received_def server_received_def server_sent_def

lemma tcp_step_range: "tcp_step faults cap s s' \<Longrightarrow> range_ok s \<Longrightarrow> range_ok s'"
  by (induction rule: tcp_step.induct)
    (auto simp: range_ok_def transfer_defs tcp_kPayloadBytes_def tcp_kRounds_def)

text \<open>How far the threads have come.\<close>

fun client_position :: "tcp_client_pc \<Rightarrow> nat \<Rightarrow> nat" where
  "client_position C_Ready n = 0"
| "client_position C_Socket n = 1"
| "client_position C_Connect n = 2"
| "client_position (C_Send i moved) n = 3 + 2 * i * tcp_kPayloadBytes + moved"
| "client_position (C_Recv i) n = 3 + 2 * i * tcp_kPayloadBytes + tcp_kPayloadBytes + n"
| "client_position (C_Join code) n = 4 + 2 * tcp_kRounds * tcp_kPayloadBytes"
| "client_position (C_Exit code) n = 5 + 2 * tcp_kRounds * tcp_kPayloadBytes"
| "client_position C_Killed n = 6 + 2 * tcp_kRounds * tcp_kPayloadBytes"

fun server_position :: "tcp_server_pc \<Rightarrow> nat \<Rightarrow> nat" where
  "server_position S_Socket n = 0"
| "server_position S_Bind n = 1"
| "server_position S_Accept n = 2"
| "server_position (S_Recv i) n = 3 + 2 * i * tcp_kPayloadBytes + n"
| "server_position (S_Send i moved) n = 3 + 2 * i * tcp_kPayloadBytes + tcp_kPayloadBytes + moved"
| "server_position S_Ended n = 4 + 2 * tcp_kRounds * tcp_kPayloadBytes"

definition tcp_position :: "tcp_state \<Rightarrow> nat" where
  "tcp_position s = client_position (tc_client s) (length (tc_response s)) + server_position (tc_server s) (length (tc_buffer s))"

definition tcp_weight :: "tcp_state \<Rightarrow> nat" where
  "tcp_weight s = 10 + 4 * tcp_kRounds * tcp_kPayloadBytes - tcp_position s"

lemma position_bounded: "range_ok s \<Longrightarrow> tcp_position s \<le> 10 + 4 * tcp_kRounds * tcp_kPayloadBytes"
  by (cases "tc_client s"; cases "tc_server s") (simp_all add: range_ok_def tcp_position_def tcp_kRounds_def tcp_kPayloadBytes_def)

lemma tcp_step_moves: "tcp_step faults cap s s' \<Longrightarrow> range_ok s \<Longrightarrow> tcp_position s < tcp_position s'"
  by (induction rule: tcp_step.induct)
    (auto simp: tcp_position_def range_ok_def transfer_defs client_closed_def tcp_kRounds_def tcp_kPayloadBytes_def)

lemma tcp_step_weight:
  assumes "tcp_step faults cap s s'" "range_ok s"
  shows "tcp_weight s' < tcp_weight s"
  using tcp_step_moves [OF assms] position_bounded [OF tcp_step_range [OF assms]] unfolding tcp_weight_def by linarith

section \<open>What the threads know of each other\<close>

text \<open>The phases of a run, failures included.\<close>

definition before_connect :: "tcp_client_pc \<Rightarrow> bool" where
  "before_connect c \<longleftrightarrow> c = C_Ready \<or> c = C_Socket \<or> c = C_Connect"

definition ready_ok :: "tcp_state \<Rightarrow> bool" where
  "ready_ok s \<longleftrightarrow>
     (tc_ready s = None \<longleftrightarrow> tc_server s = S_Socket \<or> tc_server s = S_Bind) \<and> (tc_ready s = Some False \<longrightarrow> tc_server s = S_Ended \<and> tc_failed s) \<and>
     (tc_ready s = None \<longrightarrow> tc_client s = C_Ready)"

definition connect_ok :: "tcp_state \<Rightarrow> bool" where
  "connect_ok s \<longleftrightarrow>
     (before_connect (tc_client s) \<longrightarrow>
        \<not> tc_pending s \<and> (tc_server s = S_Socket \<or> tc_server s = S_Bind \<or> tc_server s = S_Accept \<or> tc_server s = S_Ended)) \<and>
     (tc_server s = S_Accept \<longrightarrow> \<not> before_connect (tc_client s) \<longrightarrow> tc_pending s \<or> tc_client s = C_Join 1)"

definition failed_ok :: "tcp_state \<Rightarrow> bool" where
  "failed_ok s \<longleftrightarrow> (tc_failed s \<longrightarrow> client_closed s \<or> tc_server s = S_Ended)"

definition exit_ok :: "tcp_state \<Rightarrow> bool" where
  "exit_ok s \<longleftrightarrow> (tc_client s = C_Killed \<or> (\<exists>code. tc_client s = C_Exit code) \<longrightarrow> tc_server s = S_Ended)"

lemma tcp_step_ready: "tcp_step faults cap s s' \<Longrightarrow> ready_ok s \<Longrightarrow> ready_ok s'"
  by (induction rule: tcp_step.induct) (auto simp: ready_ok_def transfer_defs)

lemma tcp_step_exit: "tcp_step faults cap s s' \<Longrightarrow> exit_ok s \<Longrightarrow> exit_ok s'"
  by (induction rule: tcp_step.induct) (auto simp: exit_ok_def transfer_defs)

lemma tcp_step_failed: "tcp_step faults cap s s' \<Longrightarrow> failed_ok s \<Longrightarrow> failed_ok s'"
  by (induction rule: tcp_step.induct) (auto simp: failed_ok_def client_closed_def transfer_defs)

lemma tcp_step_connect: "tcp_step faults cap s s' \<Longrightarrow> connect_ok s \<Longrightarrow> ready_ok s \<Longrightarrow> connect_ok s'"
  by (induction rule: tcp_step.induct) (auto simp: connect_ok_def ready_ok_def before_connect_def transfer_defs)

section \<open>What is under way\<close>

text \<open>How many bytes each side has sent and received in all.\<close>

fun client_out :: "tcp_client_pc \<Rightarrow> nat" where
  "client_out (C_Send i moved) = i * tcp_kPayloadBytes + moved"
| "client_out (C_Recv i) = Suc i * tcp_kPayloadBytes"
| "client_out (C_Join code) = tcp_kRounds * tcp_kPayloadBytes"
| "client_out (C_Exit code) = tcp_kRounds * tcp_kPayloadBytes"
| "client_out _ = 0"

fun client_in :: "tcp_client_pc \<Rightarrow> nat \<Rightarrow> nat" where
  "client_in (C_Send i moved) n = i * tcp_kPayloadBytes"
| "client_in (C_Recv i) n = i * tcp_kPayloadBytes + n"
| "client_in (C_Join code) n = tcp_kRounds * tcp_kPayloadBytes"
| "client_in (C_Exit code) n = tcp_kRounds * tcp_kPayloadBytes"
| "client_in _ n = 0"

fun server_in :: "tcp_server_pc \<Rightarrow> nat \<Rightarrow> nat" where
  "server_in (S_Recv i) n = i * tcp_kPayloadBytes + n"
| "server_in (S_Send i moved) n = Suc i * tcp_kPayloadBytes"
| "server_in S_Ended n = tcp_kRounds * tcp_kPayloadBytes"
| "server_in _ n = 0"

fun server_out :: "tcp_server_pc \<Rightarrow> nat" where
  "server_out (S_Recv i) = i * tcp_kPayloadBytes"
| "server_out (S_Send i moved) = i * tcp_kPayloadBytes + moved"
| "server_out S_Ended = tcp_kRounds * tcp_kPayloadBytes"
| "server_out _ = 0"

definition up_ok :: "tcp_state \<Rightarrow> bool" where
  "up_ok s \<longleftrightarrow> (\<not> tc_failed s \<longrightarrow> client_out (tc_client s) = server_in (tc_server s) (length (tc_buffer s)) + length (tc_up s))"

definition down_ok :: "tcp_state \<Rightarrow> bool" where
  "down_ok s \<longleftrightarrow> (\<not> tc_failed s \<longrightarrow> server_out (tc_server s) = client_in (tc_client s) (length (tc_response s)) + length (tc_down s))"

lemma tcp_step_up: "tcp_step faults cap s s' \<Longrightarrow> up_ok s \<Longrightarrow> range_ok s \<Longrightarrow> ready_ok s \<Longrightarrow> up_ok s'"
  by (induction rule: tcp_step.induct)
    (auto simp: up_ok_def range_ok_def ready_ok_def transfer_defs tcp_payload_def tcp_kRounds_def tcp_kPayloadBytes_def)

lemma tcp_step_down: "tcp_step faults cap s s' \<Longrightarrow> down_ok s \<Longrightarrow> range_ok s \<Longrightarrow> ready_ok s \<Longrightarrow> down_ok s'"
  by (induction rule: tcp_step.induct)
    (auto simp: down_ok_def range_ok_def ready_ok_def transfer_defs tcp_kRounds_def tcp_kPayloadBytes_def)

text \<open>All bytes are the payload's, and a client that is done without a failure has a whole response.\<close>

definition bytes_ok :: "tcp_state \<Rightarrow> bool" where
  "bytes_ok s \<longleftrightarrow> set (tc_up s) \<union> set (tc_down s) \<union> set (tc_buffer s) \<union> set (tc_response s) \<subseteq> {0x2A}"

lemma tcp_step_bytes: "tcp_step faults cap s s' \<Longrightarrow> bytes_ok s \<Longrightarrow> bytes_ok s'"
  by (induction rule: tcp_step.induct)
    (auto simp: bytes_ok_def transfer_defs tcp_payload_def dest!: in_set_takeD in_set_dropD)

definition done_ok :: "tcp_state \<Rightarrow> bool" where
  "done_ok s \<longleftrightarrow>
     (\<not> tc_failed s \<longrightarrow>
        tc_client s \<noteq> C_Killed \<and>
        (\<forall>code. tc_client s = C_Join code \<or> tc_client s = C_Exit code \<longrightarrow> code = 0 \<and> length (tc_response s) = tcp_kPayloadBytes))"

lemma tcp_step_done: "tcp_step faults cap s s' \<Longrightarrow> done_ok s \<Longrightarrow> range_ok s \<Longrightarrow> ready_ok s \<Longrightarrow> done_ok s'"
  by (induction rule: tcp_step.induct) (auto simp: done_ok_def range_ok_def ready_ok_def transfer_defs)

definition tcp_inv :: "tcp_state \<Rightarrow> bool" where
  "tcp_inv s \<longleftrightarrow> range_ok s \<and> ready_ok s \<and> connect_ok s \<and> failed_ok s \<and> exit_ok s \<and> up_ok s \<and> down_ok s \<and> bytes_ok s \<and> done_ok s"

lemma tcp_step_inv:
  assumes "tcp_step faults cap s s'" "tcp_inv s"
  shows "tcp_inv s'"
  using assms(2) tcp_step_range [OF assms(1)] tcp_step_ready [OF assms(1)] tcp_step_connect [OF assms(1)] tcp_step_failed [OF assms(1)]
    tcp_step_exit [OF assms(1)] tcp_step_up [OF assms(1)] tcp_step_down [OF assms(1)] tcp_step_bytes [OF assms(1)] tcp_step_done [OF assms(1)]
  by (simp add: tcp_inv_def)

lemma tcp_run_inv: "(tcp_step faults cap)\<^sup>*\<^sup>* tcp_new s \<Longrightarrow> tcp_inv s"
proof (induction rule: rtranclp_induct)
  case base
  then show ?case
    by (simp add: tcp_inv_def tcp_new_def range_ok_def ready_ok_def connect_ok_def failed_ok_def exit_ok_def up_ok_def down_ok_def bytes_ok_def
        done_ok_def)
qed (rule tcp_step_inv)

text \<open>Without faults nothing fails.\<close>

lemma tcp_step_sound:
  assumes "tcp_step False cap s s'" "tcp_inv s" "\<not> tc_failed s"
  shows "\<not> tc_failed s'"
proof -
  have flow: "client_out (tc_client s) = server_in (tc_server s) (length (tc_buffer s)) + length (tc_up s)"
    "server_out (tc_server s) = client_in (tc_client s) (length (tc_response s)) + length (tc_down s)" and range: "range_ok s"
    using assms(2,3) by (simp_all add: tcp_inv_def up_ok_def down_ok_def)
  from assms(1) show ?thesis
    by (cases rule: tcp_step.cases)
      (use assms(3) flow range in \<open>auto simp: range_ok_def client_closed_def transfer_defs tcp_kRounds_def tcp_kPayloadBytes_def\<close>)
qed

section \<open>Progress\<close>

lemma client_can_send:
  assumes "tc_client s = C_Send i moved" "range_ok s" "length (tc_up s) < cap"
  shows "\<exists>s'. tcp_step faults cap s s'"
  by (rule exI, rule tcp_step.c_send [OF assms(1), of 1]) (use assms(2,3) in \<open>auto simp: range_ok_def assms(1) Suc_le_eq\<close>)

lemma client_can_receive:
  assumes "tc_client s = C_Recv i" "range_ok s" "tc_down s \<noteq> []"
  shows "\<exists>s'. tcp_step faults cap s s'"
  by (rule exI, rule tcp_step.c_recv [OF assms(1), of 1]) (use assms(2,3) in \<open>auto simp: range_ok_def assms(1) Suc_le_eq\<close>)

lemma server_can_receive:
  assumes "tc_server s = S_Recv i" "range_ok s" "tc_up s \<noteq> []"
  shows "\<exists>s'. tcp_step faults cap s s'"
  by (rule exI, rule tcp_step.s_recv [OF assms(1), of 1]) (use assms(2,3) in \<open>auto simp: range_ok_def assms(1) Suc_le_eq\<close>)

lemma server_can_send:
  assumes "tc_server s = S_Send i moved" "range_ok s" "length (tc_down s) < cap"
  shows "\<exists>s'. tcp_step faults cap s s'"
  by (rule exI, rule tcp_step.s_send [OF assms(1), of 1]) (use assms(2,3) in \<open>auto simp: range_ok_def assms(1) Suc_le_eq\<close>)

lemmas transfers_possible = client_can_send client_can_receive server_can_receive server_can_send

lemma rounds_cases:
  fixes i j b :: nat
  obtains "Suc i * b \<le> j * b" | "j * b = i * b" | "Suc j * b \<le> i * b"
  by (metis linorder_less_linear mult_le_mono1 Suc_leI)

lemma both_receive:
  assumes "tcp_inv s" "tc_client s = C_Recv i" "tc_server s = S_Recv j" "tc_up s = []"
  shows "tc_down s \<noteq> []"
proof
  assume down: "tc_down s = []"
  have "\<not> tc_failed s" using assms(1-3) by (simp add: tcp_inv_def failed_ok_def client_closed_def)
  then have "Suc i * 4096 = j * 4096 + length (tc_buffer s)" "j * 4096 = i * 4096 + length (tc_response s)"
    "length (tc_buffer s) < 4096" "length (tc_response s) < 4096"
    using assms down by (auto simp: tcp_inv_def up_ok_def down_ok_def range_ok_def tcp_kPayloadBytes_def)
  then show False by (cases rule: rounds_cases [of i 4096 j]) simp_all
qed

lemma both_send:
  assumes "tcp_inv s" "tc_client s = C_Send i m" "tc_server s = S_Send j m'"
  shows False
proof -
  have "\<not> tc_failed s" using assms by (simp add: tcp_inv_def failed_ok_def client_closed_def)
  then have "i * 4096 + m = Suc j * 4096 + length (tc_up s)" "j * 4096 + m' = i * 4096 + length (tc_down s)" "m < 4096" "m' < 4096"
    using assms by (auto simp: tcp_inv_def up_ok_def down_ok_def range_ok_def tcp_kPayloadBytes_def)
  then show False by (cases rule: rounds_cases [of i 4096 j]) simp_all
qed

text \<open>The one state in which the program hangs: the client gave up before it connected, the server waits for it.\<close>

definition hangs :: "tcp_state \<Rightarrow> bool" where
  "hangs s \<longleftrightarrow> tc_client s = C_Join 1 \<and> tc_server s = S_Accept \<and> \<not> tc_pending s"

definition returned :: "tcp_state \<Rightarrow> bool" where
  "returned s \<longleftrightarrow> tc_client s = C_Killed \<or> (\<exists>code. tc_client s = C_Exit code)"

lemma progress_setup:
  assumes "tcp_inv s" "tc_server s = S_Socket \<or> tc_server s = S_Bind \<or> tc_server s = S_Accept" "\<not> hangs s"
  shows "\<exists>s'. tcp_step False cap s s'"
proof (cases "tc_server s = S_Accept \<and> \<not> tc_pending s")
  case True
  then have ready: "tc_ready s = Some True" "before_connect (tc_client s)"
    using assms(1,3) by (auto simp: tcp_inv_def ready_ok_def connect_ok_def hangs_def)
  then show ?thesis
    using True tcp_step.c_ready [of s True False cap] tcp_step.c_socket [of s False cap] tcp_step.c_connect [of s False cap]
    by (auto simp: before_connect_def)
next
  case False
  then show ?thesis
    using assms(2) tcp_step.s_socket [of s False cap] tcp_step.s_bind [of s False cap] tcp_step.s_accept [of s False cap] by auto
qed

lemma progress_ended:
  assumes "tcp_inv s" "tc_server s = S_Ended" "\<not> returned s"
  shows "\<exists>s'. tcp_step False cap s s'"
proof (cases "tc_client s")
  case C_Ready
  moreover obtain ok where "tc_ready s = Some ok" using assms(1,2) by (cases "tc_ready s") (auto simp: tcp_inv_def ready_ok_def)
  ultimately show ?thesis using tcp_step.c_ready by blast
next
  case (C_Recv i)
  then show ?thesis using assms client_can_receive [of s i False cap] tcp_step.c_end [of s i False cap] by (auto simp: tcp_inv_def)
qed (use assms tcp_step.c_socket [of s False cap] tcp_step.c_connect_fails [of False s cap] tcp_step.c_sigpipe [of s _ _ False cap]
    tcp_step.c_join [of s _ False cap] in \<open>auto simp: returned_def\<close>)

lemma progress_rounds:
  assumes "tcp_inv s" "tc_server s = S_Recv j \<or> tc_server s = S_Send j m" "0 < cap"
  shows "\<exists>s'. tcp_step False cap s s'"
proof -
  have range: "range_ok s" using assms(1) by (simp add: tcp_inv_def)
  have client: "\<not> before_connect (tc_client s)" "\<not> returned s"
    using assms(1,2) by (auto simp: tcp_inv_def connect_ok_def exit_ok_def returned_def)
  show ?thesis
  proof (cases "tc_client s")
    case (C_Send i k)
    then have server: "tc_server s = S_Recv j" using both_send [OF assms(1)] assms(2) by blast
    show ?thesis using C_Send server range assms(3) transfers_possible [of s] by (cases "tc_up s") auto
  next
    case (C_Recv i)
    show ?thesis
    proof (cases "tc_down s = []")
      case True
      then show ?thesis
        using assms both_receive [OF assms(1) C_Recv] server_can_receive [OF _ range] server_can_send [OF _ range] by fastforce
    qed (use client_can_receive [OF C_Recv range] in blast)
  next
    case (C_Join code)
    then have closed: "client_closed s" by (simp add: client_closed_def)
    show ?thesis
      using assms(2) server_can_receive [OF _ range] tcp_step.s_end [OF _ closed] tcp_step.s_sigpipe [OF _ closed] by (cases "tc_up s") blast+
  qed (use client in \<open>auto simp: before_connect_def returned_def\<close>)
qed

lemma tcp_progress:
  assumes "tcp_inv s" "0 < cap" "\<not> returned s" "\<not> hangs s"
  shows "\<exists>s'. tcp_step False cap s s'"
proof (cases "tc_server s")
  case S_Ended
  then show ?thesis using progress_ended assms by blast
next
  case (S_Recv j)
  then show ?thesis using progress_rounds assms by blast
next
  case (S_Send j m)
  then show ?thesis using progress_rounds assms by blast
qed (use progress_setup [OF assms(1) _ assms(4)] in auto)

section \<open>Properties\<close>

lemma tcp_run_sound:
  assumes "(tcp_step False cap)\<^sup>*\<^sup>* tcp_new s"
  shows "\<not> tc_failed s"
  using assms
proof (induction rule: rtranclp_induct)
  case (step y z)
  then show ?case using tcp_step_sound tcp_run_inv by blast
qed (simp add: tcp_new_def)

lemma tcp_final:
  assumes "tcp_inv s" "0 < cap"
  shows "\<exists>s'. (tcp_step False cap)\<^sup>*\<^sup>* s s' \<and> (returned s' \<or> hangs s')"
  using assms
proof (induction "tcp_weight s" arbitrary: s rule: less_induct)
  case less
  show ?case
  proof (cases "returned s \<or> hangs s")
    case False
    then obtain y where y: "tcp_step False cap s y" using tcp_progress less.prems by blast
    have "tcp_weight y < tcp_weight s" using tcp_step_weight [OF y] less.prems(1) by (simp add: tcp_inv_def)
    from less.hyps [OF this tcp_step_inv [OF y less.prems(1)] less.prems(2)] show ?thesis using y by (meson converse_rtranclp_into_rtranclp)
  qed blast
qed

text \<open>
  C18. The comparison works whatever the sizes of the transfers: as long as no call fails, the client and the server never block each other, every run
  ends, and it ends with exit code 0 and the payload echoed to the client.
\<close>

theorem tcp_compare_succeeds:
  assumes "(tcp_step False cap)\<^sup>*\<^sup>* tcp_new s" "0 < cap"
  shows "(\<exists>s'. (tcp_step False cap)\<^sup>*\<^sup>* s s' \<and> tc_client s' = C_Exit 0) \<and>
    (\<forall>s'. tcp_step False cap s s' \<longrightarrow> tcp_weight s' < tcp_weight s) \<and>
    ((\<nexists>s'. tcp_step False cap s s') \<longrightarrow> tc_client s = C_Exit 0 \<and> tc_response s = tcp_payload)"
proof -
  have final: "tc_client y = C_Exit 0 \<and> tc_response y = tcp_payload"
    if "(tcp_step False cap)\<^sup>*\<^sup>* tcp_new y" "returned y \<or> hangs y" for y
  proof -
    have "done_ok y" "bytes_ok y" "\<not> tc_failed y" using tcp_run_inv [OF that(1)] tcp_run_sound [OF that(1)] by (simp_all add: tcp_inv_def)
    then show ?thesis using that(2)
      by (auto simp: done_ok_def bytes_ok_def returned_def hangs_def tcp_payload_def intro: replicate_eqI)
  qed
  have inv: "tcp_inv s" by (rule tcp_run_inv [OF assms(1)])
  obtain y where y: "(tcp_step False cap)\<^sup>*\<^sup>* s y" "returned y \<or> hangs y" using tcp_final [OF inv assms(2)] by blast
  have "\<exists>s'. (tcp_step False cap)\<^sup>*\<^sup>* s s' \<and> tc_client s' = C_Exit 0"
    using y final [OF rtranclp_trans [OF assms(1) y(1)] y(2)] by blast
  moreover have "\<forall>s'. tcp_step False cap s s' \<longrightarrow> tcp_weight s' < tcp_weight s" using tcp_step_weight inv by (simp add: tcp_inv_def)
  moreover have "(\<nexists>s'. tcp_step False cap s s') \<longrightarrow> tc_client s = C_Exit 0 \<and> tc_response s = tcp_payload"
    using tcp_progress [OF inv assms(2)] final [OF assms(1)] by blast
  ultimately show ?thesis by blast
qed

lemma hangs_stuck: "hangs s \<Longrightarrow> \<not> tcp_step faults cap s s'"
  by (auto simp: hangs_def elim: tcp_step.cases)

text \<open>
  C19. The comparison hangs if its client can not connect: from the start there is a run, every step of which the operating system
  allows, in which the client's \<open>socket\<close> fails, and then nothing can happen any more, though \<open>main\<close> has not returned: it joins a server
  that waits for a connection. It is the only state in which the program is stuck, whatever fails.
\<close>

theorem tcp_compare_can_hang:
  "(\<exists>s. (tcp_step True cap)\<^sup>*\<^sup>* tcp_new s \<and> hangs s \<and> (\<nexists>s'. tcp_step True cap s s')) \<and>
   (\<forall>s. 0 < cap \<and> (tcp_step True cap)\<^sup>*\<^sup>* tcp_new s \<and> (\<nexists>s'. tcp_step False cap s s') \<longrightarrow> returned s \<or> hangs s)"
proof
  let ?s1 = "tcp_new\<lparr>tc_server := S_Bind\<rparr>"
  let ?s2 = "?s1\<lparr>tc_server := S_Accept, tc_ready := Some True\<rparr>"
  let ?s3 = "?s2\<lparr>tc_client := C_Socket\<rparr>"
  let ?s4 = "?s3\<lparr>tc_client := C_Join 1, tc_failed := True\<rparr>"
  have "tcp_step True cap tcp_new ?s1" by (rule tcp_step.s_socket) (simp add: tcp_new_def)
  moreover have "tcp_step True cap ?s1 ?s2" by (rule tcp_step.s_bind) simp
  moreover have "tcp_step True cap ?s2 ?s3" using tcp_step.c_ready [of ?s2 True True cap] by (simp add: tcp_new_def)
  moreover have "tcp_step True cap ?s3 ?s4" by (rule tcp_step.c_socket_fails) simp_all
  ultimately have "(tcp_step True cap)\<^sup>*\<^sup>* tcp_new ?s4" by (meson rtranclp.rtrancl_into_rtrancl rtranclp.rtrancl_refl)
  moreover have "hangs ?s4" by (simp add: hangs_def tcp_new_def)
  ultimately show "\<exists>s. (tcp_step True cap)\<^sup>*\<^sup>* tcp_new s \<and> hangs s \<and> (\<nexists>s'. tcp_step True cap s s')" using hangs_stuck by blast
  show "\<forall>s. 0 < cap \<and> (tcp_step True cap)\<^sup>*\<^sup>* tcp_new s \<and> (\<nexists>s'. tcp_step False cap s s') \<longrightarrow> returned s \<or> hangs s"
    using tcp_progress tcp_run_inv by blast
qed

section \<open>Examples\<close>

theorem tcp_compare_succeeds_witness:
  "\<exists>s. (tcp_step False 1)\<^sup>*\<^sup>* tcp_new s \<and> tc_client s = C_Exit 0"
  using tcp_compare_succeeds [of 1 tcp_new] by simp

theorem tcp_compare_can_hang_witness:
  "\<exists>s. (tcp_step True 1)\<^sup>*\<^sup>* tcp_new s \<and> hangs s"
  using tcp_compare_can_hang [of 1] by blast

end
