(* ===== verification/Spec2Isabelle.thy ===== *)
theory Spec2Isabelle
  imports Rdma_Cluster Rdma_Poller Rdma_Benchmarks Worker_Runtime Worker_Logger Worker_Main Platform_System Sched_Grpc
    Sched_Program Tcp_Compare
begin

text \<open>
  A model of the RDMA AI platform, theories and theorems.

  \<^bold>\<open>The program.\<close> The repository has three parts.
  \<^item> The RDMA library (C++, \<open>rdma/\<close>): task and result messages, registered memory, queue pairs, completion queues and an in-memory
    transport with one mailbox per node; on top of it a client, a server and worker sessions.
  \<^item> The worker (C++, \<open>worker/\<close>): a process that registers with the scheduler, sends heartbeats, receives tasks as lines over TCP,
    executes them in a pool of threads and reports the results over HTTP.
  \<^item> The scheduler (Go, \<open>scheduler/\<close>): a store of workers and tasks under one lock, HTTP and gRPC interfaces to it, a dispatcher that
    assigns tasks to the least loaded worker, a checker and a deliverer that sends assigned tasks to the workers.
  Scheduler and worker meet at the bytes of HTTP bodies and task lines; the theories \<open>Platform_Wire\<close>, \<open>Platform_Tasks\<close> and
  \<open>Platform_System\<close> join them there. The RDMA library is used by the worker's runtime, the examples and the benchmarks.

  \<^bold>\<open>Conventions.\<close> A C++ class or Go struct is a record, an enumeration a datatype, a method \<open>C::m\<close> a function \<open>C_m\<close> that takes and
  returns the state; exceptions and errors are values. Integers keep their width where they can overflow (\<open>word\<close>, or \<open>int\<close> with the
  wrap-around written out); sizes that are only compared are natural numbers. Shared buffers are cells of a heap, so that sharing a
  buffer is sharing a pointer. What the operating system answers (sockets, files, the environment, the clock) is an argument. A timed
  wait takes the actions of the other threads during the wait as an argument; where threads themselves are modelled, they are step
  relations at the grain of locked blocks and atomic accesses, and a timed wait that is over with nothing to take is a step of
  its own. History fields, which no step reads, are named as such where they are declared.

  \<^bold>\<open>The RDMA library.\<close>
  \<^item> \<open>Rdma_Prelude\<close>: strings, \<open>getline\<close>, \<open>to_string\<close>, sorted maps, timed waits, the heap. \<open>Rdma_Types\<close>, \<open>Rdma_Config\<close>:
    enumerations, byte strings, the logger, configurations and resource handles (\<open>types.h\<close>, \<open>logger.cpp\<close>, \<open>config.h\<close>, \<open>device.cpp\<close>, \<open>context.cpp\<close>,
    \<open>protection_domain.cpp\<close>).
  \<^item> \<open>Rdma_Messages\<close> (\<open>task_message.h\<close>, \<open>result_message.h\<close>): the locale \<open>line_codec\<close>, interpreted for both messages; round
    trips, and what a newline in a field does.
  \<^item> \<open>Rdma_Memory\<close>, \<open>Rdma_Buffer_Pool\<close> (\<open>memory_region.cpp\<close>, \<open>buffer_pool.cpp\<close>): keys are unique up to 2^64 registrations, the pool
    keeps its buffers, and a buffer is never held by two users.
  \<^item> \<open>Rdma_Queue_Pair\<close> (\<open>queue_pair.cpp\<close>, \<open>connection.cpp\<close>, \<open>handshake.cpp\<close>): the code's transitions are those of the
    documented graph.
  \<^item> \<open>Rdma_Completion\<close>, \<open>Rdma_Transport\<close> (\<open>event_channel.cpp\<close>, \<open>completion_queue.cpp\<close>, \<open>transport_rdma.cpp\<close>): completion queues and
    mailboxes are FIFOs that drop their oldest entry, the locale \<open>drop_oldest_fifo\<close>; a send reaches its peer and nobody else.
  \<^item> \<open>Rdma_Metrics\<close>, \<open>Rdma_Poller\<close> (\<open>metrics.cpp\<close>, \<open>poller.cpp\<close>): counters are exact for every interleaving of their atomic steps;
    the poller hands over in order.
  \<^item> \<open>Rdma_Peers\<close>: the locale \<open>peer_table\<close> of connections made on first use, interpreted for the server, the session and the
    runtime. \<open>Rdma_Client_Server\<close>, \<open>Rdma_Worker_Session\<close> (\<open>rdma_client.cpp\<close>, \<open>rdma_server.cpp\<close>, \<open>worker_session.cpp\<close>): every
    operation on every branch, and a session's metrics as a function of its history.
  \<^item> \<open>Rdma_Cluster\<close> and this theory: any number of sessions on one transport refine a network of bounded FIFO queues of tasks
    (\<open>sessions_refine_network\<close>), and what that means for a burst (\<open>burst_delivery\<close>) and for a request with its reply.
  \<^item> \<open>Rdma_Examples\<close>, \<open>Rdma_Benchmarks\<close>: the programs under \<open>rdma/examples\<close> and \<open>rdma/benchmark\<close>. The locale \<open>timed_program\<close> is what the
    programs with several threads share; its two interpretations show that they end and, unless a wait runs out, end well. The latency
    benchmark posts more than a mailbox holds and has a run in which it fails.
  \<^item> \<open>Tcp_Compare\<close> (\<open>benchmark/tcp_compare.cpp\<close>): the plain TCP program the benchmarks are compared with. Its threads never block each other, and
    it hangs in exactly one situation, a client that can not connect.

  \<^bold>\<open>The worker.\<close>
  \<^item> \<open>Worker_Runtime\<close> (\<open>worker/model\<close>, \<open>worker/task\<close>, \<open>worker/runtime/worker_runtime.cpp\<close>): tensors, the task executor and the
    runtime that ships tensors over the RDMA library. Floating-point arithmetic and the bytes of a float are parameters.
  \<^item> \<open>Worker_Config\<close>, \<open>Worker_Tasks\<close>, \<open>Worker_Tcp\<close>, \<open>Worker_Scheduler_Client\<close>, \<open>Worker_Logger\<close>: the configuration file, the
    executor and the task queue, the task server, the HTTP client, the log lines.
  \<^item> \<open>Worker_Thread_Pool\<close> (\<open>thread_pool.cpp\<close>, \<open>timer.cpp\<close>): the loops of the threads as steps; stopping the pool runs every accepted
    task and terminates.
  \<^item> \<open>Worker_Node\<close>, \<open>Worker_Node_Run\<close>, \<open>Worker_Main\<close> (\<open>worker_node.cpp\<close>, \<open>main.cpp\<close>): starting is all or nothing; the active ids are
    exactly the tasks being worked on; an executed task is reported once; stopping terminates; a worker that is left alone becomes idle; a
    heartbeat carries the tasks in flight unless a thread moves between its two reads; the wait of \<open>run()\<close> can miss its wake-up.

  \<^bold>\<open>The scheduler.\<close>
  \<^item> \<open>Sched_Model\<close>, \<open>Sched_Strategy\<close>, \<open>Sched_Dispatch\<close> (\<open>internal/model\<close>, \<open>internal/storage\<close>, \<open>internal/registry\<close>, \<open>internal/scheduler\<close>):
    the store, the comparison of loads by 64-bit products, which below 2^31 is the order of the load ratios, registration, heartbeat,
    selection and dispatch.
  \<^item> \<open>Sched_Service\<close> (\<open>internal/service\<close>, \<open>internal/monitor/checker.go\<close>): every call is a sequence of blocks under the store's lock; the
    store invariant, the life of a task and the counts of running tasks hold for every sequence of blocks.
  \<^item> \<open>Sched_Json\<close>, \<open>Sched_Api\<close> (\<open>internal/api\<close>): reading JSON bodies, routes, handlers; a request that is answered with an error
    changes nothing. \<open>Sched_Grpc\<close> (\<open>internal/grpcapi/server.go\<close>): the gRPC calls and the assignment stream.
  \<^item> \<open>Sched_Deliverer\<close> (\<open>internal/monitor/deliverer.go\<close>): what a pass sends. \<open>Sched_Config\<close> (\<open>cmd/server.go\<close>): the configuration
    file, \<open>time.ParseDuration\<close>, and what \<open>Run\<close> builds from them. \<open>Sched_Program\<close> (\<open>cmd/server.go\<close>, \<open>main.go\<close>): the order in which
    \<open>Run\<close> starts things and how the program ends. \<open>Sched_Logger\<close> (\<open>Logger/logger.go\<close>): the lines of its logger.

  \<^bold>\<open>Worker and scheduler together.\<close> \<open>Platform_Wire\<close>: the scheduler's decoder reads back what the worker writes by hand.
  \<open>Platform_Tasks\<close>: registration and heartbeat are accepted, a task goes from the store to the worker and its result back to the store, and a
  control character in a payload makes a task be repeated. \<open>Platform_System\<close> puts one scheduler, any number of workers and the network into one
  step relation: the blocks of the store, the connections of the deliverer, the threads of the workers, lines and requests under way, cut lines, crashes and
  restarts. Its invariant follows every task from the store over the wire through a worker and back. Hence results are right in every run
  (\<open>results_are_right\<close>), and no running task is ever beyond completion while its worker runs (\<open>running_task_can_complete\<close>); the exception
  is a line that was cut (\<open>cut_line_completes_task\<close>). It assumes that only the deliverer connects to workers and only workers report results.

  \<^bold>\<open>Bounds.\<close> No definition uses fuel. Loops that end are recursive functions with a termination proof; loops that may run forever are
  step relations or take the finite script of what the operating system answers, and a script that ends before the loop does is a value of
  its own. The theorems that say a program ends give a number of steps: 515 for the ping-pong (two steps per round and thread, and three), twice
  the messages and one per receiver and one for a benchmark. Registration numbers and the steps of a run of the whole platform are bounded by 2^64, so
  that task ids do not wrap around; load comparison by 2^31, as stated in the theorems concerned.

  \<^bold>\<open>Not modelled.\<close> The measured times of examples and benchmarks; \<open>latency_test.cpp\<close> and \<open>throughput_test.cpp\<close> under \<open>benchmark/\<close>, which
  include headers that do not exist and can not be built; the log lines of worker and scheduler at the places that write them; the texts of error messages of the scheduler and the JSON encoding of its answers, of which the worker reads the status code
  only; paths with percent escapes; the code generated from the protocol files, whose messages are records here; the HTTP
  and gRPC transport and the goroutine scheduling of Go's libraries; a restart of the scheduler, which begins with an empty store; weak memory orders, since every shared variable is an atomic or under a lock except the
  listening socket of the task server, which the findings name.
\<close>

section \<open>Requests and replies\<close>

text \<open>One round of the client and the server, the calls in the order \<open>rdma/examples/pingpong.cpp\<close>
  makes them; the client also polls its completion.\<close>

definition exchange ::
    "RdmaClient \<Rightarrow> RdmaServer \<Rightarrow> TaskMessage \<Rightarrow> ResultMessage \<Rightarrow> 'w rdma_world_scheme
       \<Rightarrow> bool \<times> WorkRequestId \<times> TaskMessage option \<times> bool \<times> ResultMessage option \<times> CompletionEvent option" where
  "exchange client server task result w =
     (case RdmaClient_Connect client w of (did_connect, client1, w1) \<Rightarrow>
      case RdmaClient_SubmitTask task client1 w1 of (wid, client2, w2) \<Rightarrow>
      case RdmaServer_PollTask [] server w2 of (received, w3) \<Rightarrow>
      case RdmaServer_SendResult (client_node_id (rc_config client)) result server w3 of (sent, server1, w4) \<Rightarrow>
      case RdmaClient_PollResult [] client2 w4 of (reply, w5) \<Rightarrow>
      case RdmaClient_PollCompletion [] client2 of (event, client3) \<Rightarrow>
        (did_connect, wid, received, sent, reply, event))"

text \<open>
  A request and its reply arrive: a fresh client and a fresh server that share an idle transport
  of any mailbox capacity connect, the server polls exactly the task the client submitted, the
  client polls exactly the result the server sent, and the client's first completion
  reports success for work request 1.
\<close>

theorem request_reply:
  assumes "client_node_id cc \<noteq> []" "server_node cc \<noteq> []" "server_node_id sc = server_node cc"
    "transports w t = TransportRdma_new tc" "TaskMessage_ok task" "ResultMessage_ok result"
  shows "\<exists>e. exchange (RdmaClient_new cc (Some t)) (RdmaServer_new sc (Some t)) task result w =
      (True, 1, Some task, True, Some result, Some e) \<and> ce_status e = CS_kSuccess \<and> ce_work_request_id e = 1"
proof -
  let ?c = "RdmaClient_new cc (Some t)" and ?s = "RdmaServer_new sc (Some t)"
  let ?me = "client_node_id cc" and ?srv = "server_node cc"
  define c1 where "c1 = ?c\<lparr>rc_connection := ready_connection ?me ?srv\<rparr>"
  define w1 where "w1 = TransportRdma_Connect t (ready_qp ?me ?srv) w"
  have c: "rc_config ?c = cc" "rc_transport ?c = Some t" by (simp_all add: RdmaClient_new_def)
  have c1: "rc_config c1 = cc" "rc_transport c1 = Some t" "rc_connection c1 = ready_connection ?me ?srv"
    "rc_next_work_request_id c1 = 1" "cq_queue (rc_completions c1) = []"
    by (simp_all add: c1_def RdmaClient_new_def CompletionQueue_new_def)
  have conn: "RdmaClient_Connect ?c w = (True, c1, w1)"
    using RdmaClient_Connect_eq [OF RdmaClient_new_ok, of cc "Some t" w] assms(1,2)
    by (simp add: c c1_def w1_def)
  have empty: "inbox_of node (transports w1 t) = []" for node
    using assms(4) by (simp add: w1_def) (simp add: inbox_of_def TransportRdma_new_def)
  obtain wid c2 w2 where sub: "RdmaClient_SubmitTask task c1 w1 = (wid, c2, w2)" by (metis prod_cases3)
  note st = SubmitTask_delivers [OF _ _ _ sub, of t, unfolded c1, simplified, OF empty]
  obtain msg where msg: "inbox_of ?srv (transports w2 t) = [msg]" "msg_payload msg = Some (next_cell w1)"
    using st(2) by blast
  have s: "rs_transport ?s = Some t" "server_node_id (rs_config ?s) = ?srv"
    by (simp_all add: RdmaServer_new_def assms(3))
  define w3 where "w3 = set_transport t ((transports w2 t)\<lparr>inboxes := (inboxes (transports w2 t))(?srv \<mapsto> [])\<rparr>) w2"
  have poll: "RdmaServer_PollTask [] ?s w2 = (Some task, w3)"
    using PollTask_ready [OF s(1) msg(1) [folded s(2)] msg(2), of "[]"] st(3)
    by (simp add: w3_def s(2) task_codec.roundtrip [OF assms(5)])
  have empty3: "inbox_of ?me (transports w3 t) = []"
    using st(4) [of ?me] empty [of ?me] by (cases "?me = ?srv") (simp_all add: w3_def inbox_of_def)
  obtain ok s1 w4 where send: "RdmaServer_SendResult ?me result ?s w3 = (ok, s1, w4)" by (metis prod_cases3)
  note sr = SendResult_effect [OF s(1) RdmaServer_new_peers send]
  obtain rmsg where rmsg: "inbox_of ?me (transports w4 t) = [rmsg]" "msg_payload rmsg = Some (next_cell w3)"
    using sr(5) empty3 by auto
  have c2: "rc_transport c2 = Some t" "client_node_id (rc_config c2) = ?me" using st(5,6) by simp_all
  have reply: "fst (RdmaClient_PollResult [] c2 w4) = Some result"
    using PollResult_ready [OF c2(1) rmsg(1) [folded c2(2)] rmsg(2), of "[]"] sr(6)
    by (simp add: result_codec.roundtrip [OF assms(6)])
  obtain e where e: "rc_completions c2 = CompletionQueue_locked_push e (rc_completions c1)"
    "ce_status e = CS_kSuccess" "ce_work_request_id e = 1" using st(1,7) by auto
  have "fst (RdmaClient_PollCompletion [] c2) = Some e"
    using c1(5) by (simp add: RdmaClient_PollCompletion_def CompletionQueue_Poll_def e(1)
        CompletionQueue_locked_push_def Let_def)
  with conn sub poll send reply sr(1) st(1) e(2,3) show ?thesis
    by (simp add: exchange_def c case_prod_beta)
qed

theorem request_reply_witness:
  "\<exists>e. exchange (RdmaClient_new ClientConfig_default (Some 0)) (RdmaServer_new ServerConfig_default (Some 0))
      sample_task sample_result empty_world = (True, 1, Some sample_task, True, Some sample_result, Some e)"
  using request_reply [of ClientConfig_default ServerConfig_default empty_world 0 TransportConfig_default,
      OF _ _ _ _ sample_task_ok sample_result_ok]
  by (auto simp: ClientConfig_default_def ServerConfig_default_def empty_world_def)

section \<open>Sessions over one transport\<close>


text \<open>Two sessions \<open>a\<close> and \<open>b\<close> and an idle transport.\<close>

definition sample_sessions :: "nat \<Rightarrow> WorkerSession" where
  "sample_sessions i = fst (WorkerSession_new
     \<lparr>session_node_id = (if i = 0 then ''a'' else ''b''), session_buffer_pool = \<lparr>buffers = 0, buffer_size = 64\<rparr>,
      session_completion_queue = \<lparr>depth = 8\<rparr>\<rparr> (Some 0) empty_world)"

lemma sample_sessions_ok:
  "cluster_ok 0 sample_sessions empty_world" "ws_node (sample_sessions i) = (if i = 0 then ''a'' else ''b'')"
  "net_abs 0 empty_world = (\<lambda>_. [])" "tr_cap (transports empty_world 0) = 4096"
  by (simp_all add: cluster_ok_def net_ok_def inbox_valid_def fits_def sample_sessions_def WorkerSession_new_def
      BufferPool_new_def session_peers.peers_ok_def net_abs_def inbox_tasks_def fun_eq_iff)
    (simp add: empty_world_def TransportRdma_new_def TransportConfig_default_def)


text \<open>
  C13. First in, first out, with silent loss under overload: when one session submits a burst of tasks to
  a node whose inbox is empty, every submission reports success and the node then polls the
  tasks in order, except that beyond the mailbox capacity the oldest are gone.
\<close>

theorem burst_delivery:
  assumes "cluster_ok t S w" "inbox_of (ws_node (S j)) (transports w t) = []"
    "\<forall>task \<in> set ts. TaskMessage_ok task \<and> task_peer (S i) task = ws_node (S j)"
    "cluster_run (map (OpSubmit i) ts @ replicate n (OpPoll j)) (S, w) = (outs, S', w')"
  shows "map out_view outs =
    replicate (length ts) (Inr True) @
    map (Inl \<circ> Some) (take n (keep_last (tr_cap (transports w t)) ts)) @
    replicate (n - length (keep_last (tr_cap (transports w t)) ts)) (Inl None)"
proof -
  let ?node = "\<lambda>i. ws_node (S i)" and ?cap = "tr_cap (transports w t)"
  have ops: "\<forall>op \<in> set (map (OpSubmit i) ts @ replicate n (OpPoll j)). op_ok op"
    using assms(3) by auto
  have dest: "\<forall>task \<in> set ts. (if tm_target_node task = [] then ?node i else tm_target_node task) = ?node j"
    using assms(3) by (simp add: task_peer_def)
  have empty: "net_abs t w (?node j) = []" using assms(2) by (simp add: net_abs_def inbox_tasks_def)
  have "net_run ?cap ?node (map (OpSubmit i) ts) (net_abs t w) =
      (replicate (length ts) (Inr True), (net_abs t w)(?node j := keep_last ?cap ts))"
    using net_run_submits [of ts ?node i "?node j" ?cap "net_abs t w", OF dest] empty by (simp add: fits_def)
  then show ?thesis
    using cluster_run_refines [OF assms(1) ops assms(4)]
    by (simp add: net_run_append net_run_polls)
qed

theorem burst_delivery_witness:
  "\<exists>outs S' w'. cluster_run (map (OpSubmit 0) [sample_task, sample_task\<lparr>tm_task_id := ''t-2''\<rparr>] @
       replicate 3 (OpPoll 1)) (sample_sessions, empty_world) = (outs, S', w') \<and>
     map out_view outs = [Inr True, Inr True, Inl (Some sample_task),
       Inl (Some (sample_task\<lparr>tm_task_id := ''t-2''\<rparr>)), Inl None]"
proof -
  let ?ts = "[sample_task, sample_task\<lparr>tm_task_id := ''t-2''\<rparr>]"
  obtain outs S' w' where run: "cluster_run (map (OpSubmit 0) ?ts @ replicate 3 (OpPoll 1))
      (sample_sessions, empty_world) = (outs, S', w')" by (metis prod_cases3)
  have ts: "\<forall>task \<in> set ?ts. TaskMessage_ok task \<and> task_peer (sample_sessions 0) task = ws_node (sample_sessions 1)"
    using sample_task_ok by (simp add: task_peer_def sample_sessions_ok TaskMessage_ok_def) (simp add: sample_task_def)
  show ?thesis
    using burst_delivery [OF sample_sessions_ok(1) _ ts run] run
    by (simp add: keep_last_def sample_sessions_ok numeral_3_eq_3 del: cluster_run.simps)
qed

end
